(* ===== verification/Xv6_Prelude.thy ===== *)
theory Xv6_Prelude
  imports Main "HOL-Library.Word"
begin

text \<open>
  The prelude of the development: the machine types of the C code, the
  outcome monad in which every kernel operation is written, the table scans
  the kernel's \<open>for\<close> loops perform, and the generic lemmas on them.

  A C function of the kernel is a function from the state before to an
  \<^emph>\<open>outcome\<close>: it returns (\<open>Ok\<close> with its result and the state after), it
  calls \<open>panic\<close> (\<open>Panic\<close> with the message, console.c:107 never returns), or it
  gives the processor away inside \<open>sched\<close> (\<open>Switch\<close> with the state at the
  moment of the context switch).
\<close>

unbundle bit_operations_syntax

section \<open>Machine types\<close>

type_synonym u8 = "8 word"
type_synonym u16 = "16 word"
type_synonym u32 = "32 word"

section \<open>The outcome monad\<close>

datatype ('s, 'a) outcome = Ok 'a 's | Panic string | Switch 's

type_synonym ('s, 'a) prog = "'s \<Rightarrow> ('s, 'a) outcome"

definition kret :: "'a \<Rightarrow> ('s, 'a) prog" where
  "kret a = (\<lambda>s. Ok a s)"

definition kbind :: "('s, 'a) prog \<Rightarrow> ('a \<Rightarrow> ('s, 'b) prog) \<Rightarrow> ('s, 'b) prog" where
  "kbind m f = (\<lambda>s. case m s of
       Ok a s' \<Rightarrow> f a s'
     | Panic e \<Rightarrow> Panic e
     | Switch s' \<Rightarrow> Switch s')"

definition kseq :: "('s, 'a) prog \<Rightarrow> ('s, 'b) prog \<Rightarrow> ('s, 'b) prog" where
  "kseq m n = kbind m (\<lambda>_. n)"

definition kget :: "('s \<Rightarrow> 'a) \<Rightarrow> ('s, 'a) prog" where
  "kget f = (\<lambda>s. Ok (f s) s)"

definition kmod :: "('s \<Rightarrow> 's) \<Rightarrow> ('s, unit) prog" where
  "kmod f = (\<lambda>s. Ok () (f s))"

definition kpanic :: "string \<Rightarrow> ('s, 'a) prog" where
  "kpanic e = (\<lambda>_. Panic e)"

definition kswitch :: "('s, 'a) prog" where
  "kswitch = (\<lambda>s. Switch s)"

definition kwhen :: "bool \<Rightarrow> ('s, unit) prog \<Rightarrow> ('s, unit) prog" where
  "kwhen b m = (if b then m else kret ())"

text \<open>\<open>for(i = ...; ...; i++) body\<close> over a fixed range of indices.\<close>

primrec kfor :: "'i list \<Rightarrow> ('i \<Rightarrow> ('s, unit) prog) \<Rightarrow> ('s, unit) prog" where
  "kfor [] f = kret ()"
| "kfor (i # is) f = kseq (f i) (kfor is f)"

named_theorems krun \<open>running the outcome monad on a state\<close>

lemma kret_run [krun]: "kret a s = Ok a s"
  by (simp add: kret_def)

lemma kget_run [krun]: "kget f s = Ok (f s) s"
  by (simp add: kget_def)

lemma kmod_run [krun]: "kmod f s = Ok () (f s)"
  by (simp add: kmod_def)

lemma kpanic_run [krun]: "kpanic e s = Panic e"
  by (simp add: kpanic_def)

lemma kswitch_run [krun]: "kswitch s = Switch s"
  by (simp add: kswitch_def)

lemma kbind_run [krun]:
  "kbind m f s = (case m s of Ok a s' \<Rightarrow> f a s' | Panic e \<Rightarrow> Panic e | Switch s' \<Rightarrow> Switch s')"
  by (simp add: kbind_def)

lemma kseq_run [krun]:
  "kseq m n s = (case m s of Ok a s' \<Rightarrow> n s' | Panic e \<Rightarrow> Panic e | Switch s' \<Rightarrow> Switch s')"
  by (simp add: kseq_def kbind_def)

lemma kwhen_run [krun]: "kwhen b m s = (if b then m s else Ok () s)"
  by (simp add: kwhen_def kret_def)

lemma kbind_assoc: "kbind (kbind m f) g = kbind m (\<lambda>a. kbind (f a) g)"
  by (rule ext) (simp add: kbind_def split: outcome.splits)

lemma kbind_kret [simp]: "kbind (kret a) f = f a" "kbind m kret = m"
  by (auto simp: kbind_def kret_def fun_eq_iff split: outcome.splits)

lemma kseq_assoc: "kseq (kseq l m) n = kseq l (kseq m n)"
  by (simp add: kseq_def kbind_assoc)

lemma kfor_append: "kfor (xs @ ys) f = kseq (kfor xs f) (kfor ys f)"
  by (induction xs) (auto simp: kseq_def kbind_assoc)

subsection \<open>Running a program that returns\<close>

lemma kseq_then:
  assumes "kseq m n s = Ok x t"
  shows "kseq m (kseq n k) s = k t"
proof -
  have "kseq m (kseq n k) s = kseq (kseq m n) k s" by (simp only: kseq_assoc)
  also have "\<dots> = k t" by (subst kseq_run) (simp only: assms outcome.case)
  finally show ?thesis .
qed

lemma kbind_Ok_iff:
  "kbind m f s = Ok b t \<longleftrightarrow> (\<exists>a s'. m s = Ok a s' \<and> f a s' = Ok b t)"
  by (simp add: kbind_def split: outcome.splits)

lemma kseq_Ok_iff:
  "kseq m n s = Ok b t \<longleftrightarrow> (\<exists>a s'. m s = Ok a s' \<and> n s' = Ok b t)"
  by (simp add: kseq_def kbind_Ok_iff)

lemma kbind_Switch_iff:
  "kbind m f s = Switch t \<longleftrightarrow> m s = Switch t \<or> (\<exists>a s'. m s = Ok a s' \<and> f a s' = Switch t)"
  by (simp add: kbind_def split: outcome.splits)

lemma kseq_Switch_iff:
  "kseq m n s = Switch t \<longleftrightarrow> m s = Switch t \<or> (\<exists>a s'. m s = Ok a s' \<and> n s' = Switch t)"
  by (simp add: kseq_def kbind_Switch_iff)

lemmas kOk =
  kbind_Ok_iff kseq_Ok_iff kret_run kget_run kmod_run kpanic_run kswitch_run kwhen_run

subsection \<open>Invariants and frames\<close>

text \<open>
  \<open>keeps P m\<close>: whenever \<open>m\<close> starts in a state with \<open>P\<close> and stops (by returning
  or by switching), the state it leaves satisfies \<open>P\<close>. \<open>frames f m\<close>: the
  projection \<open>f\<close> of the state is not changed.
\<close>

definition keeps :: "('s \<Rightarrow> bool) \<Rightarrow> ('s, 'a) prog \<Rightarrow> bool" where
  "keeps P m \<longleftrightarrow> (\<forall>s. P s \<longrightarrow> (case m s of Ok _ t \<Rightarrow> P t | Panic _ \<Rightarrow> True | Switch t \<Rightarrow> P t))"

definition frames :: "('s \<Rightarrow> 'f) \<Rightarrow> ('s, 'a) prog \<Rightarrow> bool" where
  "frames f m \<longleftrightarrow> (\<forall>x. keeps (\<lambda>s. f s = x) m)"

lemma keepsI:
  assumes "\<And>s a t. P s \<Longrightarrow> m s = Ok a t \<Longrightarrow> P t"
    and "\<And>s t. P s \<Longrightarrow> m s = Switch t \<Longrightarrow> P t"
  shows "keeps P m"
  unfolding keeps_def
proof (intro allI impI)
  fix s
  assume "P s"
  with assms [of s] show "case m s of Ok _ t \<Rightarrow> P t | Panic _ \<Rightarrow> True | Switch t \<Rightarrow> P t"
    by (cases "m s") simp_all
qed

lemma keeps_OkD: "keeps P m \<Longrightarrow> P s \<Longrightarrow> m s = Ok a t \<Longrightarrow> P t"
  unfolding keeps_def by (drule spec [of _ s]) simp

lemma keeps_SwitchD: "keeps P m \<Longrightarrow> P s \<Longrightarrow> m s = Switch t \<Longrightarrow> P t"
  unfolding keeps_def by (drule spec [of _ s]) simp

lemma frames_OkD: "frames f m \<Longrightarrow> m s = Ok a t \<Longrightarrow> f t = f s"
  using keeps_OkD [of "\<lambda>u. f u = f s" m s a t] by (simp add: frames_def)

lemma frames_SwitchD: "frames f m \<Longrightarrow> m s = Switch t \<Longrightarrow> f t = f s"
  using keeps_SwitchD [of "\<lambda>u. f u = f s" m s t] by (simp add: frames_def)

named_theorems keep_intros \<open>introduction rules for \<open>keeps\<close> and \<open>frames\<close>\<close>

lemma keeps_kret [keep_intros]: "keeps P (kret a)"
  by (simp add: keeps_def kret_def)

lemma keeps_kget [keep_intros]: "keeps P (kget f)"
  by (simp add: keeps_def kget_def)

lemma keeps_kpanic [keep_intros]: "keeps P (kpanic e)"
  by (simp add: keeps_def kpanic_def)

lemma keeps_kswitch [keep_intros]: "keeps P kswitch"
  by (simp add: keeps_def kswitch_def)

lemma keeps_kmod: "(\<And>s. P s \<Longrightarrow> P (f s)) \<Longrightarrow> keeps P (kmod f)"
  by (simp add: keeps_def kmod_def)

lemma keeps_kbind [keep_intros]:
  assumes m: "keeps P m" and f: "\<And>a. keeps P (f a)"
  shows "keeps P (kbind m f)"
proof (rule keepsI)
  fix s b t
  assume "P s" and "kbind m f s = Ok b t"
  then show "P t"
    unfolding kbind_Ok_iff using keeps_OkD [OF m] keeps_OkD [OF f] by blast
next
  fix s t
  assume "P s" and "kbind m f s = Switch t"
  then show "P t"
    unfolding kbind_Switch_iff
    using keeps_OkD [OF m] keeps_SwitchD [OF m] keeps_SwitchD [OF f] by blast
qed

lemma keeps_kseq [keep_intros]: "keeps P m \<Longrightarrow> keeps P n \<Longrightarrow> keeps P (kseq m n)"
  by (simp add: kseq_def keeps_kbind)

lemma keeps_kwhen [keep_intros]: "keeps P m \<Longrightarrow> keeps P (kwhen b m)"
  by (simp add: kwhen_def keeps_kret)

lemma keeps_if [keep_intros]: "keeps P m \<Longrightarrow> keeps P n \<Longrightarrow> keeps P (if b then m else n)"
  by simp

lemma keeps_case_option [keep_intros]:
  "keeps P m \<Longrightarrow> (\<And>x. keeps P (f x)) \<Longrightarrow> keeps P (case v of None \<Rightarrow> m | Some x \<Rightarrow> f x)"
  by (cases v) auto

lemma keeps_case_prod [keep_intros]:
  "(\<And>x y. keeps P (f x y)) \<Longrightarrow> keeps P (case v of (x, y) \<Rightarrow> f x y)"
  by (cases v) auto

lemma keeps_kfor [keep_intros]: "(\<And>i. keeps P (f i)) \<Longrightarrow> keeps P (kfor is f)"
  by (induction "is") (auto intro: keep_intros)

lemma keeps_let [keep_intros]: "keeps P (f x) \<Longrightarrow> keeps P (let y = x in f y)"
  by simp

lemma framesI: "(\<And>x. keeps (\<lambda>s. f s = x) m) \<Longrightarrow> frames f m"
  by (simp add: frames_def)

section \<open>Table scans\<close>

text \<open>
  \<open>for(p = table; p < &table[N]; p++) if(test(p)) goto found;\<close> yields the first
  index whose entry passes the test.
\<close>

primrec find_from :: "nat \<Rightarrow> ('a \<Rightarrow> bool) \<Rightarrow> 'a list \<Rightarrow> nat option" where
  "find_from i P [] = None"
| "find_from i P (x # xs) = (if P x then Some i else find_from (Suc i) P xs)"

abbreviation find_slot :: "('a \<Rightarrow> bool) \<Rightarrow> 'a list \<Rightarrow> nat option" where
  "find_slot P xs \<equiv> find_from 0 P xs"

lemma find_from_None: "find_from i P xs = None \<longleftrightarrow> (\<forall>x \<in> set xs. \<not> P x)"
  by (induction xs arbitrary: i) auto

lemma find_from_SomeD:
  "find_from i P xs = Some k \<Longrightarrow>
     i \<le> k \<and> k - i < length xs \<and> P (xs ! (k - i)) \<and> (\<forall>l < k - i. \<not> P (xs ! l))"
proof (induction xs arbitrary: i)
  case Nil
  then show ?case by simp
next
  case (Cons x xs)
  show ?case
  proof (cases "P x")
    case True
    with Cons.prems show ?thesis by simp
  next
    case False
    with Cons.prems have IH: "Suc i \<le> k \<and> k - Suc i < length xs \<and> P (xs ! (k - Suc i)) \<and>
        (\<forall>l < k - Suc i. \<not> P (xs ! l))"
      by (intro Cons.IH) simp
    then have "k - i = Suc (k - Suc i)" by arith
    with IH False show ?thesis by (auto simp: less_Suc_eq_0_disj)
  qed
qed

lemma find_from_exists:
  assumes "x \<in> set xs" and "P x"
  shows "\<exists>k. find_from i P xs = Some k"
  using assms find_from_None [of i P xs] by (cases "find_from i P xs") auto

lemma find_slot_SomeD:
  assumes "find_slot P xs = Some k"
  shows "k < length xs" and "P (xs ! k)" and "l < k \<Longrightarrow> \<not> P (xs ! l)"
  using find_from_SomeD [OF assms] by auto

section \<open>Lists updated at an index\<close>

lemma list_all_update:
  "list_all P xs \<Longrightarrow> (i < length xs \<Longrightarrow> P x) \<Longrightarrow> list_all P (xs[i := x])"
  by (cases "i < length xs") (auto simp: list_all_length nth_list_update list_update_beyond)

lemma nth_update_if: "i < length xs \<Longrightarrow> xs[i := x] ! j = (if i = j then x else xs ! j)"
  by (simp add: nth_list_update)

lemma length_remove1_mem: "x \<in> set xs \<Longrightarrow> Suc (length (remove1 x xs)) = length xs"
  by (induction xs) auto

end
