(* ===== verification/C_Strings.thy ===== *)
theory C_Strings
  imports Xv6_Prelude
begin

text \<open>
  The C string library of the kernel (\<open>string.c\<close>) and of user programs
  (\<open>ulib.c\<close>).

  Memory is a map from 32-bit addresses to bytes and pointer arithmetic is word
  arithmetic. The functions that write to overlapping regions (\<open>memset\<close>,
  \<open>memmove\<close>) are modelled on memory itself, byte by byte in the order of the
  code. The string functions that only read through their arguments take a
  pointer as the view \<open>\<lambda>i. p[i]\<close> of the bytes behind it, so that the same
  definition serves names kept in kernel structures and strings in memory.
\<close>

type_synonym mem = "u32 \<Rightarrow> u8"

type_synonym view = "nat \<Rightarrow> u8"

definition mview :: "mem \<Rightarrow> u32 \<Rightarrow> view" where
  "mview m p = (\<lambda>i. m (p + of_nat i))"

definition lview :: "u8 list \<Rightarrow> view" where
  "lview xs = (\<lambda>i. if i < length xs then xs ! i else 0)"

section \<open>Filling and copying memory\<close>

text \<open>\<open>rep stosb\<close> and \<open>rep stosl\<close> (x86.h): \<open>cnt\<close> stores of a byte or of a
  little-endian 32-bit word at increasing addresses.\<close>

fun stosb :: "mem \<Rightarrow> u32 \<Rightarrow> u8 \<Rightarrow> nat \<Rightarrow> mem" where
  "stosb m a c 0 = m"
| "stosb m a c (Suc n) = stosb (m(a := c)) (a + 1) c n"

definition st32 :: "mem \<Rightarrow> u32 \<Rightarrow> u32 \<Rightarrow> mem" where
  "st32 m a w = m(a := ucast w, a + 1 := ucast (drop_bit 8 w),
                  a + 2 := ucast (drop_bit 16 w), a + 3 := ucast (drop_bit 24 w))"

definition ld32 :: "mem \<Rightarrow> u32 \<Rightarrow> u32" where
  "ld32 m a = ucast (m a) OR push_bit 8 (ucast (m (a + 1)))
              OR push_bit 16 (ucast (m (a + 2))) OR push_bit 24 (ucast (m (a + 3)))"

fun stosl :: "mem \<Rightarrow> u32 \<Rightarrow> u32 \<Rightarrow> nat \<Rightarrow> mem" where
  "stosl m a w 0 = m"
| "stosl m a w (Suc n) = stosl (st32 m a w) (a + 4) w n"

definition memset :: "mem \<Rightarrow> u32 \<Rightarrow> u32 \<Rightarrow> u32 \<Rightarrow> mem" where
  "memset m dst c n =
     (if dst mod 4 = 0 \<and> n mod 4 = 0 then
        let c = c AND 0xFF in
        stosl m dst (push_bit 24 c OR push_bit 16 c OR push_bit 8 c OR c) (unat (n div 4))
      else stosb m dst (ucast c) (unat n))"

fun copy_fwd :: "mem \<Rightarrow> u32 \<Rightarrow> u32 \<Rightarrow> nat \<Rightarrow> mem" where
  "copy_fwd m d s 0 = m"
| "copy_fwd m d s (Suc n) = copy_fwd (m(d := m s)) (d + 1) (s + 1) n"

fun copy_bwd :: "mem \<Rightarrow> u32 \<Rightarrow> u32 \<Rightarrow> nat \<Rightarrow> mem" where
  "copy_bwd m d s 0 = m"
| "copy_bwd m d s (Suc n) = copy_bwd (m(d - 1 := m (s - 1))) (d - 1) (s - 1) n"

definition memmove :: "mem \<Rightarrow> u32 \<Rightarrow> u32 \<Rightarrow> u32 \<Rightarrow> mem" where
  "memmove m dst src n =
     (if src < dst \<and> src + n > dst
      then copy_bwd m (dst + n) (src + n) (unat n)
      else copy_fwd m dst src (unat n))"

definition memcpy :: "mem \<Rightarrow> u32 \<Rightarrow> u32 \<Rightarrow> u32 \<Rightarrow> mem" where
  "memcpy m dst src n = memmove m dst src n"

text \<open>\<open>memmove\<close> of \<open>ulib.c\<close>: \<open>n\<close> is a signed int, the copy always runs forwards.\<close>

definition ulib_memmove :: "mem \<Rightarrow> u32 \<Rightarrow> u32 \<Rightarrow> int \<Rightarrow> mem" where
  "ulib_memmove m vdst vsrc n = copy_fwd m vdst vsrc (nat n)"

definition ulib_memset :: "mem \<Rightarrow> u32 \<Rightarrow> u32 \<Rightarrow> u32 \<Rightarrow> mem" where
  "ulib_memset m dst c n = stosb m dst (ucast c) (unat n)"

section \<open>Comparing and copying strings\<close>

fun memcmp_from :: "view \<Rightarrow> view \<Rightarrow> nat \<Rightarrow> nat \<Rightarrow> int" where
  "memcmp_from s1 s2 i 0 = 0"
| "memcmp_from s1 s2 i (Suc n) =
     (if s1 i \<noteq> s2 i then uint (s1 i) - uint (s2 i) else memcmp_from s1 s2 (Suc i) n)"

definition memcmp :: "view \<Rightarrow> view \<Rightarrow> nat \<Rightarrow> int" where
  "memcmp v1 v2 n = memcmp_from v1 v2 0 n"

fun strncmp_from :: "view \<Rightarrow> view \<Rightarrow> nat \<Rightarrow> nat \<Rightarrow> int" where
  "strncmp_from p q i 0 = 0"
| "strncmp_from p q i (Suc n) =
     (if p i \<noteq> 0 \<and> p i = q i then strncmp_from p q (Suc i) n
      else uint (p i) - uint (q i))"

definition strncmp :: "view \<Rightarrow> view \<Rightarrow> nat \<Rightarrow> int" where
  "strncmp p q n = strncmp_from p q 0 n"

text \<open>The bytes \<open>strncpy\<close> stores at \<open>s[0], s[1], \<dots>\<close>: it copies up to and
  including the terminator, then pads with zeros.\<close>

fun strncpy_from :: "view \<Rightarrow> nat \<Rightarrow> nat \<Rightarrow> u8 list" where
  "strncpy_from t i 0 = []"
| "strncpy_from t i (Suc n) =
     (if t i \<noteq> 0 then t i # strncpy_from t (Suc i) n else 0 # replicate n 0)"

definition strncpy :: "view \<Rightarrow> int \<Rightarrow> u8 list" where
  "strncpy t n = strncpy_from t 0 (nat n)"

text \<open>The bytes \<open>safestrcpy\<close> stores: at most \<open>n - 1\<close> bytes of \<open>t\<close>, then a
  terminator. The argument counts the executions of \<open>--n > 0\<close> that succeed.\<close>

fun safestrcpy_from :: "view \<Rightarrow> nat \<Rightarrow> nat \<Rightarrow> u8 list" where
  "safestrcpy_from t i 0 = [0]"
| "safestrcpy_from t i (Suc n) =
     (if t i \<noteq> 0 then t i # safestrcpy_from t (Suc i) n else [0, 0])"

definition safestrcpy :: "view \<Rightarrow> int \<Rightarrow> u8 list" where
  "safestrcpy t n = (if n \<le> 0 then [] else safestrcpy_from t 0 (nat (n - 1)))"

text \<open>\<open>strlen\<close> has no bound: it does not return on a view without a zero byte.\<close>

partial_function (option) strlen_from :: "view \<Rightarrow> nat \<Rightarrow> nat option" where
  "strlen_from s n = (if s n \<noteq> 0 then strlen_from s (Suc n) else Some n)"

definition strlen :: "view \<Rightarrow> nat option" where
  "strlen s = strlen_from s 0"

partial_function (option) strcmp_from :: "view \<Rightarrow> view \<Rightarrow> nat \<Rightarrow> int option" where
  "strcmp_from p q i =
     (if p i \<noteq> 0 \<and> p i = q i then strcmp_from p q (Suc i)
      else Some (uint (p i) - uint (q i)))"

definition strcmp :: "view \<Rightarrow> view \<Rightarrow> int option" where
  "strcmp p q = strcmp_from p q 0"

partial_function (option) strcpy_from :: "view \<Rightarrow> nat \<Rightarrow> u8 list option" where
  "strcpy_from t i =
     (if t i \<noteq> 0 then Option.bind (strcpy_from t (Suc i)) (\<lambda>r. Some (t i # r)) else Some [0])"

definition strcpy :: "view \<Rightarrow> u8 list option" where
  "strcpy t = strcpy_from t 0"

text \<open>\<open>strchr\<close> returns the offset of the match, or \<open>Some None\<close> for the null pointer.\<close>

partial_function (option) strchr_from :: "view \<Rightarrow> u8 \<Rightarrow> nat \<Rightarrow> nat option option" where
  "strchr_from s c i =
     (if s i \<noteq> 0 then (if s i = c then Some (Some i) else strchr_from s c (Suc i))
      else Some None)"

definition strchr :: "view \<Rightarrow> u8 \<Rightarrow> nat option option" where
  "strchr s c = strchr_from s c 0"

text \<open>\<open>atoi\<close> computes in 32-bit \<open>int\<close>: \<open>n*10 + *s++ - '0'\<close> on words. A byte above
  127 is a negative \<open>char\<close> and fails the test \<open>'0' <= *s\<close>.\<close>

partial_function (option) atoi_from :: "view \<Rightarrow> nat \<Rightarrow> u32 \<Rightarrow> u32 option" where
  "atoi_from s i n =
     (if 48 \<le> s i \<and> s i \<le> 57 then atoi_from s (Suc i) (n * 10 + ucast (s i) - 48)
      else Some n)"

definition atoi :: "view \<Rightarrow> u32 option" where
  "atoi s = atoi_from s 0 0"

section \<open>Vocabulary of the specifications\<close>

definition aligned4 :: "u32 \<Rightarrow> bool" where
  "aligned4 a \<longleftrightarrow> a mod 4 = 0"

text \<open>\<open>cstr v i n\<close> is the C string that starts at offset \<open>i\<close>, cut off after
  \<open>n\<close> bytes: what a bounded string function sees of its argument.\<close>

fun cstr :: "view \<Rightarrow> nat \<Rightarrow> nat \<Rightarrow> u8 list" where
  "cstr v i 0 = []"
| "cstr v i (Suc n) = (if v i = 0 then [] else v i # cstr v (Suc i) n)"

section \<open>Lemmas\<close>

subsection \<open>Memory\<close>

lemma unat_u32_less: "unat (x :: u32) < 2 ^ 32"
  using unsigned_less [of x] by simp

lemma unat_diff_Suc:
  fixes x a :: u32
  assumes "n < 2 ^ 32"
  shows "unat (x - (a + 1)) < n \<longleftrightarrow> x \<noteq> a \<and> unat (x - a) < Suc n"
proof (cases "x = a")
  case True
  have "unat (- 1 :: u32) = 2 ^ 32 - 1" by (simp add: unsigned_minus_1_eq_mask mask_eq_exp_minus_1)
  with True assms show ?thesis by simp
next
  case False
  then have nz: "x - a \<noteq> 0" by simp
  have "unat (x - a - 1) = unat (x - a) - 1"
    by (rule unat_minus_one [OF nz])
  moreover have "unat (x - a) \<noteq> 0" using nz by (simp add: unat_eq_zero)
  ultimately show ?thesis using False by (simp add: diff_diff_eq) arith
qed

lemma stosb_region:
  "n \<le> 2 ^ 32 \<Longrightarrow> stosb m a c n = (\<lambda>x. if unat (x - a) < n then c else m x)"
proof (induction n arbitrary: m a)
  case 0
  then show ?case by simp
next
  case (Suc n)
  then have n: "n < 2 ^ 32" by simp
  have "stosb (m(a := c)) (a + 1) c n = (\<lambda>x. if unat (x - (a + 1)) < n then c else (m(a := c)) x)"
    using n by (intro Suc.IH) simp
  then show ?case by (simp add: fun_eq_iff unat_diff_Suc [OF n])
qed

lemma st32_as_stosb:
  assumes "ucast w = c" "ucast (drop_bit 8 w) = c" "ucast (drop_bit 16 w) = c"
    "ucast (drop_bit 24 w) = c"
  shows "st32 m a w = stosb m a c 4"
  using assms by (simp add: st32_def numeral_eq_Suc add.assoc)

lemma and_255: "(c :: u32) AND 0xFF = take_bit 8 c"
  by (simp add: take_bit_eq_mask mask_eq_exp_minus_1)

lemma byte_fill:
  fixes c :: u32
  defines "b \<equiv> take_bit 8 c"
  defines "w \<equiv> push_bit 24 b OR push_bit 16 b OR push_bit 8 b OR b"
  shows "ucast w = (ucast c :: u8)" "ucast (drop_bit 8 w) = (ucast c :: u8)"
    "ucast (drop_bit 16 w) = (ucast c :: u8)" "ucast (drop_bit 24 w) = (ucast c :: u8)"
  unfolding w_def b_def by (rule bit_word_eqI, auto simp: bit_simps)+

lemma ld32_st32_same [simp]: "ld32 (st32 m a w) a = w"
proof (rule bit_word_eqI)
  fix n
  assume "n < LENGTH(32)"
  then consider "n < 8" | "8 \<le> n" "n < 16" | "16 \<le> n" "n < 24" | "24 \<le> n" "n < 32"
    by fastforce
  then show "bit (ld32 (st32 m a w) a) n = bit w n"
    by cases (auto simp: ld32_def st32_def bit_simps)
qed

lemma aligned4_unat: "aligned4 a \<longleftrightarrow> unat a mod 4 = 0"
  by (simp add: aligned4_def word_eq_iff_unsigned unat_mod_distrib flip: unat_eq_zero)

lemma aligned4_add_div:
  assumes "aligned4 a" "i < 4"
  shows "unat (a + i) div 4 = unat a div 4"
proof -
  have i: "unat i < 4" using assms(2) by (simp add: word_less_nat_alt)
  have "4 dvd unat a" using assms(1) by (simp add: aligned4_unat dvd_eq_mod_eq_0)
  then obtain q where q: "unat a = 4 * q" by (rule dvdE)
  with unat_u32_less [of a] i have "unat a + unat i < 2 ^ 32" by simp
  then have "unat (a + i) = unat a + unat i" by (simp add: unat_word_ariths)
  with q i show ?thesis by simp
qed

lemma aligned4_offset_neq:
  assumes "aligned4 a" "aligned4 b" "a \<noteq> b" "i < 4" "j < 4"
  shows "a + i \<noteq> b + (j::u32)"
proof
  assume "a + i = b + j"
  with aligned4_add_div [OF assms(1,4)] aligned4_add_div [OF assms(2,5)]
  have "unat a div 4 = unat b div 4" by simp
  with assms(1,2) have "unat a = unat b"
    unfolding aligned4_unat by (metis div_mult_mod_eq)
  with assms(3) show False by (simp add: word_unat_eq_iff)
qed

lemma ld32_st32_other:
  assumes "aligned4 a" "aligned4 b" "a \<noteq> b"
  shows "ld32 (st32 m a w) b = ld32 m b"
proof -
  have "b + j \<noteq> a + i" if "i < 4" "j < 4" for i j
    using aligned4_offset_neq [OF assms that] by auto
  from this [of 0 0] this [of 1 0] this [of 2 0] this [of 3 0]
    this [of 0 1] this [of 1 1] this [of 2 1] this [of 3 1]
    this [of 0 2] this [of 1 2] this [of 2 2] this [of 3 2]
    this [of 0 3] this [of 1 3] this [of 2 3] this [of 3 3]
  show ?thesis by (simp add: ld32_def st32_def)
qed

lemma st32_outside: "3 < x - a \<Longrightarrow> st32 m a w x = m x"
  by (auto simp: st32_def)

lemma stosb_add: "stosb m a c (k + n) = stosb (stosb m a c k) (a + of_nat k) c n"
  by (induction k arbitrary: m a) (simp_all add: add.assoc)

lemma stosl_as_stosb:
  assumes "ucast w = c" "ucast (drop_bit 8 w) = c" "ucast (drop_bit 16 w) = c"
    "ucast (drop_bit 24 w) = c"
  shows "stosl m a w n = stosb m a c (4 * n)"
proof (induction n arbitrary: m a)
  case 0
  then show ?case by simp
next
  case (Suc n)
  have "stosb m a c (4 + 4 * n) = stosb (stosb m a c 4) (a + 4) c (4 * n)"
    by (simp only: stosb_add) simp
  with Suc.IH show ?case by (simp add: st32_as_stosb [OF assms])
qed

lemma memset_as_stosb: "memset m dst c n = stosb m dst (ucast c) (unat n)"
proof (cases "dst mod 4 = 0 \<and> n mod 4 = 0")
  case True
  then have "unat n mod 4 = 0" by (simp add: word_eq_iff_unsigned unat_mod_distrib flip: unat_eq_zero)
  then have "4 * unat (n div 4) = unat n"
    by (simp add: unat_div_distrib) presburger
  with True show ?thesis
    by (simp add: memset_def Let_def and_255 stosl_as_stosb [OF byte_fill])
next
  case False
  then show ?thesis by (auto simp: memset_def)
qed

lemma memset_region: "memset m dst c n = (\<lambda>x. if x - dst < n then ucast c else m x)"
  unfolding memset_as_stosb
  by (subst stosb_region) (use unat_u32_less [of n] in \<open>auto simp: word_less_nat_alt\<close>)

lemma copy_fwd_region:
  assumes "n \<le> 2 ^ 32" and "\<And>j. 0 < j \<Longrightarrow> j < n \<Longrightarrow> s + of_nat j \<noteq> d"
  shows "copy_fwd m d s n = (\<lambda>x. if unat (x - d) < n then m (s + (x - d)) else m x)"
  using assms
proof (induction n arbitrary: m d s)
  case 0
  then show ?case by simp
next
  case (Suc n)
  then have n: "n < 2 ^ 32" by simp
  have "s + 1 + of_nat j \<noteq> d + 1" if "0 < j" "j < n" for j
    using Suc.prems(2) [of j] that by (auto simp: algebra_simps)
  then have IH: "copy_fwd (m(d := m s)) (d + 1) (s + 1) n =
      (\<lambda>x. if unat (x - (d + 1)) < n then (m(d := m s)) (s + 1 + (x - (d + 1)))
            else (m(d := m s)) x)"
    using n by (intro Suc.IH) simp_all
  have src: "s + (x - d) \<noteq> d" if "x \<noteq> d" "unat (x - d) < Suc n" for x
    using Suc.prems(2) [of "unat (x - d)"] that by (simp add: unat_gt_0)
  show ?case
    using src by (auto simp: IH fun_eq_iff unat_diff_Suc [OF n])
qed

lemma copy_bwd_region:
  assumes "n \<le> 2 ^ 32" and "\<And>j k. j < k \<Longrightarrow> k < n \<Longrightarrow> s + of_nat j \<noteq> d + of_nat k"
  shows "copy_bwd m (d + of_nat n) (s + of_nat n) n =
    (\<lambda>x. if unat (x - d) < n then m (s + (x - d)) else m x)"
  using assms
proof (induction n arbitrary: m)
  case 0
  then show ?case by simp
next
  case (Suc n)
  let ?m = "m(d + of_nat n := m (s + of_nat n))"
  have IH: "copy_bwd ?m (d + of_nat n) (s + of_nat n) n =
      (\<lambda>x. if unat (x - d) < n then ?m (s + (x - d)) else ?m x)"
    using Suc.prems by (intro Suc.IH) auto
  have src: "s + (x - d) \<noteq> d + of_nat n" if "unat (x - d) < n" for x
    using Suc.prems(2) [of "unat (x - d)" n] that by simp
  have eq: "unat (x - d) = n \<longleftrightarrow> x = d + of_nat n" for x
  proof
    assume "unat (x - d) = n"
    then have "x - d = of_nat n" by (metis of_nat_unat ucast_id)
    then show "x = d + of_nat n" by (simp add: algebra_simps)
  next
    assume "x = d + of_nat n"
    then show "unat (x - d) = n" using Suc.prems(1) by (simp add: unat_of_nat)
  qed
  have "copy_bwd m (d + of_nat (Suc n)) (s + of_nat (Suc n)) (Suc n) =
      copy_bwd ?m (d + of_nat n) (s + of_nat n) n"
    by (simp add: algebra_simps)
  also have "\<dots> = (\<lambda>x. if unat (x - d) < Suc n then m (s + (x - d)) else m x)"
    using src eq by (auto simp: IH fun_eq_iff less_Suc_eq)
  finally show ?case .
qed

lemma memmove_region:
  assumes src: "unat src + unat n < 2 ^ 32" and dst: "unat dst + unat n \<le> 2 ^ 32"
  shows "memmove m dst src n = (\<lambda>x. if x - dst < n then m (src + (x - dst)) else m x)"
proof (cases "src < dst \<and> src + n > dst")
  case True
  have "src + of_nat j \<noteq> dst + of_nat k" if "j < k" "k < unat n" for j k
  proof
    assume "src + of_nat j = dst + of_nat k"
    then have "unat (src + of_nat j) = unat (dst + of_nat k)" by simp
    moreover have "unat (src + of_nat j) = unat src + j"
      using src that by (simp add: unat_word_ariths unat_of_nat)
    moreover have "unat (dst + of_nat k) = unat dst + k"
      using dst that by (simp add: unat_word_ariths unat_of_nat)
    ultimately show False using True that by (simp add: word_less_nat_alt)
  qed
  then have "copy_bwd m (dst + of_nat (unat n)) (src + of_nat (unat n)) (unat n) =
      (\<lambda>x. if unat (x - dst) < unat n then m (src + (x - dst)) else m x)"
    using unat_u32_less [of n] by (intro copy_bwd_region) simp_all
  with True show ?thesis by (simp add: memmove_def word_less_nat_alt)
next
  case False
  have "src + of_nat j \<noteq> dst" if "0 < j" "j < unat n" for j
  proof
    assume eq: "src + of_nat j = dst"
    have "unat (src + of_nat j) = unat src + j"
      using src that by (simp add: unat_word_ariths unat_of_nat)
    moreover have "unat (src + n) = unat src + unat n"
      using src by (simp add: unat_word_ariths)
    ultimately have "src < dst \<and> src + n > dst"
      using eq that by (auto simp: word_less_nat_alt)
    with False show False by simp
  qed
  then have "copy_fwd m dst src (unat n) =
      (\<lambda>x. if unat (x - dst) < unat n then m (src + (x - dst)) else m x)"
    using unat_u32_less [of n] by (intro copy_fwd_region) simp_all
  with False show ?thesis by (auto simp: memmove_def word_less_nat_alt)
qed

subsection \<open>Strings\<close>

lemma strncpy_from_length [simp]: "length (strncpy_from t i n) = n"
  by (induction t i n rule: strncpy_from.induct) auto

lemma cstr_nonzero: "0 \<notin> set (cstr v i n)"
  by (induction v i n rule: cstr.induct) auto

lemma cstr_length: "length (cstr v i n) \<le> n"
  by (induction v i n rule: cstr.induct) auto

lemma strncmp_from_0_iff: "strncmp_from p q i n = 0 \<longleftrightarrow> cstr p i n = cstr q i n"
proof (induction p q i n rule: strncmp_from.induct)
  case (1 p q i)
  then show ?case by simp
next
  case (2 p q i n)
  then show ?case by (auto simp: word_uint_eq_iff)
qed

lemma lview_Cons_Suc [simp]: "lview (x # xs) (Suc i) = lview xs i"
  by (simp add: lview_def)

lemma lview_Cons_0 [simp]: "lview (x # xs) 0 = x"
  by (simp add: lview_def)

lemma cstr_lview_Cons: "cstr (lview (x # xs)) (Suc i) n = cstr (lview xs) i n"
  by (induction n arbitrary: i) auto

lemma strncpy_from_cstr: "cstr (lview (strncpy_from t i n)) 0 n = cstr t i n"
  by (induction t i n rule: strncpy_from.induct) (auto simp: cstr_lview_Cons)

lemma safestrcpy_from_cstr:
  "safestrcpy_from t i n = cstr t i n @ (if length (cstr t i n) < n then [0, 0] else [0])"
  by (induction t i n rule: safestrcpy_from.induct) auto

lemma strlen_from_Some:
  "strlen_from s i = Some n \<longleftrightarrow> i \<le> n \<and> s n = 0 \<and> (\<forall>j. i \<le> j \<and> j < n \<longrightarrow> s j \<noteq> 0)"
  (is "?L \<longleftrightarrow> ?R")
proof
  assume ?L
  then show ?R
  proof (rule strlen_from.raw_induct [where P = "\<lambda>s i n. i \<le> n \<and> s n = 0 \<and> (\<forall>j. i \<le> j \<and> j < n \<longrightarrow> s j \<noteq> 0)", rotated])
    fix f s i n
    assume IH: "\<And>s i n. f s i = Some n \<Longrightarrow> i \<le> n \<and> s n = 0 \<and> (\<forall>j. i \<le> j \<and> j < n \<longrightarrow> s j \<noteq> 0)"
      and eq: "(if s i \<noteq> 0 then f s (Suc i) else Some i) = Some n"
    show "i \<le> n \<and> s n = 0 \<and> (\<forall>j. i \<le> j \<and> j < n \<longrightarrow> s j \<noteq> 0)"
    proof (cases "s i = 0")
      case True
      with eq show ?thesis by auto
    next
      case False
      with eq IH [of s "Suc i" n] have "Suc i \<le> n" "s n = 0" "\<forall>j. Suc i \<le> j \<and> j < n \<longrightarrow> s j \<noteq> 0"
        by auto
      with False show ?thesis by (metis Suc_leD Suc_leI le_neq_implies_less)
    qed
  qed
next
  assume ?R
  then show ?L
  proof (induction "n - i" arbitrary: i)
    case 0
    then have "i = n" by simp
    with "0.prems" show ?case by (subst strlen_from.simps) simp
  next
    case (Suc k)
    then have "i < n" by simp
    moreover from this Suc.prems have "s i \<noteq> 0" by auto
    moreover have "strlen_from s (Suc i) = Some n"
      using Suc.prems \<open>i < n\<close> Suc.hyps(2) by (intro Suc.hyps(1)) auto
    ultimately show ?case by (subst strlen_from.simps) simp
  qed
qed


section \<open>Properties\<close>

text \<open>C28 (string.c:31): \<open>memmove\<close> copies \<open>n\<close> bytes as if through a temporary buffer,
  whatever the overlap of the two regions: afterwards byte \<open>i\<close> of the destination
  is byte \<open>i\<close> of the source as it was before, and no other byte has changed. The
  regions must not wrap around the address space; the end of the source has to
  stay below \<open>2^32\<close>, since the test \<open>s + n > d\<close> is made on wrapped pointers.
\<close>

theorem memmove_copies:
  assumes "unat src + unat n < 2 ^ 32" and "unat dst + unat n \<le> 2 ^ 32"
  shows "memmove m dst src n = (\<lambda>x. if x - dst < n then m (src + (x - dst)) else m x)"
  using assms by (rule memmove_region)

theorem memmove_copies_witness:
  "memmove ucast 1001 1000 4 = (\<lambda>x. if x - 1001 < 4 then ucast (1000 + (x - 1001)) else ucast x)
   \<and> memmove ucast 1001 1000 4 1004 = 0xEB"
proof -
  have "memmove ucast 1001 1000 4 = (\<lambda>x. if x - 1001 < 4 then ucast (1000 + (x - 1001)) else ucast x)"
    by (rule memmove_copies) simp_all
  then show ?thesis by simp
qed

text \<open>C29 (string.c:68, fs.c:517): Storing a name with \<open>strncpy\<close> and comparing it with
  \<open>strncmp\<close> under the same bound agree, and the comparison finds two names equal
  exactly when their first \<open>n\<close> characters (up to the terminator) are the same:
  the round trip on which directory entries rely.
\<close>

theorem strncpy_strncmp:
  "length (strncpy t (int n)) = n
   \<and> (strncmp (lview (strncpy t (int n))) u n = 0 \<longleftrightarrow> cstr t 0 n = cstr u 0 n)"
  by (simp add: strncpy_def strncmp_def strncmp_from_0_iff strncpy_from_cstr)

text \<open>C30 (string.c:82): \<open>safestrcpy\<close> never writes more than the \<open>n\<close> bytes it is
  given, always leaves a NUL-terminated string, and that string is the longest
  prefix of the source string that fits in \<open>n - 1\<close> bytes.
\<close>

theorem safestrcpy_terminates_string:
  assumes "0 < n"
  shows "length (safestrcpy t n) \<le> nat n \<and> last (safestrcpy t n) = 0
    \<and> takeWhile (\<lambda>c. c \<noteq> 0) (safestrcpy t n) = cstr t 0 (nat (n - 1))"
proof -
  let ?c = "cstr t 0 (nat (n - 1))"
  have eq: "safestrcpy t n = ?c @ (if length ?c < nat (n - 1) then [0, 0] else [0])"
    using assms by (simp add: safestrcpy_def safestrcpy_from_cstr)
  have len: "length ?c \<le> nat (n - 1)" by (rule cstr_length)
  have "takeWhile (\<lambda>c. c \<noteq> 0) (?c @ 0 # zs) = ?c" for zs
    using cstr_nonzero [of t 0 "nat (n - 1)"] by (subst takeWhile_append2) auto
  with eq have "takeWhile (\<lambda>c. c \<noteq> 0) (safestrcpy t n) = ?c" by simp
  moreover have "length (safestrcpy t n) \<le> nat n" using eq len assms by auto
  moreover have "last (safestrcpy t n) = 0" using eq by simp
  ultimately show ?thesis by blast
qed

theorem safestrcpy_terminates_string_witness:
  "safestrcpy (lview [105, 110, 105, 116]) 3 = [105, 110, 0]
   \<and> last (safestrcpy (lview [105, 110, 105, 116]) 3) = 0"
proof -
  have "safestrcpy (lview [105, 110, 105, 116]) 3 = [105, 110, 0]" by code_simp
  with safestrcpy_terminates_string [of 3 "lview [105, 110, 105, 116]"] show ?thesis by simp
qed

end
