(* ===== verification/Kernel_State.thy ===== *)
theory Kernel_State
  imports C_Strings
begin

text \<open>
  The state of the kernel: one record field per global variable of the C code,
  with the structures of \<open>proc.h\<close>, \<open>x86.h\<close>, \<open>file.h\<close>, \<open>fs.h\<close>, \<open>buf.h\<close>, \<open>log.c\<close>,
  \<open>pipe.c\<close> and \<open>console.c\<close> as records, and the two lock operations every
  component uses.

  A pointer into a static table (\<open>struct proc *\<close>, \<open>struct file *\<close>,
  \<open>struct inode *\<close>, \<open>struct buf *\<close>) is the index of the entry, and \<open>None\<close> is the
  null pointer. A pointer to memory from \<open>kalloc\<close> is its 32-bit address, and 0
  is the null pointer. The trap frame and the saved context of a process live
  on its kernel stack in the C code; here they are records inside the process.
  A C \<open>int\<close> whose value the code bounds (reference counts, flags, priorities) is
  an \<open>int\<close>; values that can wrap around are 32-bit words.
\<close>

section \<open>Limits (param.h, fs.h, mmu.h, memlayout.h)\<close>

abbreviation (input) NPROC :: nat where "NPROC \<equiv> 64"
abbreviation (input) NOFILE :: nat where "NOFILE \<equiv> 16"
abbreviation (input) NFILE :: nat where "NFILE \<equiv> 100"
abbreviation (input) NINODE :: nat where "NINODE \<equiv> 50"
abbreviation (input) NDEV :: nat where "NDEV \<equiv> 10"
abbreviation (input) ROOTDEV :: u32 where "ROOTDEV \<equiv> 1"
abbreviation (input) MAXARG :: nat where "MAXARG \<equiv> 32"
abbreviation (input) MAXOPBLOCKS :: nat where "MAXOPBLOCKS \<equiv> 10"
abbreviation (input) LOGSIZE :: nat where "LOGSIZE \<equiv> 30"
abbreviation (input) NBUF :: nat where "NBUF \<equiv> 30"
abbreviation (input) FSSIZE :: u32 where "FSSIZE \<equiv> 1000"
abbreviation (input) BSIZE :: nat where "BSIZE \<equiv> 512"
abbreviation (input) PIPESIZE :: nat where "PIPESIZE \<equiv> 512"
abbreviation (input) INPUT_BUF :: nat where "INPUT_BUF \<equiv> 128"
abbreviation (input) PGSIZE :: u32 where "PGSIZE \<equiv> 4096"
abbreviation (input) KSTACKSIZE :: u32 where "KSTACKSIZE \<equiv> 4096"
abbreviation (input) KERNBASE :: u32 where "KERNBASE \<equiv> 0x80000000"
abbreviation (input) EXTMEM :: u32 where "EXTMEM \<equiv> 0x100000"
abbreviation (input) PHYSTOP :: u32 where "PHYSTOP \<equiv> 0xE000000"
abbreviation (input) DEVSPACE :: u32 where "DEVSPACE \<equiv> 0xFE000000"
abbreviation (input) KERNLINK :: u32 where "KERNLINK \<equiv> 0x80100000"

definition V2P :: "u32 \<Rightarrow> u32" where
  "V2P a = a - KERNBASE"

definition P2V :: "u32 \<Rightarrow> u32" where
  "P2V a = a + KERNBASE"

section \<open>Locks and sleep channels\<close>

text \<open>The sleep-locks of the kernel: one in each buffer and one in each cached inode.\<close>

datatype slockid = BufSleep nat | InodeSleep nat

text \<open>The spin-locks of the kernel.\<close>

datatype lockid =
    PtableLock | TicksLock | LogLock | BcacheLock | IcacheLock | FtableLock | KmemLock
  | ConsLock | IdeLock | PipeLock u32 | SleepLk slockid

text \<open>The addresses processes sleep on.\<close>

datatype chan =
    ChanProc nat | ChanTicks | ChanLog | ChanPipeRead u32 | ChanPipeWrite u32
  | ChanSleep slockid | ChanBuf nat | ChanInput

record sleeplock =
  sl_locked :: bool
  sl_pid :: u32

section \<open>Processes\<close>

datatype procstate = UNUSED | EMBRYO | SLEEPING | RUNNABLE | RUNNING | ZOMBIE

record kcontext =
  cx_edi :: u32
  cx_esi :: u32
  cx_ebx :: u32
  cx_ebp :: u32
  cx_eip :: u32

record trapframe =
  tf_edi :: u32
  tf_esi :: u32
  tf_ebp :: u32
  tf_oesp :: u32
  tf_ebx :: u32
  tf_edx :: u32
  tf_ecx :: u32
  tf_eax :: u32
  tf_gs :: u16
  tf_fs :: u16
  tf_es :: u16
  tf_ds :: u16
  tf_trapno :: u32
  tf_err :: u32
  tf_eip :: u32
  tf_cs :: u16
  tf_eflags :: u32
  tf_esp :: u32
  tf_ss :: u16

record proc =
  p_sz :: u32
  p_pgdir :: u32
  p_kstack :: u32
  p_state :: procstate
  p_pid :: u32
  p_parent :: "nat option"
  p_tf :: trapframe
  p_context :: kcontext
  p_chan :: "chan option"
  p_killed :: bool
  p_ofile :: "nat option list"
  p_cwd :: "nat option"
  p_name :: "u8 list"
  p_priority :: int
  p_counter :: int

section \<open>Files, inodes, buffers, the log\<close>

datatype fdtype = FD_NONE | FD_PIPE | FD_INODE

record kfile =
  f_type :: fdtype
  f_ref :: int
  f_readable :: bool
  f_writable :: bool
  f_pipe :: u32
  f_ip :: "nat option"
  f_off :: u32

record pipe =
  pi_data :: "u8 list"
  pi_nread :: u32
  pi_nwrite :: u32
  pi_readopen :: bool
  pi_writeopen :: bool

record superblock =
  sb_size :: u32
  sb_nblocks :: u32
  sb_ninodes :: u32
  sb_nlog :: u32
  sb_logstart :: u32
  sb_inodestart :: u32
  sb_bmapstart :: u32

record inode =
  ip_dev :: u32
  ip_inum :: u32
  ip_ref :: int
  ip_lock :: sleeplock
  ip_valid :: bool
  ip_type :: u16
  ip_major :: u16
  ip_minor :: u16
  ip_nlink :: u16
  ip_size :: u32
  ip_addrs :: "u32 list"

record buf =
  b_flags :: u32
  b_dev :: u32
  b_blockno :: u32
  b_lock :: sleeplock
  b_refcnt :: u32
  b_prev :: nat
  b_next :: nat
  b_qnext :: "nat option"
  b_data :: "u8 list"

record logheader =
  lh_n :: int
  lh_block :: "u32 list"

record log =
  lg_start :: u32
  lg_size :: u32
  lg_outstanding :: int
  lg_committing :: bool
  lg_dev :: u32
  lg_lh :: logheader

record input =
  in_buf :: "u8 list"
  in_r :: u32
  in_w :: u32
  in_e :: u32

text \<open>A command to the IDE disk: the values the driver sends to the registers of the
  controller and, for a write, the data.\<close>

record idecmd =
  ic_nsect :: u8
  ic_lba0 :: u8
  ic_lba1 :: u8
  ic_lba2 :: u8
  ic_drive :: u8
  ic_cmd :: u8
  ic_data :: "u8 list"

section \<open>The kernel state\<close>

text \<open>
  \<open>k_held\<close> lists the spin-locks the running processor holds, innermost first.
  The theory of \<open>spinlock.c\<close> models the lock words, interrupt flags and nesting
  counts of all processors; here a critical section is atomic and only the
  discipline of the running processor is visible: it must not acquire a lock
  it holds nor release one it does not hold. \<open>k_end\<close>, \<open>k_kdata\<close> and \<open>k_forkret\<close> are
  the linker symbols \<open>end\<close>, \<open>data\<close> and \<open>forkret\<close>; \<open>k_first\<close> is the static variable of \<open>forkret\<close>. \<open>k_disk\<close> is the content of the disk and \<open>k_dtrace\<close>
  the sequence of block writes it has received. \<open>k_cons\<close> is the sequence of
  characters sent to the console devices. \<open>k_shift\<close> is the static variable of \<open>kbdgetc\<close>;
  \<open>k_idequeue\<close>, \<open>k_havedisk1\<close> and the commands sent to the disk, \<open>k_idecmds\<close>, belong to
  \<open>ide.c\<close>. \<open>k_memdisk\<close> says which of the two disk drivers the kernel is linked with: \<open>memide.o\<close>
  (\<open>kernelmemfs\<close>) or \<open>ide.o\<close> (\<open>kernel\<close>).
\<close>

record kernel =
  k_held :: "lockid list"
  k_cpu :: nat
  k_curproc :: "nat option"
  k_ptable :: "proc list"
  k_initproc :: "nat option"
  k_nextpid :: u32
  k_mem :: mem
  k_end :: u32
  k_kdata :: u32
  k_forkret :: u32
  k_first :: bool
  k_freelist :: u32
  k_use_lock :: bool
  k_kpgdir :: u32
  k_cr3 :: u32
  k_esp0 :: u32
  k_ticks :: u32
  k_syscount :: "u32 list"
  k_v_toggle :: int
  k_cons :: "u8 list"
  k_cons_locking :: bool
  k_input :: input
  k_ftable :: "kfile list"
  k_pipes :: "u32 \<Rightarrow> pipe"
  k_sb :: superblock
  k_icache :: "inode list"
  k_log :: log
  k_bcache :: "buf list"
  k_disk :: "u32 \<Rightarrow> u8 list"
  k_dtrace :: "(u32 \<times> u8 list) list"
  k_disksize :: u32
  k_devsw_console :: bool
  k_shift :: u32
  k_idequeue :: "nat option"
  k_havedisk1 :: bool
  k_idecmds :: "idecmd list"
  k_memdisk :: bool

type_synonym 'a K = "(kernel, 'a) prog"

section \<open>Spin-locks and the current process\<close>

definition acquire :: "lockid \<Rightarrow> unit K" where
  "acquire lk = (\<lambda>s. if lk \<in> set (k_held s) then Panic ''acquire''
     else Ok () (s\<lparr>k_held := lk # k_held s\<rparr>))"

definition release :: "lockid \<Rightarrow> unit K" where
  "release lk = (\<lambda>s. if lk \<notin> set (k_held s) then Panic ''release''
     else Ok () (s\<lparr>k_held := remove1 lk (k_held s)\<rparr>))"

definition myproc :: "nat option K" where
  "myproc = kget k_curproc"

text \<open>\<open>myproc()\<close> where the code dereferences the result at once: a null pointer
  is a page fault in the kernel, which \<open>trap\<close> turns into a panic.\<close>

definition curproc :: "nat K" where
  "curproc = kbind myproc (\<lambda>p. case p of None \<Rightarrow> kpanic ''trap'' | Some i \<Rightarrow> kret i)"

definition get_proc :: "nat \<Rightarrow> proc K" where
  "get_proc i = kget (\<lambda>s. k_ptable s ! i)"

definition upd_proc :: "nat \<Rightarrow> (proc \<Rightarrow> proc) \<Rightarrow> unit K" where
  "upd_proc i f = kmod (\<lambda>s. s\<lparr>k_ptable := (k_ptable s)[i := f (k_ptable s ! i)]\<rparr>)"

section \<open>The zero-initialised state\<close>

text \<open>The values of the C globals before any kernel code has run.\<close>

definition sleeplock0 :: sleeplock where
  "sleeplock0 = \<lparr>sl_locked = False, sl_pid = 0\<rparr>"

definition context0 :: kcontext where
  "context0 = \<lparr>cx_edi = 0, cx_esi = 0, cx_ebx = 0, cx_ebp = 0, cx_eip = 0\<rparr>"

definition trapframe0 :: trapframe where
  "trapframe0 = \<lparr>tf_edi = 0, tf_esi = 0, tf_ebp = 0, tf_oesp = 0, tf_ebx = 0, tf_edx = 0,
     tf_ecx = 0, tf_eax = 0, tf_gs = 0, tf_fs = 0, tf_es = 0, tf_ds = 0, tf_trapno = 0,
     tf_err = 0, tf_eip = 0, tf_cs = 0, tf_eflags = 0, tf_esp = 0, tf_ss = 0\<rparr>"

definition proc0 :: proc where
  "proc0 = \<lparr>p_sz = 0, p_pgdir = 0, p_kstack = 0, p_state = UNUSED, p_pid = 0,
     p_parent = None, p_tf = trapframe0, p_context = context0, p_chan = None,
     p_killed = False, p_ofile = replicate NOFILE None, p_cwd = None,
     p_name = replicate 16 0, p_priority = 0, p_counter = 0\<rparr>"

definition file0 :: kfile where
  "file0 = \<lparr>f_type = FD_NONE, f_ref = 0, f_readable = False, f_writable = False,
     f_pipe = 0, f_ip = None, f_off = 0\<rparr>"

definition pipe0 :: pipe where
  "pipe0 = \<lparr>pi_data = replicate PIPESIZE 0, pi_nread = 0, pi_nwrite = 0,
     pi_readopen = False, pi_writeopen = False\<rparr>"

definition inode0 :: inode where
  "inode0 = \<lparr>ip_dev = 0, ip_inum = 0, ip_ref = 0, ip_lock = sleeplock0, ip_valid = False,
     ip_type = 0, ip_major = 0, ip_minor = 0, ip_nlink = 0, ip_size = 0,
     ip_addrs = replicate 13 0\<rparr>"

definition buf0 :: buf where
  "buf0 = \<lparr>b_flags = 0, b_dev = 0, b_blockno = 0, b_lock = sleeplock0, b_refcnt = 0,
     b_prev = 0, b_next = 0, b_qnext = None, b_data = replicate BSIZE 0\<rparr>"

definition log0 :: log where
  "log0 = \<lparr>lg_start = 0, lg_size = 0, lg_outstanding = 0, lg_committing = False,
     lg_dev = 0, lg_lh = \<lparr>lh_n = 0, lh_block = replicate LOGSIZE 0\<rparr>\<rparr>"

definition kernel0 :: "mem \<Rightarrow> u32 \<Rightarrow> u32 \<Rightarrow> (u32 \<Rightarrow> u8 list) \<Rightarrow> kernel" where
  "kernel0 mem0 end0 data0 disk0 = \<lparr>k_held = [], k_cpu = 0, k_curproc = None,
     k_ptable = replicate NPROC proc0, k_initproc = None, k_nextpid = 1,
     k_mem = mem0, k_end = end0, k_kdata = data0,
     k_forkret = KERNLINK, k_first = True, k_freelist = 0, k_use_lock = False,
     k_kpgdir = 0, k_cr3 = 0, k_esp0 = 0, k_ticks = 0, k_syscount = replicate 26 0,
     k_v_toggle = 0, k_cons = [], k_cons_locking = False,
     k_input = \<lparr>in_buf = replicate INPUT_BUF 0, in_r = 0, in_w = 0, in_e = 0\<rparr>,
     k_ftable = replicate NFILE file0, k_pipes = (\<lambda>_. pipe0),
     k_sb = \<lparr>sb_size = 0, sb_nblocks = 0, sb_ninodes = 0, sb_nlog = 0, sb_logstart = 0,
             sb_inodestart = 0, sb_bmapstart = 0\<rparr>,
     k_icache = replicate NINODE inode0, k_log = log0,
     k_bcache = replicate (Suc NBUF) buf0, k_disk = disk0, k_dtrace = [],
     k_disksize = FSSIZE, k_devsw_console = False,
     k_shift = 0, k_idequeue = None, k_havedisk1 = False, k_idecmds = [],
     k_memdisk = True\<rparr>"

section \<open>Lemmas\<close>

lemma acquire_run [krun]:
  "acquire lk s = (if lk \<in> set (k_held s) then Panic ''acquire''
     else Ok () (s\<lparr>k_held := lk # k_held s\<rparr>))"
  by (simp add: acquire_def)

lemma release_run [krun]:
  "release lk s = (if lk \<notin> set (k_held s) then Panic ''release''
     else Ok () (s\<lparr>k_held := remove1 lk (k_held s)\<rparr>))"
  by (simp add: release_def)

lemma myproc_run [krun]: "myproc s = Ok (k_curproc s) s"
  by (simp add: myproc_def krun)

lemma curproc_run [krun]:
  "curproc s = (case k_curproc s of None \<Rightarrow> Panic ''trap'' | Some i \<Rightarrow> Ok i s)"
  by (simp add: curproc_def krun split: option.splits)

lemma get_proc_run [krun]: "get_proc i s = Ok (k_ptable s ! i) s"
  by (simp add: get_proc_def krun)

lemma upd_proc_run [krun]:
  "upd_proc i f s = Ok () (s\<lparr>k_ptable := (k_ptable s)[i := f (k_ptable s ! i)]\<rparr>)"
  by (simp add: upd_proc_def krun)

text \<open>A projection of the state that ignores the lock list and the process table
  is not changed by the operations of this theory.\<close>

lemma keeps_acquire:
  "(\<And>s h. P s \<Longrightarrow> P (s\<lparr>k_held := h\<rparr>)) \<Longrightarrow> keeps P (acquire lk)"
  by (rule keepsI) (auto simp: krun split: if_splits)

lemma keeps_release:
  "(\<And>s h. P s \<Longrightarrow> P (s\<lparr>k_held := h\<rparr>)) \<Longrightarrow> keeps P (release lk)"
  by (rule keepsI) (auto simp: krun split: if_splits)

lemma keeps_myproc [keep_intros]: "keeps P myproc"
  by (simp add: myproc_def keep_intros)

lemma keeps_curproc [keep_intros]: "keeps P curproc"
  unfolding curproc_def by (intro keep_intros)

lemma keeps_get_proc [keep_intros]: "keeps P (get_proc i)"
  by (simp add: get_proc_def keep_intros)

lemma keeps_upd_proc:
  "(\<And>s. P s \<Longrightarrow> P (s\<lparr>k_ptable := (k_ptable s)[i := f (k_ptable s ! i)]\<rparr>)) \<Longrightarrow>
     keeps P (upd_proc i f)"
  by (simp add: upd_proc_def keeps_kmod)

lemma length_ptable0 [simp]: "length (k_ptable (kernel0 m e d dk)) = NPROC"
  by (simp add: kernel0_def)

end
