(* ===== verification/Cprintf.thy ===== *)
theory Cprintf
  imports Kernel_State
begin

text \<open>
  Formatted output of the kernel (\<open>printint\<close>, \<open>cprintf\<close> and \<open>panic\<close> of
  \<open>console.c\<close>). A format string is the list of its bytes before the terminator;
  the variable arguments are a list of values, strings already read out of
  memory (\<open>None\<close> for a null pointer). What is printed is appended to the
  characters sent to the console.
\<close>

definition bytes :: "string \<Rightarrow> u8 list" where
  "bytes = map of_char"

definition kdigits :: "u8 list" where
  "kdigits = bytes ''0123456789abcdef''"

text \<open>The digits of \<open>x\<close>, least significant first: the body of the \<open>do\<close> loop runs
  before its test.\<close>

function printint_digits :: "u8 list \<Rightarrow> nat \<Rightarrow> nat \<Rightarrow> u8 list" where
  "printint_digits ds base x =
     ds ! (x mod base) # (if 2 \<le> base \<and> x div base \<noteq> 0 then printint_digits ds base (x div base) else [])"
  by pat_completeness auto
termination
  by (relation "measure (\<lambda>(ds, base, x). x)") (auto intro!: div_less_dividend intro: gr0I)

declare printint_digits.simps [simp del]

definition printint :: "u32 \<Rightarrow> nat \<Rightarrow> bool \<Rightarrow> u8 list" where
  "printint xx base sign =
     (let neg = (sign \<and> xx <s 0);
          x = (if neg then - xx else xx);
          buf = printint_digits kdigits base (unat x) @ (if neg then bytes ''-'' else [])
      in rev buf)"

datatype fmtarg = ArgInt u32 | ArgStr "u8 list option"

text \<open>\<open>None\<close>: the arguments do not fit the format, which is undefined in C.\<close>

fun cprintf_out :: "u8 list \<Rightarrow> fmtarg list \<Rightarrow> u8 list option" where
  "cprintf_out [] args = Some []"
| "cprintf_out (c # cs) args =
     (if c \<noteq> 37 then map_option ((#) c) (cprintf_out cs args)
      else case cs of
        [] \<Rightarrow> Some []
      | f # fs \<Rightarrow>
        (if f = 100 then
           (case args of ArgInt n # as \<Rightarrow>
              map_option ((@) (printint n 10 True)) (cprintf_out fs as) | _ \<Rightarrow> None)
         else if f = 120 \<or> f = 112 then
           (case args of ArgInt n # as \<Rightarrow>
              map_option ((@) (printint n 16 False)) (cprintf_out fs as) | _ \<Rightarrow> None)
         else if f = 115 then
           (case args of ArgStr t # as \<Rightarrow>
              map_option ((@) (case t of None \<Rightarrow> bytes ''(null)'' | Some x \<Rightarrow> x)) (cprintf_out fs as)
            | _ \<Rightarrow> None)
         else if f = 37 then map_option ((#) 37) (cprintf_out fs args)
         else map_option (\<lambda>r. 37 # f # r) (cprintf_out fs args)))"

definition cprintf :: "string \<Rightarrow> fmtarg list \<Rightarrow> unit K" where
  "cprintf fmt args =
     kbind (kget k_cons_locking) (\<lambda>locking.
     kseq (kwhen locking (acquire ConsLock)) (
     kseq (case cprintf_out (bytes fmt) args of
             None \<Rightarrow> kpanic ''cprintf arguments''
           | Some out \<Rightarrow> kmod (\<lambda>s. s\<lparr>k_cons := k_cons s @ out\<rparr>)) (
     kwhen locking (release ConsLock))))"

section \<open>Lemmas\<close>

lemma held_same [simp]: "s\<lparr>k_held := k_held s\<rparr> = s"
  by simp

lemma cprintf_run [krun]:
  "cprintf fmt args s =
     (if k_cons_locking s \<and> ConsLock \<in> set (k_held s) then Panic ''acquire''
      else case cprintf_out (bytes fmt) args of
        None \<Rightarrow> Panic ''cprintf arguments''
      | Some out \<Rightarrow> Ok () (s\<lparr>k_cons := k_cons s @ out\<rparr>))"
  by (simp add: cprintf_def krun split: option.splits)

lemma keeps_cprintf:
  assumes "\<And>s h. P s \<Longrightarrow> P (s\<lparr>k_held := h\<rparr>)" and "\<And>s c. P s \<Longrightarrow> P (s\<lparr>k_cons := c\<rparr>)"
  shows "keeps P (cprintf fmt args)"
  by (rule keepsI) (auto simp: krun assms split: if_splits option.splits)

lemma printint_digits_length:
  assumes "2 \<le> base" and "x < base ^ k" and "0 < k"
  shows "length (printint_digits ds base x) \<le> k"
  using assms
proof (induction ds base x arbitrary: k rule: printint_digits.induct)
  case (1 ds base x)
  show ?case
  proof (cases "x div base = 0")
    case True
    with "1.prems"(3) show ?thesis by (subst printint_digits.simps) simp
  next
    case False
    obtain j where k: "k = Suc j" using "1.prems"(3) by (cases k) auto
    have "x div base < base ^ j"
      using "1.prems" k by (simp add: less_mult_imp_div_less mult.commute)
    moreover have "0 < j" using calculation False by (cases j) auto
    ultimately have "length (printint_digits ds base (x div base)) \<le> j"
      using "1.IH" "1.prems"(1) False by simp
    with False "1.prems"(1) k show ?thesis by (subst printint_digits.simps) simp
  qed
qed

text \<open>\<open>char buf[16]\<close> of \<open>printint\<close> never overflows for the two bases the kernel uses.\<close>

lemma printint_buffer:
  assumes "base = 10 \<or> base = 16"
  shows "length (printint xx base sign) \<le> 16"
proof -
  have len: "length (printint_digits kdigits base (unat x)) \<le> 10" for x :: u32
  proof -
    have "unat x < 2 ^ 32" by (rule unat_u32_less)
    then have "unat x < base ^ 10" using assms by auto
    with assms show ?thesis by (intro printint_digits_length) auto
  qed
  from len [of xx] len [of "- xx"] show ?thesis
    by (auto simp: printint_def Let_def bytes_def)
qed

end
