(* ===== verification/Kalloc.thy ===== *)
theory Kalloc
  imports Cprintf
begin

text \<open>
  The physical page allocator (\<open>kalloc.c\<close>). The free list is threaded through
  the free pages themselves: the first word of a free page holds the address
  of the next one.
\<close>

definition PGROUNDUP :: "u32 \<Rightarrow> u32" where
  "PGROUNDUP sz = (sz + PGSIZE - 1) AND NOT (PGSIZE - 1)"

definition PGROUNDDOWN :: "u32 \<Rightarrow> u32" where
  "PGROUNDDOWN a = a AND NOT (PGSIZE - 1)"

definition kfree :: "u32 \<Rightarrow> unit K" where
  "kfree v =
     kbind (kget k_end) (\<lambda>e.
     if v mod PGSIZE \<noteq> 0 \<or> v < e \<or> V2P v \<ge> PHYSTOP then kpanic ''kfree''
     else
       kseq (kmod (\<lambda>s. s\<lparr>k_mem := memset (k_mem s) v 1 PGSIZE\<rparr>)) (
       kbind (kget k_use_lock) (\<lambda>ul.
       kseq (kwhen ul (acquire KmemLock)) (
       kseq (kmod (\<lambda>s. s\<lparr>k_mem := st32 (k_mem s) v (k_freelist s)\<rparr>)) (
       kseq (kmod (\<lambda>s. s\<lparr>k_freelist := v\<rparr>)) (
       kwhen ul (release KmemLock)))))))"

definition kalloc :: "u32 K" where
  "kalloc =
     kbind (kget k_use_lock) (\<lambda>ul.
     kseq (kwhen ul (acquire KmemLock)) (
     kbind (kget k_freelist) (\<lambda>r.
     kseq (kwhen (r \<noteq> 0) (kmod (\<lambda>s. s\<lparr>k_freelist := ld32 (k_mem s) r\<rparr>))) (
     kseq (kwhen ul (release KmemLock)) (
     kret r)))))"

lemma kfree_OkD:
  "kfree v s = Ok u t \<Longrightarrow> v mod PGSIZE = 0 \<and> k_end s \<le> v \<and> V2P v < PHYSTOP"
  by (auto simp: kfree_def krun split: if_splits outcome.splits)

text \<open>The loop of \<open>freerange\<close>. It ends because \<open>kfree\<close> refuses addresses at which
  \<open>p += PGSIZE\<close> would wrap around.\<close>

lemma freerange_decreases:
  assumes "kfree p s = Ok u t"
  shows "2 ^ 32 - unat (p + PGSIZE) < 2 ^ 32 - unat p"
proof -
  have "V2P p < PHYSTOP" using kfree_OkD [OF assms] by simp
  then have "unat (p - KERNBASE) < unat PHYSTOP" by (simp add: V2P_def word_less_nat_alt)
  moreover have "unat p < 2 ^ 32" by (rule unat_u32_less)
  ultimately have "unat p < 2 ^ 32 - 4096"
    by (cases "KERNBASE \<le> p") (auto simp: unat_sub_if' word_le_nat_alt)
  then have "unat (p + PGSIZE) = unat p + 4096"
    by (simp add: unat_word_ariths)
  with \<open>unat p < 2 ^ 32\<close> show ?thesis by simp
qed

function freerange_loop :: "u32 \<Rightarrow> u32 \<Rightarrow> unit K" where
  "freerange_loop p vend s =
     (if p + PGSIZE \<le> vend then
        (case kfree p s of
           Ok _ t \<Rightarrow> freerange_loop (p + PGSIZE) vend t
         | Panic e \<Rightarrow> Panic e
         | Switch t \<Rightarrow> Switch t)
      else Ok () s)"
  by pat_completeness auto
termination
  by (relation "measure (\<lambda>(p, vend, s). 2 ^ 32 - unat p)")
    (use freerange_decreases in \<open>fastforce+\<close>)

declare freerange_loop.simps [simp del]

definition freerange :: "u32 \<Rightarrow> u32 \<Rightarrow> unit K" where
  "freerange vstart vend = freerange_loop (PGROUNDUP vstart) vend"

definition kinit1 :: "u32 \<Rightarrow> u32 \<Rightarrow> unit K" where
  "kinit1 vstart vend =
     kseq (kmod (\<lambda>s. s\<lparr>k_use_lock := False\<rparr>)) (freerange vstart vend)"

definition kinit2 :: "u32 \<Rightarrow> u32 \<Rightarrow> unit K" where
  "kinit2 vstart vend =
     kseq (freerange vstart vend) (kmod (\<lambda>s. s\<lparr>k_use_lock := True\<rparr>))"

section \<open>Abstraction\<close>

text \<open>\<open>flist m p ps\<close>: from \<open>p\<close>, following the first word of each page, the free
  list runs through exactly the pages \<open>ps\<close> and ends in the null pointer.\<close>

primrec flist :: "mem \<Rightarrow> u32 \<Rightarrow> u32 list \<Rightarrow> bool" where
  "flist m p [] \<longleftrightarrow> p = 0"
| "flist m p (q # qs) \<longleftrightarrow> p = q \<and> p \<noteq> 0 \<and> flist m (ld32 m p) qs"

text \<open>The pages the allocator may manage: page-aligned, above the kernel image,
  below \<open>PHYSTOP\<close>.\<close>

definition page_ok :: "u32 \<Rightarrow> u32 \<Rightarrow> bool" where
  "page_ok e p \<longleftrightarrow> p mod PGSIZE = 0 \<and> e \<le> p \<and> V2P p < PHYSTOP"

definition free_pages :: "kernel \<Rightarrow> u32 list \<Rightarrow> bool" where
  "free_pages s ps \<longleftrightarrow> flist (k_mem s) (k_freelist s) ps \<and> distinct ps \<and>
     list_all (page_ok (k_end s)) ps"

text \<open>The \<open>n\<close> consecutive pages from \<open>p\<close>.\<close>

definition range_pages :: "u32 \<Rightarrow> nat \<Rightarrow> u32 list" where
  "range_pages p n = map (\<lambda>i. p + of_nat (4096 * i)) [0..<n]"

section \<open>Pages\<close>

lemma page_aligned_unat: "(p :: u32) mod PGSIZE = 0 \<longleftrightarrow> 4096 dvd unat p"
  by (simp add: word_eq_iff_unsigned unat_mod_distrib dvd_eq_mod_eq_0 flip: unat_eq_zero)

lemma page_add_div:
  fixes p i :: u32
  assumes "p mod PGSIZE = 0" "i < PGSIZE"
  shows "unat (p + i) = unat p + unat i" "unat (p + i) div 4096 = unat p div 4096"
proof -
  have i: "unat i < 4096" using assms(2) by (simp add: word_less_nat_alt)
  from assms(1) obtain q where q: "unat p = 4096 * q"
    unfolding page_aligned_unat by (rule dvdE)
  with unat_u32_less [of p] i have "unat p + unat i < 2 ^ 32" by simp
  then show sum: "unat (p + i) = unat p + unat i" by (simp add: unat_word_ariths)
  from q i sum show "unat (p + i) div 4096 = unat p div 4096" by simp
qed

lemma page_disjoint:
  fixes p q i j :: u32
  assumes "p mod PGSIZE = 0" "q mod PGSIZE = 0" "p \<noteq> q" "i < PGSIZE" "j < PGSIZE"
  shows "p + i \<noteq> q + j"
proof
  assume "p + i = q + j"
  with page_add_div [OF assms(1,4)] page_add_div [OF assms(2,5)]
  have "unat p div 4096 = unat q div 4096" by simp
  with assms(1,2) have "unat p = unat q"
    unfolding page_aligned_unat by (metis dvd_div_mult_self)
  with assms(3) show False by (simp add: word_unat_eq_iff)
qed

lemma page_outside:
  fixes p q i :: u32
  assumes "p mod PGSIZE = 0" "q mod PGSIZE = 0" "p \<noteq> q" "i < PGSIZE"
  shows "\<not> p + i - q < PGSIZE"
proof
  assume "p + i - q < PGSIZE"
  then have "p + i \<noteq> q + (p + i - q)"
    by (rule page_disjoint [OF assms])
  then show False by simp
qed

lemma page_ok_nonzero: "page_ok e p \<Longrightarrow> p \<noteq> 0"
  by (auto simp: page_ok_def V2P_def)

lemma page_ok_aligned4: "page_ok e p \<Longrightarrow> aligned4 p"
proof -
  assume "page_ok e p"
  then have "4096 dvd unat p" by (simp add: page_ok_def page_aligned_unat)
  then have "4 dvd unat p" by (rule dvd_trans [rotated]) simp
  then show "aligned4 p" by (simp add: aligned4_unat dvd_eq_mod_eq_0)
qed

text \<open>Words of one page are not affected by stores to another.\<close>

lemma ld32_memset_other:
  assumes "p mod PGSIZE = 0" "q mod PGSIZE = 0" "p \<noteq> q" "i \<le> 4092"
  shows "ld32 (memset m q c PGSIZE) (p + i) = ld32 m (p + i)"
proof -
  have "i < PGSIZE" "i + 1 < PGSIZE" "i + 2 < PGSIZE" "i + 3 < PGSIZE"
    using assms(4) by unat_arith+
  note this [THEN page_outside [OF assms(1-3)]]
  then show ?thesis by (simp add: ld32_def memset_region add.assoc)
qed

lemma flist_cong:
  assumes "\<And>p. p \<in> set ps \<Longrightarrow> ld32 m' p = ld32 m p"
  shows "flist m' p ps = flist m p ps"
  using assms by (induction ps arbitrary: p) auto

lemma flist_unique: "flist m p ps \<Longrightarrow> flist m p qs \<Longrightarrow> ps = qs"
proof (induction ps arbitrary: p qs)
  case Nil
  then show ?case by (cases qs) auto
next
  case (Cons x xs)
  then show ?case by (cases qs) auto
qed

section \<open>The allocator's operations\<close>

abbreviation kmem_ready :: "kernel \<Rightarrow> bool" where
  "kmem_ready s \<equiv> k_use_lock s \<longrightarrow> KmemLock \<notin> set (k_held s)"

lemma kfree_run:
  assumes "page_ok (k_end s) v" and "kmem_ready s"
  shows "kfree v s = Ok () (s\<lparr>k_mem := st32 (memset (k_mem s) v 1 PGSIZE) v (k_freelist s),
    k_freelist := v\<rparr>)"
  using assms by (auto simp: kfree_def page_ok_def krun)

lemma kfree_bad:
  "\<not> page_ok (k_end s) v \<Longrightarrow> kfree v s = Panic ''kfree''"
  unfolding kfree_def page_ok_def kbind_run kget_run by (auto simp: kpanic_run not_less not_le)

lemma kalloc_run:
  assumes "kmem_ready s"
  shows "kalloc s = Ok (k_freelist s)
    (if k_freelist s = 0 then s else s\<lparr>k_freelist := ld32 (k_mem s) (k_freelist s)\<rparr>)"
  using assms by (auto simp: kalloc_def krun)

lemma free_pages_kfree:
  assumes fp: "free_pages s ps" and ok: "page_ok (k_end s) v" and new: "v \<notin> set ps"
  shows "free_pages (s\<lparr>k_mem := st32 (memset (k_mem s) v 1 PGSIZE) v (k_freelist s),
    k_freelist := v\<rparr>) (v # ps)"
proof -
  have "ld32 (st32 (memset (k_mem s) v 1 PGSIZE) v (k_freelist s)) p = ld32 (k_mem s) p"
    if "p \<in> set ps" for p
  proof -
    have p: "page_ok (k_end s) p" and ne: "v \<noteq> p"
      using fp new that by (auto simp: free_pages_def list_all_iff)
    have "ld32 (memset (k_mem s) v 1 PGSIZE) (p + 0) = ld32 (k_mem s) (p + 0)"
      using p ok ne by (intro ld32_memset_other) (auto simp: page_ok_def)
    with ld32_st32_other [OF page_ok_aligned4 [OF ok] page_ok_aligned4 [OF p] ne]
    show ?thesis by simp
  qed
  then have "flist (st32 (memset (k_mem s) v 1 PGSIZE) v (k_freelist s)) (k_freelist s) ps"
    using fp by (subst flist_cong) (auto simp: free_pages_def)
  with fp ok new show ?thesis
    by (simp add: free_pages_def page_ok_nonzero)
qed

lemma free_pages_kalloc:
  assumes "free_pages s (p # ps)"
  shows "free_pages (s\<lparr>k_freelist := ld32 (k_mem s) (k_freelist s)\<rparr>) ps"
  using assms by (auto simp: free_pages_def)

section \<open>The allocator as an interface\<close>

text \<open>What the clients of the allocator rely on: a stack of distinct non-null
  pages, from which \<open>alloc\<close> takes the first and to which \<open>free\<close> adds one.\<close>

locale page_allocator =
  fixes alloc :: "('s, u32) prog"
    and free :: "u32 \<Rightarrow> ('s, unit) prog"
    and pages :: "'s \<Rightarrow> u32 list \<Rightarrow> bool"
    and ready :: "'s \<Rightarrow> bool"
    and valid :: "'s \<Rightarrow> u32 \<Rightarrow> bool"
  assumes alloc_empty: "ready s \<Longrightarrow> pages s [] \<Longrightarrow> alloc s = Ok 0 s"
    and alloc_page: "ready s \<Longrightarrow> pages s (p # ps) \<Longrightarrow>
      \<exists>t. alloc s = Ok p t \<and> ready t \<and> pages t ps \<and> valid t = valid s"
    and free_page: "ready s \<Longrightarrow> pages s ps \<Longrightarrow> valid s p \<Longrightarrow> p \<notin> set ps \<Longrightarrow>
      \<exists>t. free p s = Ok () t \<and> ready t \<and> pages t (p # ps) \<and> valid t = valid s"
    and pages_valid: "pages s ps \<Longrightarrow> p \<in> set ps \<Longrightarrow> valid s p"
    and pages_distinct: "pages s ps \<Longrightarrow> distinct ps"
    and valid_nonzero: "valid s p \<Longrightarrow> p \<noteq> 0"
begin

lemma alloc_after_free:
  assumes "ready s" "pages s ps" "valid s p" "p \<notin> set ps"
  shows "\<exists>t. kseq (free p) alloc s = Ok p t \<and> ready t \<and> pages t ps"
proof -
  obtain t where t: "free p s = Ok () t" "ready t" "pages t (p # ps)"
    using free_page [OF assms] by blast
  obtain u where "alloc t = Ok p u" "ready u" "pages u ps"
    using alloc_page [OF t(2,3)] by blast
  with t show ?thesis by (auto simp: kseq_Ok_iff)
qed

lemma free_after_alloc:
  assumes "ready s" "pages s (p # ps)"
  shows "\<exists>t. kbind alloc free s = Ok () t \<and> ready t \<and> pages t (p # ps)"
proof -
  obtain t where t: "alloc s = Ok p t" "ready t" "pages t ps" "valid t = valid s"
    using alloc_page [OF assms] by blast
  have "p \<notin> set ps" using pages_distinct [OF assms(2)] by simp
  moreover have "valid t p" using pages_valid [OF assms(2)] t(4) by simp
  ultimately obtain u where "free p t = Ok () u" "ready u" "pages u (p # ps)"
    using free_page [OF t(2,3)] by blast
  with t show ?thesis by (auto simp: kbind_Ok_iff)
qed

lemma alloc_none_iff:
  assumes "ready s" "pages s ps"
  shows "(\<exists>t. alloc s = Ok 0 t) \<longleftrightarrow> ps = []"
proof (cases ps)
  case Nil
  with alloc_empty [OF assms(1)] assms(2) show ?thesis by auto
next
  case (Cons p qs)
  then have "p \<noteq> 0" using pages_valid [OF assms(2), of p] valid_nonzero by auto
  with alloc_page [of s p qs] assms Cons show ?thesis by auto
qed

end

interpretation kmem: page_allocator kalloc kfree free_pages kmem_ready "\<lambda>s. page_ok (k_end s)"
proof unfold_locales
  fix s
  assume "kmem_ready s" and "free_pages s []"
  then show "kalloc s = Ok 0 s" by (simp add: kalloc_run free_pages_def)
next
  fix s p ps
  assume r: "kmem_ready s" and fp: "free_pages s (p # ps)"
  then have "k_freelist s = p" "p \<noteq> 0" by (auto simp: free_pages_def)
  with kalloc_run [OF r] r free_pages_kalloc [OF fp]
  show "\<exists>t. kalloc s = Ok p t \<and> kmem_ready t \<and> free_pages t ps \<and> page_ok (k_end t) = page_ok (k_end s)"
    by simp
next
  fix s ps p
  assume "kmem_ready s" "free_pages s ps" "page_ok (k_end s) p" "p \<notin> set ps"
  with kfree_run [of s p] free_pages_kfree [of s ps p]
  show "\<exists>t. kfree p s = Ok () t \<and> kmem_ready t \<and> free_pages t (p # ps) \<and>
      page_ok (k_end t) = page_ok (k_end s)"
    by simp
qed (auto simp: free_pages_def list_all_iff dest: page_ok_nonzero)

section \<open>Page rounding and the initial free list\<close>

lemma and_not_4095: "(x :: u32) AND NOT (PGSIZE - 1) = push_bit 12 (drop_bit 12 x)"
proof -
  have "(x :: u32) AND NOT (mask 12) = push_bit 12 (drop_bit 12 x)"
    by (rule bit_word_eqI) (auto simp: bit_simps)
  then show ?thesis by (simp add: mask_eq_exp_minus_1)
qed

lemma unat_PGROUNDDOWN: "unat (PGROUNDDOWN x) = unat x div 4096 * 4096"
proof -
  have "unat x div 4096 * 4096 \<le> unat x" by simp
  also have "\<dots> < 2 ^ 32" by (rule unat_u32_less)
  finally have "unat x div 4096 * 4096 < 2 ^ 32" .
  then show ?thesis
    unfolding PGROUNDDOWN_def and_not_4095
    by (simp add: push_bit_eq_mult drop_bit_eq_div unat_word_ariths unat_div_distrib mult.commute)
qed

lemma PGROUNDDOWN_aligned: "PGROUNDDOWN x mod PGSIZE = 0"
  by (simp add: page_aligned_unat unat_PGROUNDDOWN)

lemma unat_PGROUNDUP:
  assumes "unat x + 4095 < 2 ^ 32"
  shows "unat (PGROUNDUP x) = (unat x + 4095) div 4096 * 4096"
proof -
  have "PGROUNDUP x = PGROUNDDOWN (x + 4095)"
    by (simp add: PGROUNDUP_def PGROUNDDOWN_def add.commute)
  moreover have "unat (x + 4095) = unat x + 4095"
    using assms by (simp add: unat_word_ariths)
  ultimately show ?thesis by (simp add: unat_PGROUNDDOWN)
qed

lemma PGROUNDUP_aligned: "PGROUNDUP x mod PGSIZE = 0"
proof -
  have "PGROUNDUP x = PGROUNDDOWN (x + 4095)"
    by (simp add: PGROUNDUP_def PGROUNDDOWN_def add.commute)
  then show ?thesis by (simp only: PGROUNDDOWN_aligned)
qed

lemma range_pages_Suc: "range_pages p (Suc n) = p # range_pages (p + 4096) n"
proof -
  have "[0..<Suc n] = 0 # map Suc [0..<n]" by (simp only: map_Suc_upt upt_conv_Cons)
  then show ?thesis by (simp add: range_pages_def algebra_simps)
qed

lemma freerange_loop_pages:
  assumes "p mod PGSIZE = 0" "KERNBASE \<le> p" "k_end s \<le> p" "unat p \<le> unat vend"
    and "vend \<le> KERNBASE + PHYSTOP" "kmem_ready s" "free_pages s ps"
    and "n = (unat vend - unat p) div 4096" "set ps \<inter> set (range_pages p n) = {}"
    and "distinct (range_pages p n)"
  shows "\<exists>t. freerange_loop p vend s = Ok () t \<and> free_pages t (rev (range_pages p n) @ ps) \<and>
    kmem_ready t \<and> k_end t = k_end s \<and> k_use_lock t = k_use_lock s"
  using assms
proof (induction n arbitrary: p s ps)
  case 0
  then have "unat vend - unat p < 4096" by simp
  moreover have "unat vend \<le> 0x8E000000" using "0.prems"(5) by (simp add: word_le_nat_alt)
  ultimately have "\<not> p + PGSIZE \<le> vend"
    using "0.prems"(4) by (simp add: word_le_nat_alt unat_word_ariths)
  with "0.prems" show ?case
    by (subst freerange_loop.simps) (simp add: range_pages_def)
next
  case (Suc n)
  have v: "unat vend \<le> 0x8E000000" using Suc.prems(5) by (simp add: word_le_nat_alt)
  have gap: "4096 \<le> unat vend - unat p" using Suc.prems(8) by simp
  have next_p: "unat (p + PGSIZE) = unat p + 4096"
    using v gap by (simp add: unat_word_ariths)
  have guard: "p + PGSIZE \<le> vend" using gap next_p by (simp add: word_le_nat_alt)
  have "V2P p < PHYSTOP"
    using Suc.prems(2) v gap by (simp add: V2P_def word_less_nat_alt word_le_nat_alt unat_sub_if')
  then have ok: "page_ok (k_end s) p" using Suc.prems by (simp add: page_ok_def)
  let ?t = "s\<lparr>k_mem := st32 (memset (k_mem s) p 1 PGSIZE) p (k_freelist s), k_freelist := p\<rparr>"
  have run: "kfree p s = Ok () ?t" using kfree_run [OF ok Suc.prems(6)] .
  have rp: "range_pages p (Suc n) = p # range_pages (p + 4096) n" by (rule range_pages_Suc)
  have fp: "free_pages ?t (p # ps)"
    using Suc.prems(9) rp by (intro free_pages_kfree Suc.prems ok) auto
  have "\<exists>t. freerange_loop (p + PGSIZE) vend ?t = Ok () t \<and>
      free_pages t (rev (range_pages (p + PGSIZE) n) @ p # ps) \<and>
      kmem_ready t \<and> k_end t = k_end ?t \<and> k_use_lock t = k_use_lock ?t"
  proof (rule Suc.IH)
    show "(p + PGSIZE) mod PGSIZE = 0"
      using Suc.prems(1) unfolding page_aligned_unat next_p by simp
    show "KERNBASE \<le> p + PGSIZE" "k_end ?t \<le> p + PGSIZE"
      using Suc.prems(2,3) next_p by (simp_all add: word_le_nat_alt)
    show "unat (p + PGSIZE) \<le> unat vend" using next_p gap by simp
    show "n = (unat vend - unat (p + PGSIZE)) div 4096"
      using Suc.prems(8) next_p gap by simp
    show "set (p # ps) \<inter> set (range_pages (p + PGSIZE) n) = {}"
      using Suc.prems(9,10) rp by auto
    show "distinct (range_pages (p + PGSIZE) n)" using Suc.prems(10) rp by simp
  qed (use Suc.prems fp in simp_all)
  with guard run rp show ?case
    by (subst freerange_loop.simps) simp
qed

lemma distinct_range_pages:
  assumes "4096 * n \<le> 2 ^ 32"
  shows "distinct (range_pages p n)"
proof -
  have unat: "unat (of_nat (4096 * i) :: u32) = 4096 * i" if "i < n" for i
    using assms that by (simp only: unat_of_nat) simp
  have "i = j" if "i < n" "j < n" "(of_nat (4096 * i) :: u32) = of_nat (4096 * j)" for i j
    using unat [OF that(1)] unat [OF that(2)] arg_cong [OF that(3), of unat] by linarith
  then show ?thesis
    by (auto simp: range_pages_def distinct_map inj_on_def)
qed

section \<open>Properties\<close>

text \<open>C26 (kalloc.c:46): \<open>freerange\<close> puts exactly the whole pages of the range on the
  free list, each once: the pages from the first page boundary at or above
  \<open>vstart\<close> up to the last that ends at or before \<open>vend\<close>, and the loop ends.
\<close>

theorem freerange_frees_range:
  assumes "kmem_ready s" "free_pages s ps"
    and "KERNBASE \<le> vstart" "k_end s \<le> vstart" "vend \<le> KERNBASE + PHYSTOP"
    and "PGROUNDUP vstart \<le> vend" "vstart \<le> vend"
    and n: "n = (unat vend - unat (PGROUNDUP vstart)) div 4096"
    and "set ps \<inter> set (range_pages (PGROUNDUP vstart) n) = {}"
  shows "\<exists>t. freerange vstart vend s = Ok () t \<and>
    free_pages t (rev (range_pages (PGROUNDUP vstart) n) @ ps) \<and> kmem_ready t"
proof -
  have vend: "unat vend \<le> 0x8E000000" using assms(5) by (simp add: word_le_nat_alt)
  then have "unat vstart + 4095 < 2 ^ 32" using assms(7) by (simp add: word_le_nat_alt)
  then have "unat (PGROUNDUP vstart) = (unat vstart + 4095) div 4096 * 4096"
    by (rule unat_PGROUNDUP)
  then have "vstart \<le> PGROUNDUP vstart" by (simp add: word_le_nat_alt)
  moreover have "4096 * n \<le> 2 ^ 32" using n vend by simp
  moreover note PGROUNDUP_aligned [of vstart] distinct_range_pages [of n "PGROUNDUP vstart"]
  ultimately have "\<exists>t. freerange_loop (PGROUNDUP vstart) vend s = Ok () t \<and>
      free_pages t (rev (range_pages (PGROUNDUP vstart) n) @ ps) \<and>
      kmem_ready t \<and> k_end t = k_end s \<and> k_use_lock t = k_use_lock s"
    using assms by (intro freerange_loop_pages) (auto simp: word_le_nat_alt)
  then show ?thesis by (auto simp: freerange_def)
qed

theorem freerange_frees_range_witness:
  "\<exists>t. freerange 0x80114800 0x80118123 (kernel0 (\<lambda>_. 0) 0x80114800 0x80107000 (\<lambda>_. [])) = Ok () t
   \<and> free_pages t [0x80117000, 0x80116000, 0x80115000]"
proof -
  let ?s = "kernel0 (\<lambda>_. 0) 0x80114800 0x80107000 (\<lambda>_. [])"
  have up: "PGROUNDUP 0x80114800 = 0x80115000" by (simp add: PGROUNDUP_def)
  have rp: "range_pages 0x80115000 3 = [0x80115000, 0x80116000, 0x80117000]"
    by (simp add: range_pages_def numeral_3_eq_3)
  have "\<exists>t. freerange 0x80114800 0x80118123 ?s = Ok () t \<and>
      free_pages t (rev (range_pages (PGROUNDUP 0x80114800) 3) @ []) \<and> kmem_ready t"
    by (rule freerange_frees_range) (simp_all add: up kernel0_def free_pages_def)
  then show ?thesis unfolding up rp by auto
qed

text \<open>C20 (kalloc.c:60,83): Allocation and freeing are inverse: after \<open>kfree v\<close> the
  next \<open>kalloc\<close> returns \<open>v\<close> and the rest of the free list is as before.
\<close>

theorem kfree_kalloc_roundtrip:
  assumes "kmem_ready s" "free_pages s ps" "page_ok (k_end s) v" "v \<notin> set ps"
  shows "\<exists>t. kseq (kfree v) kalloc s = Ok v t \<and> kmem_ready t \<and> free_pages t ps"
  using assms by (rule kmem.alloc_after_free)

theorem kfree_kalloc_roundtrip_witness:
  "\<exists>t. kseq (kfree 0x80200000) kalloc (kernel0 (\<lambda>_. 0) 0x801154a8 0x80107000 (\<lambda>_. [])) = Ok 0x80200000 t
   \<and> free_pages t []"
proof -
  let ?s = "kernel0 (\<lambda>_. 0) 0x801154a8 0x80107000 (\<lambda>_. [])"
  have "\<exists>t. kseq (kfree 0x80200000) kalloc ?s = Ok 0x80200000 t \<and> kmem_ready t \<and> free_pages t []"
    by (rule kfree_kalloc_roundtrip) (simp_all add: kernel0_def free_pages_def page_ok_def V2P_def)
  then show ?thesis by blast
qed

text \<open>C27 (kalloc.c:83): \<open>kalloc\<close> returns 0 exactly when the free list is empty;
  otherwise it returns the first free page, which is page-aligned, lies above
  the kernel image and below \<open>PHYSTOP\<close>, and is not on the list that remains.
\<close>

theorem kalloc_takes_page:
  assumes "kmem_ready s" "free_pages s ps"
  shows "\<exists>r t. kalloc s = Ok r t \<and> (r = 0 \<longleftrightarrow> ps = []) \<and>
    (r \<noteq> 0 \<longrightarrow> ps = r # tl ps \<and> page_ok (k_end s) r \<and> r \<notin> set (tl ps) \<and> free_pages t (tl ps)) \<and>
    k_mem t = k_mem s"
proof (cases ps)
  case Nil
  with assms kmem.alloc_empty [OF assms(1)] show ?thesis by auto
next
  case (Cons p qs)
  then have p: "page_ok (k_end s) p" "p \<noteq> 0" "p \<notin> set qs" "k_freelist s = p"
    using assms(2) page_ok_nonzero by (auto simp: free_pages_def)
  with kalloc_run [OF assms(1)] free_pages_kalloc [of s p qs] assms(2) Cons
  show ?thesis by simp
qed

theorem kalloc_takes_page_witness:
  "\<exists>r t. kalloc (kernel0 (\<lambda>_. 0) 0x801154a8 0x80107000 (\<lambda>_. [])\<lparr>k_freelist := 0x80200000\<rparr>) = Ok r t
   \<and> r = 0x80200000 \<and> free_pages t []"
proof -
  let ?s = "kernel0 (\<lambda>_. 0) 0x801154a8 0x80107000 (\<lambda>_. [])\<lparr>k_freelist := 0x80200000\<rparr>"
  have "free_pages ?s [0x80200000]" 
    by (simp add: kernel0_def free_pages_def page_ok_def V2P_def ld32_def)
  from kalloc_takes_page [OF _ this] show ?thesis by (auto simp: kernel0_def)
qed

end
