(* ===== verification/Vm.thy ===== *)
theory Vm
  imports Kalloc
begin

text \<open>
  Address spaces (\<open>vm.c\<close>). A page directory and its page tables are pages of
  physical memory, read and written as arrays of 32-bit entries at their kernel
  addresses (the kernel maps physical address \<open>a\<close> at \<open>P2V a\<close>). \<open>loaduvm\<close>, which
  reads a file, is part of the theory of \<open>exec\<close>. Loading the segment registers
  and the task register has no effect on the model; of the task state the
  kernel stack pointer \<open>esp0\<close> is kept.
\<close>

abbreviation (input) PTE_P :: u32 where "PTE_P \<equiv> 0x001"
abbreviation (input) PTE_W :: u32 where "PTE_W \<equiv> 0x002"
abbreviation (input) PTE_U :: u32 where "PTE_U \<equiv> 0x004"

definition PDX :: "u32 \<Rightarrow> u32" where
  "PDX va = drop_bit 22 va AND 0x3FF"

definition PTX :: "u32 \<Rightarrow> u32" where
  "PTX va = drop_bit 12 va AND 0x3FF"

definition PTE_ADDR :: "u32 \<Rightarrow> u32" where
  "PTE_ADDR pte = pte AND NOT 0xFFF"

definition PTE_FLAGS :: "u32 \<Rightarrow> u32" where
  "PTE_FLAGS pte = pte AND 0xFFF"

definition load32 :: "u32 \<Rightarrow> u32 K" where
  "load32 a = kget (\<lambda>s. ld32 (k_mem s) a)"

definition store32 :: "u32 \<Rightarrow> u32 \<Rightarrow> unit K" where
  "store32 a w = kmod (\<lambda>s. s\<lparr>k_mem := st32 (k_mem s) a w\<rparr>)"

definition kmemset :: "u32 \<Rightarrow> u32 \<Rightarrow> u32 \<Rightarrow> unit K" where
  "kmemset dst c n = kmod (\<lambda>s. s\<lparr>k_mem := memset (k_mem s) dst c n\<rparr>)"

definition kmemmove :: "u32 \<Rightarrow> u32 \<Rightarrow> u32 \<Rightarrow> unit K" where
  "kmemmove dst src n = kmod (\<lambda>s. s\<lparr>k_mem := memmove (k_mem s) dst src n\<rparr>)"

text \<open>Copying bytes that a kernel structure holds into memory.\<close>

fun store_bytes :: "mem \<Rightarrow> u32 \<Rightarrow> u8 list \<Rightarrow> mem" where
  "store_bytes m a [] = m"
| "store_bytes m a (x # xs) = store_bytes (m(a := x)) (a + 1) xs"

section \<open>Page tables\<close>

definition walkpgdir :: "u32 \<Rightarrow> u32 \<Rightarrow> bool \<Rightarrow> u32 K" where
  "walkpgdir pgdir va alloc =
     (let pde = pgdir + 4 * PDX va in
      kbind (load32 pde) (\<lambda>v.
      if v AND PTE_P \<noteq> 0 then kret (P2V (PTE_ADDR v) + 4 * PTX va)
      else if \<not> alloc then kret 0
      else
        kbind kalloc (\<lambda>pgtab.
        if pgtab = 0 then kret 0
        else
          kseq (kmemset pgtab 0 PGSIZE) (
          kseq (store32 pde (V2P pgtab OR PTE_P OR PTE_W OR PTE_U)) (
          kret (pgtab + 4 * PTX va))))))"

text \<open>The \<open>for(;;)\<close> of \<open>mappages\<close>: \<open>n\<close> is the number of pages still to map after
  the page at \<open>a\<close>, so the test \<open>a == last\<close> is \<open>n = 0\<close>.\<close>

fun mappages_loop :: "u32 \<Rightarrow> u32 \<Rightarrow> nat \<Rightarrow> u32 \<Rightarrow> u32 \<Rightarrow> int K" where
  "mappages_loop pgdir a n pa perm =
     kbind (walkpgdir pgdir a True) (\<lambda>pte.
     if pte = 0 then kret (-1)
     else
       kbind (load32 pte) (\<lambda>v.
       if v AND PTE_P \<noteq> 0 then kpanic ''remap''
       else
         kseq (store32 pte (pa OR perm OR PTE_P)) (
         case n of
           0 \<Rightarrow> kret 0
         | Suc k \<Rightarrow> mappages_loop pgdir (a + PGSIZE) k (pa + PGSIZE) perm)))"

declare mappages_loop.simps [simp del]

definition mappages :: "u32 \<Rightarrow> u32 \<Rightarrow> u32 \<Rightarrow> u32 \<Rightarrow> u32 \<Rightarrow> int K" where
  "mappages pgdir va sz pa perm =
     (let a = PGROUNDDOWN va; last = PGROUNDDOWN (va + sz - 1)
      in mappages_loop pgdir a (unat ((last - a) div PGSIZE)) pa perm)"

section \<open>Freeing address spaces\<close>

text \<open>The loop of \<open>deallocuvm\<close>: one iteration, which yields the address of the
  next one, and the loop. Where a page table is missing, the code continues
  with the first page of the next one. The address is a \<open>nat\<close>: for the sizes the
  kernel passes, at most \<open>KERNBASE\<close>, it does not wrap around.\<close>

definition dealloc_step :: "u32 \<Rightarrow> nat \<Rightarrow> nat K" where
  "dealloc_step pgdir a =
     kbind (walkpgdir pgdir (of_nat a) False) (\<lambda>pte.
     if pte = 0 then kret ((a div 2 ^ 22 + 1) * 2 ^ 22)
     else
       kbind (load32 pte) (\<lambda>v.
       if v AND PTE_P \<noteq> 0 then
         (let pa = PTE_ADDR v in
          if pa = 0 then kpanic ''kfree''
          else kseq (kfree (P2V pa)) (kseq (store32 pte 0) (kret (a + 4096))))
       else kret (a + 4096)))"

lemma next_table_greater: "a < (a div 2 ^ 22 + 1) * (2 ^ 22 :: nat)"
proof -
  have "a mod 2 ^ 22 < (2 ^ 22 :: nat)" by simp
  moreover have "a = a div 2 ^ 22 * 2 ^ 22 + a mod 2 ^ 22" by (simp only: div_mult_mod_eq)
  ultimately show ?thesis by (simp only: add_mult_distrib mult_1)
qed

lemma dealloc_step_greater: "dealloc_step pgdir a s = Ok a' t \<Longrightarrow> a < a'"
  using next_table_greater [of a]
  by (auto simp: dealloc_step_def kOk Let_def
      simp del: power_numeral mult_Suc split: if_splits)

function dealloc_loop :: "u32 \<Rightarrow> nat \<Rightarrow> nat \<Rightarrow> unit K" where
  "dealloc_loop pgdir oldsz a s =
     (if a < oldsz then
        (case dealloc_step pgdir a s of
           Panic e \<Rightarrow> Panic e
         | Switch t \<Rightarrow> Switch t
         | Ok a' t \<Rightarrow> dealloc_loop pgdir oldsz a' t)
      else Ok () s)"
  by pat_completeness auto
termination
  by (relation "measure (\<lambda>(pgdir, oldsz, a, s). oldsz - a)")
    (use dealloc_step_greater in \<open>fastforce+\<close>)

declare dealloc_loop.simps [simp del]

definition deallocuvm :: "u32 \<Rightarrow> u32 \<Rightarrow> u32 \<Rightarrow> u32 K" where
  "deallocuvm pgdir oldsz newsz =
     (if newsz \<ge> oldsz then kret oldsz
      else kseq (dealloc_loop pgdir (unat oldsz) (unat (PGROUNDUP newsz))) (kret newsz))"

definition freevm :: "u32 \<Rightarrow> unit K" where
  "freevm pgdir =
     (if pgdir = 0 then kpanic ''freevm: no pgdir''
      else
        kseq (deallocuvm pgdir KERNBASE 0) (
        kseq (kfor [0..<1024] (\<lambda>i.
          kbind (load32 (pgdir + 4 * of_nat i)) (\<lambda>pde.
          kwhen (pde AND PTE_P \<noteq> 0) (kfree (P2V (PTE_ADDR pde)))))) (
        kfree pgdir)))"

section \<open>Building address spaces\<close>

record kmap =
  km_virt :: u32
  km_phys_start :: u32
  km_phys_end :: u32
  km_perm :: u32

definition kmaps :: "u32 \<Rightarrow> kmap list" where
  "kmaps data =
     [\<lparr>km_virt = KERNBASE, km_phys_start = 0, km_phys_end = EXTMEM, km_perm = PTE_W\<rparr>,
      \<lparr>km_virt = KERNLINK, km_phys_start = V2P KERNLINK, km_phys_end = V2P data, km_perm = 0\<rparr>,
      \<lparr>km_virt = data, km_phys_start = V2P data, km_phys_end = PHYSTOP, km_perm = PTE_W\<rparr>,
      \<lparr>km_virt = DEVSPACE, km_phys_start = DEVSPACE, km_phys_end = 0, km_perm = PTE_W\<rparr>]"

fun setupkvm_loop :: "u32 \<Rightarrow> kmap list \<Rightarrow> u32 K" where
  "setupkvm_loop pgdir [] = kret pgdir"
| "setupkvm_loop pgdir (k # ks) =
     kbind (mappages pgdir (km_virt k) (km_phys_end k - km_phys_start k) (km_phys_start k) (km_perm k))
       (\<lambda>r. if r < 0 then kseq (freevm pgdir) (kret 0) else setupkvm_loop pgdir ks)"

definition setupkvm :: "u32 K" where
  "setupkvm =
     kbind kalloc (\<lambda>pgdir.
     if pgdir = 0 then kret 0
     else
       kseq (kmemset pgdir 0 PGSIZE) (
       if P2V PHYSTOP > DEVSPACE then kpanic ''PHYSTOP too high''
       else kbind (kget k_kdata) (\<lambda>data. setupkvm_loop pgdir (kmaps data))))"

definition switchkvm :: "unit K" where
  "switchkvm = kmod (\<lambda>s. s\<lparr>k_cr3 := V2P (k_kpgdir s)\<rparr>)"

definition kvmalloc :: "unit K" where
  "kvmalloc = kbind setupkvm (\<lambda>pgdir.
     kseq (kmod (\<lambda>s. s\<lparr>k_kpgdir := pgdir\<rparr>)) switchkvm)"

definition switchuvm :: "nat option \<Rightarrow> unit K" where
  "switchuvm p =
     (case p of
        None \<Rightarrow> kpanic ''switchuvm: no process''
      | Some i \<Rightarrow>
          kbind (get_proc i) (\<lambda>q.
          if p_kstack q = 0 then kpanic ''switchuvm: no kstack''
          else if p_pgdir q = 0 then kpanic ''switchuvm: no pgdir''
          else kmod (\<lambda>s. s\<lparr>k_esp0 := p_kstack q + KSTACKSIZE, k_cr3 := V2P (p_pgdir q)\<rparr>)))"

definition inituvm :: "u32 \<Rightarrow> u8 list \<Rightarrow> unit K" where
  "inituvm pgdir init =
     (if PGSIZE \<le> of_nat (length init) then kpanic ''inituvm: more than a page''
      else
        kbind kalloc (\<lambda>mem.
        kseq (kmemset mem 0 PGSIZE) (
        kseq (mappages pgdir 0 PGSIZE (V2P mem) (PTE_W OR PTE_U)) (
        kmod (\<lambda>s. s\<lparr>k_mem := store_bytes (k_mem s) mem init\<rparr>)))))"

text \<open>The addresses a loop \<open>for(; a < limit; a += PGSIZE)\<close> visits.\<close>

definition page_steps :: "u32 \<Rightarrow> u32 \<Rightarrow> u32 list" where
  "page_steps a limit =
     map (\<lambda>i. a + of_nat (4096 * i)) [0..<(unat limit - unat a + 4095) div 4096]"

fun allocuvm_loop :: "u32 \<Rightarrow> u32 \<Rightarrow> u32 \<Rightarrow> u32 list \<Rightarrow> u32 K" where
  "allocuvm_loop pgdir oldsz newsz [] = kret newsz"
| "allocuvm_loop pgdir oldsz newsz (a # as) =
     kbind kalloc (\<lambda>mem.
     if mem = 0 then
       kseq (cprintf (''allocuvm out of memory'' @ [CHR 0x0A]) []) (
       kseq (deallocuvm pgdir newsz oldsz) (kret 0))
     else
       kseq (kmemset mem 0 PGSIZE) (
       kbind (mappages pgdir a PGSIZE (V2P mem) (PTE_W OR PTE_U)) (\<lambda>r.
       if r < 0 then
         kseq (cprintf (''allocuvm out of memory (2)'' @ [CHR 0x0A]) []) (
         kseq (deallocuvm pgdir newsz oldsz) (
         kseq (kfree mem) (kret 0)))
       else allocuvm_loop pgdir oldsz newsz as)))"

definition allocuvm :: "u32 \<Rightarrow> u32 \<Rightarrow> u32 \<Rightarrow> u32 K" where
  "allocuvm pgdir oldsz newsz =
     (if newsz \<ge> KERNBASE then kret 0
      else if newsz < oldsz then kret oldsz
      else allocuvm_loop pgdir oldsz newsz (page_steps (PGROUNDUP oldsz) newsz))"

definition clearpteu :: "u32 \<Rightarrow> u32 \<Rightarrow> unit K" where
  "clearpteu pgdir uva =
     kbind (walkpgdir pgdir uva False) (\<lambda>pte.
     if pte = 0 then kpanic ''clearpteu''
     else kbind (load32 pte) (\<lambda>v. store32 pte (v AND NOT PTE_U)))"

fun copyuvm_loop :: "u32 \<Rightarrow> u32 \<Rightarrow> u32 list \<Rightarrow> u32 K" where
  "copyuvm_loop pgdir d [] = kret d"
| "copyuvm_loop pgdir d (i # is) =
     kbind (walkpgdir pgdir i False) (\<lambda>pte.
     if pte = 0 then kpanic ''copyuvm: pte should exist''
     else
       kbind (load32 pte) (\<lambda>v.
       if v AND PTE_P = 0 then kpanic ''copyuvm: page not present''
       else
         kbind kalloc (\<lambda>mem.
         if mem = 0 then kseq (freevm d) (kret 0)
         else
           kseq (kmemmove mem (P2V (PTE_ADDR v)) PGSIZE) (
           kbind (mappages d i PGSIZE (V2P mem) (PTE_FLAGS v)) (\<lambda>r.
           if r < 0 then kseq (freevm d) (kret 0)
           else copyuvm_loop pgdir d is)))))"

definition copyuvm :: "u32 \<Rightarrow> u32 \<Rightarrow> u32 K" where
  "copyuvm pgdir sz =
     kbind setupkvm (\<lambda>d.
     if d = 0 then kret 0 else copyuvm_loop pgdir d (page_steps 0 sz))"

section \<open>Reaching user memory\<close>

text \<open>\<open>uva2ka\<close> does not test the result of \<open>walkpgdir\<close>: a missing page table is a
  read through the null pointer, here the kernel's page-fault panic.\<close>

definition uva2ka :: "u32 \<Rightarrow> u32 \<Rightarrow> u32 K" where
  "uva2ka pgdir uva =
     kbind (walkpgdir pgdir uva False) (\<lambda>pte.
     if pte = 0 then kpanic ''trap''
     else
       kbind (load32 pte) (\<lambda>v.
       if v AND PTE_P = 0 then kret 0
       else if v AND PTE_U = 0 then kret 0
       else kret (P2V (PTE_ADDR v))))"

function copyout :: "u32 \<Rightarrow> u32 \<Rightarrow> u8 list \<Rightarrow> int K" where
  "copyout pgdir va buf s =
     (if buf = [] then Ok 0 s
      else
        let va0 = PGROUNDDOWN va; n = min (4096 - unat (va - va0)) (length buf) in
        (case uva2ka pgdir va0 s of
           Panic e \<Rightarrow> Panic e
         | Switch t \<Rightarrow> Switch t
         | Ok pa0 t \<Rightarrow>
             if pa0 = 0 then Ok (-1) t
             else copyout pgdir (va0 + PGSIZE) (drop n buf)
               (t\<lparr>k_mem := store_bytes (k_mem t) (pa0 + (va - va0)) (take n buf)\<rparr>)))"
  by pat_completeness auto

lemma page_offset_small: "unat (va - PGROUNDDOWN va) < 4096"
proof -
  have le: "PGROUNDDOWN va \<le> va" by (simp add: word_le_nat_alt unat_PGROUNDDOWN)
  have "unat (va - PGROUNDDOWN va) = unat va - unat va div 4096 * 4096"
    using le by (simp add: unat_sub unat_PGROUNDDOWN)
  also have "\<dots> = unat va mod 4096" by (simp add: minus_div_mult_eq_mod)
  finally show ?thesis by simp
qed

termination copyout
proof (relation "measure (\<lambda>(pgdir, va, buf, s). length buf)")
  fix pgdir va va0 pa0 :: u32 and buf :: "u8 list" and s t :: kernel and n :: nat
  assume "buf \<noteq> []" "va0 = PGROUNDDOWN va" "n = min (4096 - unat (va - va0)) (length buf)"
  then have "0 < n" using page_offset_small [of va] by simp
  with \<open>buf \<noteq> []\<close>
  show "((pgdir, va0 + PGSIZE, drop n buf, t\<lparr>k_mem := store_bytes (k_mem t) (pa0 + (va - va0)) (take n buf)\<rparr>),
      pgdir, va, buf, s) \<in> measure (\<lambda>(pgdir, va, buf, s). length buf)"
    by simp
qed auto

declare copyout.simps [simp del]

section \<open>What the memory operations leave alone\<close>

text \<open>A property of the state that does not depend on memory, the free list, the
  locks held or the console output is kept by every operation of this theory.\<close>

definition mem_blind :: "(kernel \<Rightarrow> bool) \<Rightarrow> bool" where
  "mem_blind P \<longleftrightarrow>
     (\<forall>s h. P s \<longrightarrow> P (s\<lparr>k_held := h\<rparr>)) \<and> (\<forall>s m. P s \<longrightarrow> P (s\<lparr>k_mem := m\<rparr>)) \<and>
     (\<forall>s f. P s \<longrightarrow> P (s\<lparr>k_freelist := f\<rparr>)) \<and> (\<forall>s c. P s \<longrightarrow> P (s\<lparr>k_cons := c\<rparr>))"

lemma mem_blindD:
  assumes "mem_blind P" and "P s"
  shows "P (s\<lparr>k_held := h\<rparr>)" "P (s\<lparr>k_mem := m\<rparr>)" "P (s\<lparr>k_freelist := f\<rparr>)" "P (s\<lparr>k_cons := c\<rparr>)"
  using assms by (simp_all add: mem_blind_def)

lemma keeps_acquire_blind [keep_intros]: "mem_blind P \<Longrightarrow> keeps P (acquire lk)"
  by (simp add: keeps_acquire mem_blindD)

lemma keeps_release_blind [keep_intros]: "mem_blind P \<Longrightarrow> keeps P (release lk)"
  by (simp add: keeps_release mem_blindD)

lemma keeps_mem_blind [keep_intros]: "mem_blind P \<Longrightarrow> keeps P (kmod (\<lambda>s. s\<lparr>k_mem := f s\<rparr>))"
  by (simp add: keeps_kmod mem_blindD)

lemma keeps_freelist_blind [keep_intros]:
  "mem_blind P \<Longrightarrow> keeps P (kmod (\<lambda>s. s\<lparr>k_freelist := f s\<rparr>))"
  by (simp add: keeps_kmod mem_blindD)

lemma keeps_cprintf_blind [keep_intros]: "mem_blind P \<Longrightarrow> keeps P (cprintf fmt args)"
  by (rule keeps_cprintf) (simp_all add: mem_blindD)

lemma keeps_kfree [keep_intros]: "mem_blind P \<Longrightarrow> keeps P (kfree v)"
  unfolding kfree_def by (intro keep_intros)

lemma keeps_kalloc [keep_intros]: "mem_blind P \<Longrightarrow> keeps P kalloc"
  unfolding kalloc_def by (intro keep_intros)

lemma keeps_load32 [keep_intros]: "keeps P (load32 a)"
  unfolding load32_def by (intro keep_intros)

lemma keeps_store32 [keep_intros]: "mem_blind P \<Longrightarrow> keeps P (store32 a w)"
  unfolding store32_def by (intro keep_intros)

lemma keeps_kmemset [keep_intros]: "mem_blind P \<Longrightarrow> keeps P (kmemset a c n)"
  unfolding kmemset_def by (intro keep_intros)

lemma keeps_kmemmove [keep_intros]: "mem_blind P \<Longrightarrow> keeps P (kmemmove a b n)"
  unfolding kmemmove_def by (intro keep_intros)

lemma keeps_walkpgdir [keep_intros]: "mem_blind P \<Longrightarrow> keeps P (walkpgdir pgdir va alloc)"
  unfolding walkpgdir_def Let_def by (intro keep_intros)

lemma keeps_case_nat [keep_intros]:
  "keeps P m \<Longrightarrow> (\<And>k. keeps P (f k)) \<Longrightarrow> keeps P (case n of 0 \<Rightarrow> m | Suc k \<Rightarrow> f k)"
  by (cases n) auto

lemma keeps_mappages_loop:
  assumes mb: "mem_blind P"
  shows "keeps P (mappages_loop pgdir a n pa perm)"
proof (induction n arbitrary: a pa)
  case 0
  show ?case
    by (subst mappages_loop.simps) (simp only: nat.case, intro keep_intros mb)
next
  case (Suc n)
  show ?case
    by (subst mappages_loop.simps) (simp only: nat.case, intro keep_intros mb Suc.IH)
qed

lemma keeps_mappages [keep_intros]: "mem_blind P \<Longrightarrow> keeps P (mappages pgdir va sz pa perm)"
  unfolding mappages_def Let_def by (rule keeps_mappages_loop)

lemma keeps_dealloc_step [keep_intros]: "mem_blind P \<Longrightarrow> keeps P (dealloc_step pgdir a)"
  unfolding dealloc_step_def Let_def by (intro keep_intros)

lemma keeps_dealloc_loop:
  assumes mb: "mem_blind P"
  shows "P s \<Longrightarrow> case dealloc_loop pgdir oldsz a s of Ok _ t \<Rightarrow> P t | Panic _ \<Rightarrow> True | Switch t \<Rightarrow> P t"
proof (induction pgdir oldsz a s rule: dealloc_loop.induct)
  case (1 pgdir oldsz a s)
  note step = keeps_dealloc_step [OF mb, of pgdir a]
  show ?case
  proof (cases "dealloc_step pgdir a s")
    case (Ok a' t)
    with "1.IH" [OF _ Ok] keeps_OkD [OF step "1.prems" Ok] "1.prems" show ?thesis
      by (subst dealloc_loop.simps) simp
  next
    case (Switch t)
    with keeps_SwitchD [OF step "1.prems" Switch] "1.prems" show ?thesis
      by (subst dealloc_loop.simps) simp
  qed (use "1.prems" in \<open>subst dealloc_loop.simps, simp\<close>)
qed

lemma keeps_deallocuvm [keep_intros]: "mem_blind P \<Longrightarrow> keeps P (deallocuvm pgdir oldsz newsz)"
  unfolding deallocuvm_def
  by (intro keep_intros) (simp add: keeps_def keeps_dealloc_loop)

lemma keeps_freevm [keep_intros]: "mem_blind P \<Longrightarrow> keeps P (freevm pgdir)"
  unfolding freevm_def by (intro keep_intros)

lemma keeps_setupkvm_loop [keep_intros]:
  assumes mb: "mem_blind P"
  shows "keeps P (setupkvm_loop pgdir ks)"
proof (induction ks)
  case Nil
  show ?case unfolding setupkvm_loop.simps by (intro keep_intros)
next
  case (Cons a rest)
  show ?case unfolding setupkvm_loop.simps by (intro keep_intros mb Cons.IH)
qed

lemma keeps_setupkvm [keep_intros]: "mem_blind P \<Longrightarrow> keeps P setupkvm"
  unfolding setupkvm_def by (intro keep_intros)

lemma keeps_inituvm [keep_intros]: "mem_blind P \<Longrightarrow> keeps P (inituvm pgdir init)"
  unfolding inituvm_def by (intro keep_intros)

lemma keeps_allocuvm_loop [keep_intros]:
  assumes mb: "mem_blind P"
  shows "keeps P (allocuvm_loop pgdir oldsz newsz as)"
proof (induction as)
  case Nil
  show ?case unfolding allocuvm_loop.simps by (intro keep_intros)
next
  case (Cons a rest)
  show ?case unfolding allocuvm_loop.simps by (intro keep_intros mb Cons.IH)
qed

lemma keeps_allocuvm [keep_intros]: "mem_blind P \<Longrightarrow> keeps P (allocuvm pgdir oldsz newsz)"
  unfolding allocuvm_def by (intro keep_intros)

lemma keeps_clearpteu [keep_intros]: "mem_blind P \<Longrightarrow> keeps P (clearpteu pgdir uva)"
  unfolding clearpteu_def by (intro keep_intros)

lemma keeps_copyuvm_loop [keep_intros]:
  assumes mb: "mem_blind P"
  shows "keeps P (copyuvm_loop pgdir d is)"
proof (induction "is")
  case Nil
  show ?case unfolding copyuvm_loop.simps by (intro keep_intros)
next
  case (Cons a rest)
  show ?case unfolding copyuvm_loop.simps by (intro keep_intros mb Cons.IH)
qed

lemma keeps_copyuvm [keep_intros]: "mem_blind P \<Longrightarrow> keeps P (copyuvm pgdir sz)"
  unfolding copyuvm_def by (intro keep_intros)

lemma keeps_uva2ka [keep_intros]: "mem_blind P \<Longrightarrow> keeps P (uva2ka pgdir uva)"
  unfolding uva2ka_def by (intro keep_intros)

lemma keeps_copyout_run:
  assumes "mem_blind P"
  shows "P s \<Longrightarrow> case copyout pgdir va buf s of Ok _ t \<Rightarrow> P t | Panic _ \<Rightarrow> True | Switch t \<Rightarrow> P t"
proof (induction pgdir va buf s rule: copyout.induct)
  case (1 pgdir va buf s)
  have ka: "keeps P (uva2ka pgdir b)" for b
    using assms by (intro keep_intros)
  show ?case
  proof (cases "buf = [] \<or> (\<forall>pa t. uva2ka pgdir (PGROUNDDOWN va) s = Ok pa t \<longrightarrow> pa = 0)")
    case True
    then show ?thesis
      by (subst copyout.simps)
        (use "1.prems" keeps_OkD [OF ka "1.prems"] keeps_SwitchD [OF ka "1.prems"] in
          \<open>auto simp: Let_def split: outcome.splits\<close>)
  next
    case False
    then obtain pa t where b: "buf \<noteq> []" and pa: "uva2ka pgdir (PGROUNDDOWN va) s = Ok pa t" "pa \<noteq> 0"
      by auto
    have "P t" by (rule keeps_OkD [OF ka "1.prems" pa(1)])
    from "1.IH" [OF b refl refl pa mem_blindD(2) [OF assms this]] show ?thesis
      by (subst copyout.simps) (simp add: b pa Let_def)
  qed
qed

lemma keeps_copyout [keep_intros]: "mem_blind P \<Longrightarrow> keeps P (copyout pgdir va buf)"
  by (simp add: keeps_def keeps_copyout_run)

end
