(* ===== verification/Proc.thy ===== *)
theory Proc
  imports Vm
begin

text \<open>
  The process table and the scheduler (\<open>proc.c\<close>, and the aging scheduler of
  \<open>proc_3.c\<close>): allocation of process slots, priorities, the scheduler's choice,
  \<open>sched\<close>, \<open>yield\<close>, \<open>sleep\<close>, \<open>wakeup\<close>, \<open>kill\<close>, \<open>wait\<close>, \<open>growproc\<close> and the process
  listings. \<open>fork\<close>, \<open>exit\<close> and \<open>userinit\<close>, which use the file system, come later.

  A context switch ends an operation with the outcome \<open>Switch\<close>. Where an operation
  goes on after it has been scheduled again, the continuation is an operation of
  its own (\<open>sleep_resume\<close>, \<open>wait_resume\<close>, \<open>scheduler_back\<close>).
\<close>

section \<open>Slots and priorities\<close>

definition allocproc :: "nat option K" where
  "allocproc =
     kseq (acquire PtableLock) (
     kbind (kget (\<lambda>s. find_slot (\<lambda>q. p_state q = UNUSED) (k_ptable s))) (\<lambda>r.
     case r of
       None \<Rightarrow> kseq (release PtableLock) (kret None)
     | Some p \<Rightarrow>
         kseq (upd_proc p (\<lambda>q. q\<lparr>p_state := EMBRYO\<rparr>)) (
         kbind (kget k_nextpid) (\<lambda>pid.
         kseq (upd_proc p (\<lambda>q. q\<lparr>p_pid := pid\<rparr>)) (
         kseq (kmod (\<lambda>s. s\<lparr>k_nextpid := pid + 1\<rparr>)) (
         kseq (upd_proc p (\<lambda>q. q\<lparr>p_priority := 5\<rparr>)) (
         kseq (upd_proc p (\<lambda>q. q\<lparr>p_counter := 0\<rparr>)) (
         kseq (release PtableLock) (
         kbind kalloc (\<lambda>kstack.
         kseq (upd_proc p (\<lambda>q. q\<lparr>p_kstack := kstack\<rparr>)) (
         if kstack = 0 then
           kseq (upd_proc p (\<lambda>q. q\<lparr>p_state := UNUSED\<rparr>)) (kret None)
         else
           kbind (kget k_forkret) (\<lambda>forkret.
           kseq (upd_proc p (\<lambda>q. q\<lparr>p_context := context0\<lparr>cx_eip := forkret\<rparr>\<rparr>)) (
           kret (Some p))))))))))))))"

fun state_name :: "procstate \<Rightarrow> string" where
  "state_name UNUSED = ''UNUSED''"
| "state_name EMBRYO = ''EMBRYO''"
| "state_name SLEEPING = ''SLEEPING''"
| "state_name RUNNABLE = ''RUNNABLE''"
| "state_name RUNNING = ''RUNNING''"
| "state_name ZOMBIE = ''ZOMBIE''"

text \<open>The string in a character array, as \<open>%s\<close> prints it.\<close>

definition cstring :: "u8 list \<Rightarrow> u8 list" where
  "cstring xs = takeWhile (\<lambda>c. c \<noteq> 0) xs"

definition ps :: "int K" where
  "ps =
     kseq (acquire PtableLock) (
     kseq (kfor [0..<NPROC] (\<lambda>i.
       kbind (get_proc i) (\<lambda>p.
       kwhen (p_state p = RUNNABLE \<or> p_state p = RUNNING \<or> p_state p = SLEEPING)
         (cprintf (''pid:%d name:%s state:%s priority:%d'' @ [CHR 0x0A])
            [ArgInt (p_pid p), ArgStr (Some (cstring (p_name p))),
             ArgStr (Some (bytes (state_name (p_state p)))), ArgInt (of_int (p_priority p))])))) (
     kseq (release PtableLock) (kret 0)))"

definition set_priority :: "u32 \<Rightarrow> int \<Rightarrow> int K" where
  "set_priority pid new_priority =
     (if new_priority \<le> 0 \<or> new_priority > 20 then kret (-1)
      else
        kseq (acquire PtableLock) (
        kbind (kget (\<lambda>s. find_slot (\<lambda>q. p_pid q = pid) (k_ptable s))) (\<lambda>r.
        kseq (case r of
                None \<Rightarrow> kret ()
              | Some p \<Rightarrow> upd_proc p (\<lambda>q. q\<lparr>p_priority := new_priority\<rparr>)) (
        kseq (release PtableLock) (kret 0)))))"

definition get_priority :: "u32 \<Rightarrow> int K" where
  "get_priority pid =
     kseq (acquire PtableLock) (
     kbind (kget (\<lambda>s. case find_slot (\<lambda>q. p_pid q = pid) (k_ptable s) of
              None \<Rightarrow> -1 | Some p \<Rightarrow> p_priority (k_ptable s ! p))) (\<lambda>val.
     kseq (release PtableLock) (kret val)))"

section \<open>The scheduler\<close>

text \<open>The two inner loops of \<open>scheduler\<close>: first the slots from \<open>p\<close> to the end of the
  table, then those before \<open>p\<close>; a slot replaces the best one so far only if its
  priority is strictly higher.\<close>

fun scan_highest :: "proc list \<Rightarrow> nat list \<Rightarrow> nat \<Rightarrow> nat" where
  "scan_highest tab [] highestp = highestp"
| "scan_highest tab (p1 # rest) highestp =
     scan_highest tab rest
       (if p_state (tab ! p1) \<noteq> RUNNABLE then highestp
        else if p_priority (tab ! p1) > p_priority (tab ! highestp) then p1
        else highestp)"

definition pick_highest :: "proc list \<Rightarrow> nat \<Rightarrow> nat" where
  "pick_highest tab p = scan_highest tab [0..<p] (scan_highest tab [p..<length tab] p)"

text \<open>The body of the scheduler's loop at a runnable slot \<open>p\<close>, up to \<open>swtch\<close>.\<close>

definition scheduler_dispatch :: "nat \<Rightarrow> nat K" where
  "scheduler_dispatch p =
     kbind (kget (\<lambda>s. pick_highest (k_ptable s) p)) (\<lambda>highestp.
     kseq (kmod (\<lambda>s. s\<lparr>k_curproc := Some highestp\<rparr>)) (
     kseq (switchuvm (Some highestp)) (
     kseq (upd_proc highestp (\<lambda>q. q\<lparr>p_state := RUNNING\<rparr>)) (
     kret highestp))))"

text \<open>What \<open>scheduler\<close> does before its first round.\<close>

definition scheduler_start :: "unit K" where
  "scheduler_start = kseq (kmod (\<lambda>s. s\<lparr>k_curproc := None\<rparr>)) (acquire PtableLock)"

text \<open>The \<open>for\<close> loop over the slots that are left, up to the next \<open>swtch\<close> or the end
  of the table.\<close>

fun scheduler_scan :: "nat list \<Rightarrow> nat option K" where
  "scheduler_scan [] = kret None"
| "scheduler_scan (p # rest) =
     kbind (get_proc p) (\<lambda>q.
     if p_state q \<noteq> RUNNABLE then scheduler_scan rest
     else kbind (scheduler_dispatch p) (\<lambda>h. kret (Some h)))"

text \<open>What the scheduler does when the process has given the processor back: the
  loop goes on with the slot after it.\<close>

definition scheduler_back :: "unit K" where
  "scheduler_back = kseq switchkvm (kmod (\<lambda>s. s\<lparr>k_curproc := None\<rparr>))"

text \<open>The scheduler from loop position \<open>p\<close> to the next process it runs (\<open>Some\<close>), or
  to the start of the next round of the outer loop (\<open>None\<close>).\<close>

definition scheduler :: "nat \<Rightarrow> nat option K" where
  "scheduler p =
     kbind (scheduler_scan [p..<NPROC]) (\<lambda>r.
     case r of
       Some h \<Rightarrow> kret (Some h)
     | None \<Rightarrow> kseq (release PtableLock) (kseq (acquire PtableLock) (kret None)))"

text \<open>The aging loop of \<open>proc_3.c\<close>, run after each process gives the processor back.\<close>

definition age :: "proc \<Rightarrow> proc" where
  "age q =
     (if p_state q \<noteq> RUNNABLE \<and> p_state q \<noteq> RUNNING then q
      else
        let q = q\<lparr>p_counter := p_counter q + 1\<rparr> in
        if p_counter q = 50 then
          let q = q\<lparr>p_counter := 0\<rparr> in
          if p_priority q < 20 then q\<lparr>p_priority := p_priority q + 1\<rparr> else q
        else q)"

definition age_procs :: "unit K" where
  "age_procs = kmod (\<lambda>s. s\<lparr>k_ptable := map age (k_ptable s)\<rparr>)"

definition scheduler_back_3 :: "unit K" where
  "scheduler_back_3 =
     kseq switchkvm (kseq age_procs (kmod (\<lambda>s. s\<lparr>k_curproc := None\<rparr>)))"

section \<open>Giving up the processor\<close>

text \<open>\<open>ncli\<close> is the number of locks held, and while it is not zero interrupts are
  off (see the theory of \<open>spinlock.c\<close>).\<close>

definition sched :: "unit K" where
  "sched =
     kbind (kget k_held) (\<lambda>held.
     if PtableLock \<notin> set held then kpanic ''sched ptable.lock''
     else if length held \<noteq> 1 then kpanic ''sched locks''
     else
       kbind curproc (\<lambda>p.
       kbind (get_proc p) (\<lambda>q.
       if p_state q = RUNNING then kpanic ''sched running''
       else kswitch)))"

definition yield :: "unit K" where
  "yield =
     kseq (acquire PtableLock) (
     kbind curproc (\<lambda>p.
     kseq (upd_proc p (\<lambda>q. q\<lparr>p_state := RUNNABLE\<rparr>)) (
     kseq sched (
     release PtableLock))))"

definition sleep_resume :: "nat \<Rightarrow> lockid \<Rightarrow> unit K" where
  "sleep_resume p lk =
     kseq (upd_proc p (\<lambda>q. q\<lparr>p_chan := None\<rparr>)) (
     kwhen (lk \<noteq> PtableLock) (kseq (release PtableLock) (acquire lk)))"

definition sleep :: "chan \<Rightarrow> lockid \<Rightarrow> unit K" where
  "sleep chan lk =
     kbind myproc (\<lambda>mp.
     case mp of
       None \<Rightarrow> kpanic ''sleep''
     | Some p \<Rightarrow>
         kseq (kwhen (lk \<noteq> PtableLock) (kseq (acquire PtableLock) (release lk))) (
         kseq (upd_proc p (\<lambda>q. q\<lparr>p_chan := Some chan\<rparr>)) (
         kseq (upd_proc p (\<lambda>q. q\<lparr>p_state := SLEEPING\<rparr>)) (
         kseq sched (
         sleep_resume p lk)))))"

definition wake :: "chan option \<Rightarrow> proc \<Rightarrow> proc" where
  "wake chan q =
     (if p_state q = SLEEPING \<and> p_chan q = chan then q\<lparr>p_state := RUNNABLE\<rparr> else q)"

definition wakeup1 :: "chan option \<Rightarrow> unit K" where
  "wakeup1 chan = kmod (\<lambda>s. s\<lparr>k_ptable := map (wake chan) (k_ptable s)\<rparr>)"

definition wakeup :: "chan \<Rightarrow> unit K" where
  "wakeup chan =
     kseq (acquire PtableLock) (kseq (wakeup1 (Some chan)) (release PtableLock))"

definition kill :: "u32 \<Rightarrow> int K" where
  "kill pid =
     kseq (acquire PtableLock) (
     kbind (kget (\<lambda>s. find_slot (\<lambda>q. p_pid q = pid) (k_ptable s))) (\<lambda>r.
     case r of
       None \<Rightarrow> kseq (release PtableLock) (kret (-1))
     | Some p \<Rightarrow>
         kseq (upd_proc p (\<lambda>q. q\<lparr>p_killed := True\<rparr>)) (
         kseq (upd_proc p (\<lambda>q. if p_state q = SLEEPING then q\<lparr>p_state := RUNNABLE\<rparr> else q)) (
         kseq (release PtableLock) (kret 0)))))"

section \<open>Waiting for children\<close>

definition reap :: "nat \<Rightarrow> u32 K" where
  "reap i =
     kbind (get_proc i) (\<lambda>q.
     kseq (kfree (p_kstack q)) (
     kseq (upd_proc i (\<lambda>q. q\<lparr>p_kstack := 0\<rparr>)) (
     kseq (freevm (p_pgdir q)) (
     kseq (upd_proc i (\<lambda>q. q\<lparr>p_pid := 0, p_parent := None, p_name := (p_name q)[0 := 0],
       p_killed := False, p_state := UNUSED\<rparr>)) (
     kret (p_pid q))))))"

text \<open>One pass of \<open>wait\<close>'s loop, entered with the table locked. When the process
  has to sleep, the next pass runs in \<open>wait_resume\<close>.\<close>

definition wait_pass :: "nat \<Rightarrow> u32 K" where
  "wait_pass cur =
     kbind (kget (\<lambda>s. find_slot (\<lambda>q. p_parent q = Some cur \<and> p_state q = ZOMBIE) (k_ptable s))) (\<lambda>r.
     case r of
       Some i \<Rightarrow> kbind (reap i) (\<lambda>pid. kseq (release PtableLock) (kret pid))
     | None \<Rightarrow>
         kbind (kget (\<lambda>s. \<exists>q \<in> set (k_ptable s). p_parent q = Some cur)) (\<lambda>havekids.
         kbind (get_proc cur) (\<lambda>q.
         if \<not> havekids \<or> p_killed q then kseq (release PtableLock) (kret (-1))
         else kseq (sleep (ChanProc cur) PtableLock) (kret 0))))"

definition wait :: "u32 K" where
  "wait = kbind curproc (\<lambda>cur. kseq (acquire PtableLock) (wait_pass cur))"

definition wait_resume :: "nat \<Rightarrow> u32 K" where
  "wait_resume cur = kseq (sleep_resume cur PtableLock) (wait_pass cur)"

section \<open>Growing a process\<close>

definition growproc :: "u32 \<Rightarrow> int K" where
  "growproc n =
     kbind curproc (\<lambda>p.
     kbind (get_proc p) (\<lambda>q.
     let sz = p_sz q in
     kbind (if 0 <s n then allocuvm (p_pgdir q) sz (sz + n)
            else if n <s 0 then deallocuvm (p_pgdir q) sz (sz + n)
            else kret sz) (\<lambda>sz'.
     if n \<noteq> 0 \<and> sz' = 0 then kret (-1)
     else
       kseq (upd_proc p (\<lambda>q. q\<lparr>p_sz := sz'\<rparr>)) (
       kseq (switchuvm (Some p)) (kret 0)))))"

section \<open>Listing processes\<close>

text \<open>\<open>getcallerpcs\<close> (spinlock.c): the return addresses found by following the saved
  frame pointers, padded with zeros to ten.\<close>

fun callerpcs :: "mem \<Rightarrow> u32 \<Rightarrow> nat \<Rightarrow> u32 list" where
  "callerpcs m ebp 0 = []"
| "callerpcs m ebp (Suc n) =
     (if ebp = 0 \<or> ebp < KERNBASE \<or> ebp = 0xffffffff then replicate (Suc n) 0
      else ld32 m (ebp + 4) # callerpcs m (ld32 m ebp) n)"

definition getcallerpcs :: "mem \<Rightarrow> u32 \<Rightarrow> u32 list" where
  "getcallerpcs m v = callerpcs m (v - 8) 10"

fun dump_name :: "procstate \<Rightarrow> string" where
  "dump_name UNUSED = ''unused''"
| "dump_name EMBRYO = ''embryo''"
| "dump_name SLEEPING = ''sleep ''"
| "dump_name RUNNABLE = ''runble''"
| "dump_name RUNNING = ''run   ''"
| "dump_name ZOMBIE = ''zombie''"

definition procdump :: "unit K" where
  "procdump =
     kfor [0..<NPROC] (\<lambda>i.
     kbind (get_proc i) (\<lambda>p.
     kwhen (p_state p \<noteq> UNUSED) (
       kseq (cprintf ''%d %s %s'' [ArgInt (p_pid p), ArgStr (Some (bytes (dump_name (p_state p)))),
         ArgStr (Some (cstring (p_name p)))]) (
       kseq (kwhen (p_state p = SLEEPING) (
         kbind (kget (\<lambda>s. getcallerpcs (k_mem s) (cx_ebp (p_context p) + 8))) (\<lambda>pcs.
         kfor (takeWhile (\<lambda>pc. pc \<noteq> 0) pcs) (\<lambda>pc. cprintf '' %p'' [ArgInt pc])))) (
       cprintf [CHR 0x0A] [])))))"

section \<open>The scheduler's choice\<close>

lemma scan_highest_append: "scan_highest tab (xs @ ys) h = scan_highest tab ys (scan_highest tab xs h)"
  by (induction xs arbitrary: h) auto

text \<open>The scan yields, in the order it visits the slots, the first of those with
  the highest priority.\<close>

lemma scan_highest_first:
  assumes "p_state (tab ! h) = RUNNABLE"
  shows "\<exists>pre suf. h # js = pre @ scan_highest tab js h # suf \<and>
     p_state (tab ! scan_highest tab js h) = RUNNABLE \<and>
     (\<forall>j \<in> set pre. p_state (tab ! j) = RUNNABLE \<longrightarrow>
        p_priority (tab ! j) < p_priority (tab ! scan_highest tab js h)) \<and>
     (\<forall>j \<in> set suf. p_state (tab ! j) = RUNNABLE \<longrightarrow>
        p_priority (tab ! j) \<le> p_priority (tab ! scan_highest tab js h))"
  using assms
proof (induction js arbitrary: h rule: rev_induct)
  case Nil
  then show ?case by (intro exI [of _ "[]"]) simp
next
  case (snoc j js)
  let ?r = "scan_highest tab js h"
  from snoc.IH [OF snoc.prems] obtain pre suf where
    IH: "h # js = pre @ ?r # suf" "p_state (tab ! ?r) = RUNNABLE"
      "\<forall>j \<in> set pre. p_state (tab ! j) = RUNNABLE \<longrightarrow> p_priority (tab ! j) < p_priority (tab ! ?r)"
      "\<forall>j \<in> set suf. p_state (tab ! j) = RUNNABLE \<longrightarrow> p_priority (tab ! j) \<le> p_priority (tab ! ?r)"
    by blast
  show ?case
  proof (cases "p_state (tab ! j) = RUNNABLE \<and> p_priority (tab ! j) > p_priority (tab ! ?r)")
    case True
    then have "scan_highest tab (js @ [j]) h = j" by (simp add: scan_highest_append)
    moreover have "\<forall>i \<in> set (h # js). p_state (tab ! i) = RUNNABLE \<longrightarrow>
        p_priority (tab ! i) < p_priority (tab ! j)"
      unfolding IH(1) using IH(2-4) True by auto
    ultimately show ?thesis using True by (intro exI [of _ "h # js"] exI [of _ "[]"]) simp
  next
    case False
    then have "scan_highest tab (js @ [j]) h = ?r" by (auto simp: scan_highest_append)
    moreover have "h # js @ [j] = pre @ ?r # suf @ [j]" using IH(1) by simp
    ultimately show ?thesis using IH(2-4) False
      by (intro exI [of _ pre] exI [of _ "suf @ [j]"]) auto
  qed
qed

text \<open>The slots in the order the scheduler visits them from \<open>p\<close>.\<close>

definition cyclic :: "nat \<Rightarrow> nat \<Rightarrow> nat list" where
  "cyclic p n = [p..<n] @ [0..<p]"

lemma set_cyclic: "p < n \<Longrightarrow> set (cyclic p n) = {0..<n}"
  by (auto simp: cyclic_def)

lemma pick_highest_first:
  assumes "p < length tab" and "p_state (tab ! p) = RUNNABLE"
  shows "\<exists>pre suf. cyclic p (length tab) = pre @ pick_highest tab p # suf \<and>
     p_state (tab ! pick_highest tab p) = RUNNABLE \<and>
     (\<forall>j \<in> set pre. p_state (tab ! j) = RUNNABLE \<longrightarrow>
        p_priority (tab ! j) < p_priority (tab ! pick_highest tab p)) \<and>
     (\<forall>j \<in> set suf. p_state (tab ! j) = RUNNABLE \<longrightarrow>
        p_priority (tab ! j) \<le> p_priority (tab ! pick_highest tab p))"
proof -
  have c: "cyclic p (length tab) = p # [Suc p..<length tab] @ [0..<p]"
    using assms(1) by (simp add: cyclic_def upt_conv_Cons)
  have "pick_highest tab p = scan_highest tab ([Suc p..<length tab] @ [0..<p]) p"
    using assms(1) by (simp add: pick_highest_def scan_highest_append upt_conv_Cons)
  with scan_highest_first [OF assms(2), of "[Suc p..<length tab] @ [0..<p]"] c
  show ?thesis by simp
qed

lemma pick_highest_max:
  assumes "p < length tab" and "p_state (tab ! p) = RUNNABLE"
  shows "pick_highest tab p < length tab" "p_state (tab ! pick_highest tab p) = RUNNABLE"
    "j < length tab \<Longrightarrow> p_state (tab ! j) = RUNNABLE \<Longrightarrow>
       p_priority (tab ! j) \<le> p_priority (tab ! pick_highest tab p)"
proof -
  from pick_highest_first [OF assms] obtain pre suf where
    h: "cyclic p (length tab) = pre @ pick_highest tab p # suf"
      "p_state (tab ! pick_highest tab p) = RUNNABLE"
      "\<forall>j \<in> set pre. p_state (tab ! j) = RUNNABLE \<longrightarrow>
        p_priority (tab ! j) < p_priority (tab ! pick_highest tab p)"
      "\<forall>j \<in> set suf. p_state (tab ! j) = RUNNABLE \<longrightarrow>
        p_priority (tab ! j) \<le> p_priority (tab ! pick_highest tab p)"
    by blast
  have s: "{0..<length tab} = set pre \<union> {pick_highest tab p} \<union> set suf"
    using h(1) set_cyclic [OF assms(1)] by (metis list.simps(15) set_append sup_assoc insert_is_Un)
  then show "pick_highest tab p < length tab" by auto
  show "p_state (tab ! pick_highest tab p) = RUNNABLE" by (rule h(2))
  show "j < length tab \<Longrightarrow> p_state (tab ! j) = RUNNABLE \<Longrightarrow>
       p_priority (tab ! j) \<le> p_priority (tab ! pick_highest tab p)"
    using h(3,4) s by (metis UnE atLeastLessThan_iff less_eq_nat.simps(1) order_refl order_less_imp_le singletonD)
qed

text \<open>A process the scheduler may switch to.\<close>

definition switchable :: "proc \<Rightarrow> bool" where
  "switchable q \<longleftrightarrow> (p_state q = RUNNABLE \<longrightarrow> p_kstack q \<noteq> 0 \<and> p_pgdir q \<noteq> 0)"

lemma switchuvm_run [krun]:
  "switchuvm (Some i) s =
     (if p_kstack (k_ptable s ! i) = 0 then Panic ''switchuvm: no kstack''
      else if p_pgdir (k_ptable s ! i) = 0 then Panic ''switchuvm: no pgdir''
      else Ok () (s\<lparr>k_esp0 := p_kstack (k_ptable s ! i) + KSTACKSIZE,
                     k_cr3 := V2P (p_pgdir (k_ptable s ! i))\<rparr>))"
  by (simp add: switchuvm_def krun)

lemma scheduler_dispatch_run:
  assumes "p < length (k_ptable s)" "p_state (k_ptable s ! p) = RUNNABLE"
    and "list_all switchable (k_ptable s)" "h = pick_highest (k_ptable s) p" "q = k_ptable s ! h"
  shows "scheduler_dispatch p s =
     Ok h (s\<lparr>k_curproc := Some h, k_esp0 := p_kstack q + KSTACKSIZE, k_cr3 := V2P (p_pgdir q),
             k_ptable := (k_ptable s)[h := q\<lparr>p_state := RUNNING\<rparr>]\<rparr>)"
proof -
  note h = pick_highest_max [OF assms(1,2), folded assms(4)]
  have "p_kstack q \<noteq> 0" "p_pgdir q \<noteq> 0"
    using assms(3,5) h(1,2) by (auto simp: list_all_length switchable_def)
  then show ?thesis
    by (simp add: scheduler_dispatch_def krun assms(4) [symmetric] assms(5) [symmetric])
qed

lemma scheduler_scan_None:
  "(\<forall>j \<in> set js. p_state (k_ptable s ! j) \<noteq> RUNNABLE) \<Longrightarrow> scheduler_scan js s = Ok None s"
  by (induction js) (simp_all add: krun)

lemma scheduler_scan_skip:
  "(\<forall>j \<in> set js. p_state (k_ptable s ! j) \<noteq> RUNNABLE) \<Longrightarrow>
     scheduler_scan (js @ ks) s = scheduler_scan ks s"
  by (induction js) (simp_all add: krun)

lemma first_runnable:
  fixes c n :: nat
  assumes "\<exists>j. c \<le> j \<and> j < n \<and> P j"
  obtains p where "c \<le> p" "p < n" "P p" "\<forall>j. c \<le> j \<and> j < p \<longrightarrow> \<not> P j"
proof -
  let ?p = "LEAST j. c \<le> j \<and> j < n \<and> P j"
  have "c \<le> ?p \<and> ?p < n \<and> P ?p" 
    using LeastI_ex [of "\<lambda>j. c \<le> j \<and> j < n \<and> P j"] assms by blast
  moreover have "\<forall>j. c \<le> j \<and> j < ?p \<longrightarrow> \<not> P j"
    using not_less_Least [of _ "\<lambda>j. c \<le> j \<and> j < n \<and> P j"] calculation
    by (metis less_trans)
  ultimately show ?thesis using that by blast
qed

text \<open>From loop position \<open>c\<close>, the scheduler stops at the first runnable slot \<open>p\<close> and
  runs the process it chooses there.\<close>

lemma scheduler_runs:
  assumes "length (k_ptable s) = NPROC" "list_all switchable (k_ptable s)"
    and "c \<le> j" "j < NPROC" "p_state (k_ptable s ! j) = RUNNABLE"
  obtains p h q where "c \<le> p" "p \<le> j" "p_state (k_ptable s ! p) = RUNNABLE"
    "h = pick_highest (k_ptable s) p" "q = k_ptable s ! h"
    "scheduler c s =
       Ok (Some h) (s\<lparr>k_curproc := Some h, k_esp0 := p_kstack q + KSTACKSIZE,
         k_cr3 := V2P (p_pgdir q), k_ptable := (k_ptable s)[h := q\<lparr>p_state := RUNNING\<rparr>]\<rparr>)"
proof -
  obtain p where p: "c \<le> p" "p < NPROC" "p_state (k_ptable s ! p) = RUNNABLE"
    "\<forall>j. c \<le> j \<and> j < p \<longrightarrow> p_state (k_ptable s ! j) \<noteq> RUNNABLE"
    using first_runnable [of c NPROC "\<lambda>j. p_state (k_ptable s ! j) = RUNNABLE"] assms(3-5) by blast
  have "p \<le> j" using p(4) assms(3,5) by (meson not_less)
  have split: "[c..<NPROC] = [c..<p] @ p # [Suc p..<NPROC]"
    using p(1,2) upt_add_eq_append [of c p "NPROC - p"] by (simp add: upt_conv_Cons)
  have "p < length (k_ptable s)" using p(2) assms(1) by simp
  note d = scheduler_dispatch_run [OF this p(3) assms(2) refl refl]
  have "scheduler_scan ([c..<p] @ p # [Suc p..<NPROC]) s =
      scheduler_scan (p # [Suc p..<NPROC]) s"
    by (rule scheduler_scan_skip) (use p(4) in simp)
  then have "scheduler c s = (case scheduler_dispatch p s of
      Ok h t \<Rightarrow> Ok (Some h) t | Panic e \<Rightarrow> Panic e | Switch t \<Rightarrow> Switch t)"
    unfolding scheduler_def kbind_run split using p(3)
    by (simp add: krun split: outcome.splits)
  with d show ?thesis by (intro that [OF p(1) \<open>p \<le> j\<close> p(3) refl refl]) simp
qed

lemma scheduler_idle:
  assumes "\<forall>j. c \<le> j \<and> j < NPROC \<longrightarrow> p_state (k_ptable s ! j) \<noteq> RUNNABLE"
    and "k_held s = [PtableLock]"
  shows "scheduler c s = Ok None s"
proof -
  have "scheduler_scan [c..<NPROC] s = Ok None s"
    using assms(1) by (intro scheduler_scan_None) simp
  with assms(2) show ?thesis by (simp add: scheduler_def krun)
qed

section \<open>Priorities and aging\<close>

lemma age_state [simp]: "p_state (age q) = p_state q"
  by (simp add: age_def Let_def)

lemma age_running:
  assumes "p_state q = RUNNABLE \<or> p_state q = RUNNING"
  shows "p_counter (age q) = (if p_counter q = 49 then 0 else p_counter q + 1)"
    and "p_priority (age q) =
      (if p_counter q = 49 \<and> p_priority q < 20 then p_priority q + 1 else p_priority q)"
  using assms by (auto simp: age_def Let_def)

lemma succ_div_mod_50:
  fixes x :: int
  shows "x mod 50 = 49 \<Longrightarrow> (x + 1) mod 50 = 0 \<and> (x + 1) div 50 = x div 50 + 1"
    and "x mod 50 \<noteq> 49 \<Longrightarrow> (x + 1) mod 50 = x mod 50 + 1 \<and> (x + 1) div 50 = x div 50"
proof -
  obtain d r where x: "x = 50 * d + r" and d: "d = x div 50" and r: "r = x mod 50"
    by (metis mult_div_mod_eq)
  show "(x + 1) mod 50 = 0 \<and> (x + 1) div 50 = x div 50 + 1" if "x mod 50 = 49"
  proof -
    have "x + 1 = (d + 1) * 50" using x r that by simp
    then show ?thesis unfolding d by (metis mod_mult_self2_is_0 nonzero_mult_div_cancel_right zero_neq_numeral)
  qed
  show "(x + 1) mod 50 = x mod 50 + 1 \<and> (x + 1) div 50 = x div 50" if "x mod 50 \<noteq> 49"
  proof -
    have "0 \<le> r + 1" "r + 1 < 50"
      using that pos_mod_bound [of 50 x] pos_mod_sign [of 50 x] unfolding r by auto
    moreover have "x + 1 = (r + 1) + 50 * d" using x by simp
    ultimately show ?thesis unfolding d r
      by (metis div_pos_pos_trivial div_mult_self2 mod_mult_self2 mod_pos_pos_trivial
          add.left_neutral add.commute zero_neq_numeral)
  qed
qed

lemma age_pow:
  assumes "p_state q = RUNNABLE \<or> p_state q = RUNNING" "0 \<le> p_counter q" "p_counter q < 50"
    and "p_priority q \<le> 20"
  shows "p_counter ((age ^^ n) q) = (p_counter q + int n) mod 50 \<and>
     p_priority ((age ^^ n) q) = min 20 (p_priority q + (p_counter q + int n) div 50) \<and>
     p_state ((age ^^ n) q) = p_state q"
proof (induction n)
  case 0
  then show ?case using assms by simp
next
  case (Suc n)
  let ?q = "(age ^^ n) q" and ?c = "p_counter q + int n"
  have run: "p_state ?q = RUNNABLE \<or> p_state ?q = RUNNING" using Suc assms(1) by auto
  have c: "p_counter q + int (Suc n) = ?c + 1" by simp
  show ?case
  proof (cases "?c mod 50 = 49")
    case True
    with succ_div_mod_50(1) [OF True] Suc run show ?thesis unfolding c by (auto simp: age_running)
  next
    case False
    then have "?c mod 50 + 1 \<noteq> 50" by linarith
    with succ_div_mod_50(2) [OF False] Suc run show ?thesis unfolding c by (auto simp: age_running)
  qed
qed

section \<open>Running the operations on the process table\<close>

text \<open>The locked operations in closed form, for a caller that does not hold the
  table lock.\<close>

lemma set_priority_run:
  assumes "PtableLock \<notin> set (k_held s)"
  shows "set_priority pid n s =
     (if n \<le> 0 \<or> n > 20 then Ok (-1) s
      else case find_slot (\<lambda>q. p_pid q = pid) (k_ptable s) of
          None \<Rightarrow> Ok 0 s
        | Some p \<Rightarrow> Ok 0 (s\<lparr>k_ptable := (k_ptable s)[p := (k_ptable s ! p)\<lparr>p_priority := n\<rparr>]\<rparr>))"
  using assms by (auto simp: set_priority_def krun split: option.splits)

lemma get_priority_run:
  assumes "PtableLock \<notin> set (k_held s)"
  shows "get_priority pid s =
     Ok (case find_slot (\<lambda>q. p_pid q = pid) (k_ptable s) of
           None \<Rightarrow> -1 | Some p \<Rightarrow> p_priority (k_ptable s ! p)) s"
  using assms by (auto simp: get_priority_def krun split: option.splits)

lemma kill_run:
  assumes "PtableLock \<notin> set (k_held s)"
  shows "kill pid s =
     (case find_slot (\<lambda>q. p_pid q = pid) (k_ptable s) of
        None \<Rightarrow> Ok (-1) s
      | Some p \<Rightarrow>
          let q = (k_ptable s ! p)\<lparr>p_killed := True\<rparr> in
          Ok 0 (s\<lparr>k_ptable := (k_ptable s)
            [p := if p_state q = SLEEPING then q\<lparr>p_state := RUNNABLE\<rparr> else q]\<rparr>))"
  using assms find_slot_SomeD(1) [of "\<lambda>q. p_pid q = pid" "k_ptable s"]
  by (auto simp: kill_def krun Let_def split: option.splits)

lemma wakeup_run:
  assumes "PtableLock \<notin> set (k_held s)"
  shows "wakeup ch s = Ok () (s\<lparr>k_ptable := map (wake (Some ch)) (k_ptable s)\<rparr>)"
  using assms by (simp add: wakeup_def wakeup1_def krun)

lemma sched_run [krun]:
  "sched s =
     (if PtableLock \<notin> set (k_held s) then Panic ''sched ptable.lock''
      else if length (k_held s) \<noteq> 1 then Panic ''sched locks''
      else case k_curproc s of
          None \<Rightarrow> Panic ''trap''
        | Some p \<Rightarrow> if p_state (k_ptable s ! p) = RUNNING then Panic ''sched running'' else Switch s)"
  by (simp add: sched_def krun split: option.splits)

lemma sleep_run:
  assumes "k_curproc s = Some p" "p < length (k_ptable s)"
    and "lk \<noteq> PtableLock \<and> k_held s = [lk] \<or> lk = PtableLock \<and> k_held s = [PtableLock]"
  shows "sleep ch lk s =
     Switch (s\<lparr>k_held := [PtableLock],
       k_ptable := (k_ptable s)[p := (k_ptable s ! p)\<lparr>p_chan := Some ch, p_state := SLEEPING\<rparr>]\<rparr>)"
  using assms by (auto simp: sleep_def krun)

lemma yield_run:
  assumes "k_curproc s = Some p" "p < length (k_ptable s)" "k_held s = []"
  shows "yield s =
     Switch (s\<lparr>k_held := [PtableLock],
       k_ptable := (k_ptable s)[p := (k_ptable s ! p)\<lparr>p_state := RUNNABLE\<rparr>]\<rparr>)"
  using assms by (simp add: yield_def krun)

text \<open>\<open>sleep\<close> and \<open>yield\<close> never return to their caller directly.\<close>

lemma sched_not_Ok [simp]: "sched s \<noteq> Ok u t"
  by (simp add: sched_run split: option.splits)

lemma sleep_not_Ok [simp]: "sleep ch lk s \<noteq> Ok u t"
  by (auto simp: sleep_def kOk myproc_run split: option.splits)

lemma yield_not_Ok [simp]: "yield s \<noteq> Ok u t"
  by (auto simp: yield_def kOk)

section \<open>Invariants on the entries of the process table\<close>

definition tab_all :: "(proc \<Rightarrow> bool) \<Rightarrow> kernel \<Rightarrow> bool" where
  "tab_all I s \<longleftrightarrow> list_all I (k_ptable s)"

lemma mem_blind_tab_all [keep_intros, simp]: "mem_blind (tab_all I)"
  by (simp add: mem_blind_def tab_all_def)

lemma tab_allD: "tab_all I s \<Longrightarrow> i < length (k_ptable s) \<Longrightarrow> I (k_ptable s ! i)"
  by (simp add: tab_all_def list_all_length)

lemma keeps_tab_upd: "(\<And>q. I q \<Longrightarrow> I (f q)) \<Longrightarrow> keeps (tab_all I) (upd_proc i f)"
  by (rule keeps_upd_proc, simp add: tab_all_def, rule list_all_update, assumption)
    (simp add: list_all_length)

lemma keeps_tab_map: "(\<And>q. I q \<Longrightarrow> I (f q)) \<Longrightarrow>
    keeps (tab_all I) (kmod (\<lambda>s. s\<lparr>k_ptable := map f (k_ptable s)\<rparr>))"
  by (rule keeps_kmod) (auto simp: tab_all_def list_all_iff)

lemma keeps_tab_other [keep_intros]:
  "(\<And>s. k_ptable (f s) = k_ptable s) \<Longrightarrow> keeps (tab_all I) (kmod f)"
  by (rule keeps_kmod) (simp add: tab_all_def)

lemma keeps_tab_switchuvm [keep_intros]: "keeps (tab_all I) (switchuvm p)"
  unfolding switchuvm_def by (intro keep_intros) simp_all

lemma keeps_sched [keep_intros]: "keeps P sched"
  unfolding sched_def by (intro keep_intros)

lemma keeps_get_priority [keep_intros]: "mem_blind P \<Longrightarrow> keeps P (get_priority pid)"
  unfolding get_priority_def by (intro keep_intros)

lemma keeps_ps [keep_intros]: "mem_blind P \<Longrightarrow> keeps P ps"
  unfolding ps_def by (intro keep_intros)

lemma keeps_procdump [keep_intros]: "mem_blind P \<Longrightarrow> keeps P procdump"
  unfolding procdump_def by (intro keep_intros)

text \<open>Updates of an entry that leave its identity, its scheduling data and the sizes of
  its arrays alone.\<close>

definition harmless :: "(proc \<Rightarrow> proc) \<Rightarrow> bool" where
  "harmless f \<longleftrightarrow> (\<forall>q. p_pid (f q) = p_pid q \<and> p_priority (f q) = p_priority q \<and>
     p_counter (f q) = p_counter q \<and> length (p_ofile (f q)) = length (p_ofile q) \<and>
     (length (p_name q) = 16 \<longrightarrow> length (p_name (f q)) = 16))"

text \<open>What a property of table entries needs for every operation to keep it.\<close>

locale entry_inv =
  fixes I :: "proc \<Rightarrow> bool"
  assumes harmless: "harmless f \<Longrightarrow> I q \<Longrightarrow> I (f q)"
    and claim: "I q \<Longrightarrow> I (q\<lparr>p_pid := n, p_priority := 5, p_counter := 0\<rparr>)"
    and prio: "I q \<Longrightarrow> 1 \<le> m \<Longrightarrow> m \<le> 20 \<Longrightarrow> I (q\<lparr>p_priority := m\<rparr>)"
    and unclaim: "I q \<Longrightarrow> I (q\<lparr>p_pid := 0\<rparr>)"
    and age: "I q \<Longrightarrow> I (age q)"
begin

lemma keeps_upd_harmless [keep_intros]: "harmless f \<Longrightarrow> keeps (tab_all I) (upd_proc i f)"
  by (rule keeps_tab_upd) (rule harmless)

lemma keeps_set_priority [keep_intros]: "keeps (tab_all I) (set_priority pid n)"
proof (cases "n \<le> 0 \<or> n > 20")
  case True
  then show ?thesis by (simp add: set_priority_def keeps_kret)
next
  case False
  then show ?thesis
    unfolding set_priority_def by (auto intro!: keep_intros keeps_tab_upd prio)
qed

lemma keeps_wakeup1 [keep_intros]: "keeps (tab_all I) (wakeup1 ch)"
  unfolding wakeup1_def by (rule keeps_tab_map, rule harmless) (simp_all add: harmless_def wake_def)

lemma keeps_wakeup [keep_intros]: "keeps (tab_all I) (wakeup ch)"
  unfolding wakeup_def by (intro keep_intros)

lemma keeps_sleep_resume [keep_intros]: "keeps (tab_all I) (sleep_resume p lk)"
  unfolding sleep_resume_def by (intro keep_intros) (simp_all add: harmless_def)

lemma keeps_sleep [keep_intros]: "keeps (tab_all I) (sleep ch lk)"
  unfolding sleep_def by (intro keep_intros) (simp_all add: harmless_def)

lemma keeps_yield [keep_intros]: "keeps (tab_all I) yield"
  unfolding yield_def by (intro keep_intros) (simp_all add: harmless_def)

lemma keeps_kill [keep_intros]: "keeps (tab_all I) (kill pid)"
  unfolding kill_def by (intro keep_intros) (simp_all add: harmless_def)

lemma keeps_reap [keep_intros]: "keeps (tab_all I) (reap i)"
proof -
  have "keeps (tab_all I) (upd_proc i (\<lambda>q. q\<lparr>p_pid := 0, p_parent := None,
      p_name := (p_name q)[0 := 0], p_killed := False, p_state := UNUSED\<rparr>))"
  proof (rule keeps_tab_upd)
    fix q
    assume "I q"
    from harmless [OF _ unclaim [OF this], of "\<lambda>q. q\<lparr>p_parent := None,
        p_name := (p_name q)[0 := 0], p_killed := False, p_state := UNUSED\<rparr>"]
    show "I (q\<lparr>p_pid := 0, p_parent := None, p_name := (p_name q)[0 := 0], p_killed := False,
        p_state := UNUSED\<rparr>)"
      by (simp add: harmless_def)
  qed
  note last = this
  show ?thesis
    unfolding reap_def by (rule last keep_intros | simp add: harmless_def)+
qed

lemma keeps_wait_pass [keep_intros]: "keeps (tab_all I) (wait_pass cur)"
  unfolding wait_pass_def by (intro keep_intros)

lemma keeps_wait [keep_intros]: "keeps (tab_all I) wait" "keeps (tab_all I) (wait_resume cur)"
  unfolding wait_def wait_resume_def by (intro keep_intros)+

lemma keeps_growproc [keep_intros]: "keeps (tab_all I) (growproc n)"
  unfolding growproc_def Let_def by (intro keep_intros) (simp_all add: harmless_def)

lemma keeps_scheduler_scan: "keeps (tab_all I) (scheduler_scan js)"
proof (induction js)
  case (Cons j js)
  show ?case
    unfolding scheduler_scan.simps scheduler_dispatch_def
    by (intro keep_intros Cons.IH) (simp_all add: harmless_def)
qed (simp add: keeps_kret)

lemma keeps_scheduler [keep_intros]: "keeps (tab_all I) (scheduler c)"
  unfolding scheduler_def by (intro keep_intros keeps_scheduler_scan mem_blind_tab_all)

lemma keeps_scheduler_back [keep_intros]:
  "keeps (tab_all I) scheduler_back" "keeps (tab_all I) scheduler_back_3"
  unfolding scheduler_back_def scheduler_back_3_def switchkvm_def age_procs_def
  by (rule keep_intros keeps_tab_map age | simp)+

end

text \<open>Every slot that carries a process id has a priority from 1 to 20, and no slot
  has one above 20; the aging counter stays below 50.\<close>

definition prio_ok :: "proc \<Rightarrow> bool" where
  "prio_ok q \<longleftrightarrow> 0 \<le> p_priority q \<and> p_priority q \<le> 20 \<and>
     (p_pid q \<noteq> 0 \<longrightarrow> 1 \<le> p_priority q) \<and> 0 \<le> p_counter q \<and> p_counter q < 50"

interpretation priority: entry_inv prio_ok
proof
  show "prio_ok q \<Longrightarrow> prio_ok (age q)" for q by (auto simp: prio_ok_def age_def Let_def)
qed (auto simp: prio_ok_def harmless_def)

text \<open>The arrays of an entry have the sizes of \<open>proc.h\<close>.\<close>

definition proc_shape :: "proc \<Rightarrow> bool" where
  "proc_shape q \<longleftrightarrow> length (p_ofile q) = NOFILE \<and> length (p_name q) = 16"

interpretation shape: entry_inv proc_shape
proof
  show "proc_shape q \<Longrightarrow> proc_shape (age q)" for q by (auto simp: proc_shape_def age_def Let_def)
qed (auto simp: proc_shape_def harmless_def)

section \<open>Allocating a slot\<close>

text \<open>\<open>allocproc\<close> in closed form: the claimed slot before the kernel stack is
  allocated, and what is done with the result.\<close>

definition claimed :: "kernel \<Rightarrow> nat \<Rightarrow> kernel" where
  "claimed s p = s\<lparr>k_nextpid := k_nextpid s + 1,
     k_ptable := (k_ptable s)[p := (k_ptable s ! p)\<lparr>p_state := EMBRYO, p_pid := k_nextpid s,
       p_priority := 5, p_counter := 0\<rparr>]\<rparr>"

lemma allocproc_run:
  assumes "PtableLock \<notin> set (k_held s)"
  shows "allocproc s =
     (case find_slot (\<lambda>q. p_state q = UNUSED) (k_ptable s) of
        None \<Rightarrow> Ok None s
      | Some p \<Rightarrow>
          (case kalloc (claimed s p) of
             Panic e \<Rightarrow> Panic e
           | Switch t \<Rightarrow> Switch t
           | Ok ks t \<Rightarrow>
               kseq (upd_proc p (\<lambda>q. q\<lparr>p_kstack := ks\<rparr>)) (
               if ks = 0 then kseq (upd_proc p (\<lambda>q. q\<lparr>p_state := UNUSED\<rparr>)) (kret None)
               else kseq (upd_proc p (\<lambda>q. q\<lparr>p_context := context0\<lparr>cx_eip := k_forkret t\<rparr>\<rparr>)) (
                    kret (Some p))) t))"
proof (cases "find_slot (\<lambda>q. p_state q = UNUSED) (k_ptable s)")
  case None
  with assms show ?thesis by (simp add: allocproc_def krun)
next
  case (Some p)
  note p = find_slot_SomeD(1) [OF Some]
  with assms Some p show ?thesis
    by (simp add: allocproc_def krun claimed_def split: outcome.splits)
qed

lemma kalloc_OkD: "kalloc s = Ok r t \<Longrightarrow> \<exists>f. t = s\<lparr>k_freelist := f\<rparr>"
proof -
  assume "kalloc s = Ok r t"
  then have "t = s\<lparr>k_freelist := k_freelist t\<rparr>"
    by (auto simp: kalloc_def krun split: if_splits)
  then show ?thesis by (rule exI)
qed

lemma kalloc_not_Switch [simp]: "kalloc s \<noteq> Switch t"
  by (simp add: kalloc_def krun)

lemma allocproc_OkD:
  assumes "allocproc s = Ok r t"
  shows "PtableLock \<notin> set (k_held s)"
    and "r = None \<Longrightarrow> find_slot (\<lambda>q. p_state q = UNUSED) (k_ptable s) = None \<and> t = s \<or>
      (\<exists>p f. find_slot (\<lambda>q. p_state q = UNUSED) (k_ptable s) = Some p \<and>
         t = s\<lparr>k_nextpid := k_nextpid s + 1, k_freelist := f,
           k_ptable := (k_ptable s)[p := (k_ptable s ! p)\<lparr>p_pid := k_nextpid s, p_priority := 5,
             p_counter := 0, p_kstack := 0, p_state := UNUSED\<rparr>]\<rparr>)"
    and "r = Some p \<Longrightarrow> find_slot (\<lambda>q. p_state q = UNUSED) (k_ptable s) = Some p \<and>
      (\<exists>f ks. ks \<noteq> 0 \<and>
         t = s\<lparr>k_nextpid := k_nextpid s + 1, k_freelist := f,
           k_ptable := (k_ptable s)[p := (k_ptable s ! p)\<lparr>p_state := EMBRYO, p_pid := k_nextpid s,
             p_priority := 5, p_counter := 0, p_kstack := ks,
             p_context := context0\<lparr>cx_eip := k_forkret s\<rparr>\<rparr>]\<rparr>)"
proof -
  show lk: "PtableLock \<notin> set (k_held s)"
    using assms by (auto simp: allocproc_def krun split: if_splits)
  note run = assms [unfolded allocproc_run [OF lk]]
  show "find_slot (\<lambda>q. p_state q = UNUSED) (k_ptable s) = None \<and> t = s \<or>
      (\<exists>p f. find_slot (\<lambda>q. p_state q = UNUSED) (k_ptable s) = Some p \<and>
         t = s\<lparr>k_nextpid := k_nextpid s + 1, k_freelist := f,
           k_ptable := (k_ptable s)[p := (k_ptable s ! p)\<lparr>p_pid := k_nextpid s, p_priority := 5,
             p_counter := 0, p_kstack := 0, p_state := UNUSED\<rparr>]\<rparr>)" if "r = None"
  proof (cases "find_slot (\<lambda>q. p_state q = UNUSED) (k_ptable s)")
    case None
    with run show ?thesis by simp
  next
    case (Some p)
    with run that obtain u where "kalloc (claimed s p) = Ok 0 u"
      by (auto simp: krun split: outcome.splits if_splits)
    moreover from kalloc_OkD [OF this] obtain f where "u = claimed s p\<lparr>k_freelist := f\<rparr>" ..
    ultimately show ?thesis using run Some find_slot_SomeD(1,2) [OF Some]
      by (auto simp: krun claimed_def intro!: exI [of _ f])
  qed
  show "find_slot (\<lambda>q. p_state q = UNUSED) (k_ptable s) = Some p \<and>
      (\<exists>f ks. ks \<noteq> 0 \<and>
         t = s\<lparr>k_nextpid := k_nextpid s + 1, k_freelist := f,
           k_ptable := (k_ptable s)[p := (k_ptable s ! p)\<lparr>p_state := EMBRYO, p_pid := k_nextpid s,
             p_priority := 5, p_counter := 0, p_kstack := ks,
             p_context := context0\<lparr>cx_eip := k_forkret s\<rparr>\<rparr>]\<rparr>)" if "r = Some p"
  proof (cases "find_slot (\<lambda>q. p_state q = UNUSED) (k_ptable s)")
    case None
    with run that show ?thesis by simp
  next
    case (Some p')
    with run that obtain ks u where k: "kalloc (claimed s p') = Ok ks u" "ks \<noteq> 0" "p' = p"
      by (auto simp: krun split: outcome.splits if_splits)
    from kalloc_OkD [OF k(1)] obtain f where "u = claimed s p'\<lparr>k_freelist := f\<rparr>" ..
    with run Some k find_slot_SomeD(1) [OF Some]
    have "t = s\<lparr>k_nextpid := k_nextpid s + 1, k_freelist := f,
           k_ptable := (k_ptable s)[p := (k_ptable s ! p)\<lparr>p_state := EMBRYO, p_pid := k_nextpid s,
             p_priority := 5, p_counter := 0, p_kstack := ks,
             p_context := context0\<lparr>cx_eip := k_forkret s\<rparr>\<rparr>]\<rparr>"
      by (simp add: krun claimed_def)
    with Some k(2,3) show ?thesis by blast
  qed
qed

context entry_inv
begin

lemma keeps_allocproc [keep_intros]: "keeps (tab_all I) allocproc"
proof (rule keepsI)
  fix s r t
  assume s: "tab_all I s" and run: "allocproc s = Ok r t"
  have entry: "I ((k_ptable s ! p)\<lparr>p_pid := n, p_priority := 5, p_counter := 0, p_kstack := 0,
        p_state := UNUSED\<rparr>)"
      "I ((k_ptable s ! p)\<lparr>p_state := EMBRYO, p_pid := n, p_priority := 5, p_counter := 0,
        p_kstack := ks, p_context := c\<rparr>)" if "p < length (k_ptable s)" for p n ks c
  proof -
    note q = tab_allD [OF s that]
    show "I ((k_ptable s ! p)\<lparr>p_pid := n, p_priority := 5, p_counter := 0, p_kstack := 0,
        p_state := UNUSED\<rparr>)"
      by (rule harmless [OF _ claim [OF q]]) (simp add: harmless_def)
    have "I ((k_ptable s ! p)\<lparr>p_state := EMBRYO\<rparr>)"
      by (rule harmless [OF _ q]) (simp add: harmless_def)
    from claim [OF this] show "I ((k_ptable s ! p)\<lparr>p_state := EMBRYO, p_pid := n, p_priority := 5,
        p_counter := 0, p_kstack := ks, p_context := c\<rparr>)"
      by (rule harmless [rotated]) (simp add: harmless_def)
  qed
  show "tab_all I t"
  proof (cases r)
    case None
    with allocproc_OkD(2) [OF run] s find_slot_SomeD(1) show ?thesis
      by (auto simp: tab_all_def intro!: list_all_update entry)
  next
    case (Some p)
    with allocproc_OkD(3) [OF run] s find_slot_SomeD(1) show ?thesis
      by (auto simp: tab_all_def intro!: list_all_update entry)
  qed
next
  fix s t
  assume "tab_all I s" and run: "allocproc s = Switch t"
  then have "PtableLock \<notin> set (k_held s)" by (auto simp: allocproc_def krun split: if_splits)
  with run show "tab_all I t"
    by (auto simp: allocproc_run krun split: option.splits outcome.splits if_splits)
qed

end

section \<open>Properties\<close>

definition pids_ok :: "kernel \<Rightarrow> bool" where
  "pids_ok s \<longleftrightarrow> (\<forall>i < length (k_ptable s). p_pid (k_ptable s ! i) < k_nextpid s) \<and>
     (\<forall>i < length (k_ptable s). \<forall>j < length (k_ptable s).
        i \<noteq> j \<and> p_pid (k_ptable s ! i) = p_pid (k_ptable s ! j) \<longrightarrow> p_pid (k_ptable s ! i) = 0)"

text \<open>One process, with id 1, that runs on the boot processor.\<close>

definition one_proc :: kernel where
  "one_proc = (kernel0 (\<lambda>_. 0) 0x80108000 0 (\<lambda>_. []))
     \<lparr>k_curproc := Some 0, k_nextpid := 2,
      k_ptable := proc0\<lparr>p_state := RUNNING, p_pid := 1, p_kstack := 0x80400000,
                          p_pgdir := 0x80401000, p_priority := 5, p_sz := 4096\<rparr>
                # replicate 63 proc0\<rparr>"

lemma find_slot_first: "P x \<Longrightarrow> find_from i P (x # xs) = Some i"
  by simp

lemma find_slot_update:
  assumes "find_from i P xs = Some k" "P x"
  shows "find_from i P (xs[k - i := x]) = Some k"
  using assms
proof (induction xs arbitrary: i)
  case (Cons y ys)
  show ?case
  proof (cases "P y")
    case False
    with Cons.prems have k: "find_from (Suc i) P ys = Some k" by simp
    with find_from_SomeD [OF this] have "k - i = Suc (k - Suc i)" by arith
    with Cons.IH [OF k Cons.prems(2)] False show ?thesis by simp
  qed (use Cons.prems in simp)
qed simp

lemma find_slot_update_other:
  assumes "\<not> P x" "k < length xs \<Longrightarrow> \<not> P (xs ! k)"
  shows "find_from i P (xs[k := x]) = find_from i P xs"
  using assms
proof (induction xs arbitrary: i k)
  case (Cons y ys)
  show ?case
  proof (cases k)
    case 0
    then show ?thesis using Cons.prems by simp
  next
    case (Suc k')
    then show ?thesis using Cons.IH [of k' "Suc i"] Cons.prems by simp
  qed
qed simp

text \<open>C18 (proc.c:205-238): after \<open>set_priority(pid, n)\<close> with \<open>n\<close> from 1 to 20, which
  returns 0, \<open>get_priority(pid)\<close> returns \<open>n\<close> if the table has a process with that id
  and -1 otherwise; the answer for every other id is what it was before, and only
  priorities have changed.\<close>

theorem set_priority_get_priority:
  assumes "PtableLock \<notin> set (k_held s)" "1 \<le> n" "n \<le> 20"
  shows "\<exists>t. set_priority pid n s = Ok 0 t \<and>
     get_priority pid t = Ok (if \<exists>q \<in> set (k_ptable s). p_pid q = pid then n else -1) t \<and>
     (\<forall>pid'. pid' \<noteq> pid \<longrightarrow> (\<exists>v. get_priority pid' s = Ok v s \<and> get_priority pid' t = Ok v t)) \<and>
     map (p_priority_update (\<lambda>_. 0)) (k_ptable t) = map (p_priority_update (\<lambda>_. 0)) (k_ptable s)"
proof (cases "find_slot (\<lambda>q. p_pid q = pid) (k_ptable s)")
  case None
  with assms show ?thesis
    using find_from_None [of 0 "\<lambda>q. p_pid q = pid" "k_ptable s"]
    by (auto simp: set_priority_run get_priority_run)
next
  case (Some p)
  note p = find_slot_SomeD(1,2) [OF Some]
  let ?q = "(k_ptable s ! p)\<lparr>p_priority := n\<rparr>"
  let ?t = "s\<lparr>k_ptable := (k_ptable s)[p := ?q]\<rparr>"
  have "set_priority pid n s = Ok 0 ?t" using assms Some by (simp add: set_priority_run)
  moreover have "get_priority pid ?t = Ok n ?t"
    using assms(1) find_slot_update [OF Some, of ?q] p by (simp add: get_priority_run)
  moreover have "\<exists>v. get_priority pid' s = Ok v s \<and> get_priority pid' ?t = Ok v ?t" if "pid' \<noteq> pid" for pid'
  proof -
    have "find_slot (\<lambda>q. p_pid q = pid') ((k_ptable s)[p := ?q]) =
        find_slot (\<lambda>q. p_pid q = pid') (k_ptable s)"
      using p that by (intro find_slot_update_other) auto
    moreover have "p_priority ((k_ptable s)[p := ?q] ! i) = p_priority (k_ptable s ! i)"
      if "find_slot (\<lambda>q. p_pid q = pid') (k_ptable s) = Some i" for i
      using find_slot_SomeD(2) [OF that] p \<open>pid' \<noteq> pid\<close> by (auto simp: nth_list_update)
    ultimately show ?thesis using assms(1) by (auto simp: get_priority_run split: option.splits)
  qed
  moreover have "map (p_priority_update (\<lambda>_. 0)) (k_ptable ?t) = map (p_priority_update (\<lambda>_. 0)) (k_ptable s)"
    using p by (intro nth_equalityI) (auto simp: nth_list_update)
  moreover have "\<exists>q \<in> set (k_ptable s). p_pid q = pid" using p nth_mem by blast
  ultimately show ?thesis by auto
qed

theorem set_priority_get_priority_witness:
  "\<exists>t. set_priority 1 12 one_proc = Ok 0 t \<and> get_priority 1 t = Ok 12 t"
  using set_priority_get_priority [of one_proc 12 1] by (auto simp: one_proc_def kernel0_def)

text \<open>C31 (proc.c:208): a priority outside 1 to 20 is refused with -1 and nothing
  changes; for a process id that is not in the table the call returns 0 and
  changes nothing.\<close>

theorem set_priority_refuses:
  assumes "PtableLock \<notin> set (k_held s)"
    and "n \<le> 0 \<or> 20 < n \<or> (\<forall>q \<in> set (k_ptable s). p_pid q \<noteq> pid)"
  shows "set_priority pid n s = Ok (if n \<le> 0 \<or> 20 < n then -1 else 0) s"
proof -
  have "find_slot (\<lambda>q. p_pid q = pid) (k_ptable s) = None" if "0 < n" "n \<le> 20"
    using assms(2) that by (auto simp: find_from_None)
  then show ?thesis using assms(1) by (auto simp: set_priority_run)
qed

theorem set_priority_refuses_witness:
  "set_priority 1 21 one_proc = Ok (-1) one_proc \<and> set_priority 77 5 one_proc = Ok 0 one_proc"
  using set_priority_refuses [of one_proc 21 1] set_priority_refuses [of one_proc 5 77]
  by (simp add: one_proc_def kernel0_def proc0_def)

text \<open>C24 (proc.c:544-561): \<open>wakeup(chan)\<close> makes exactly the processes that sleep on
  \<open>chan\<close> runnable; every other process, and everything else in the kernel, is as
  before.\<close>

theorem wakeup_exactly_sleepers:
  assumes "PtableLock \<notin> set (k_held s)"
  shows "\<exists>t. wakeup ch s = Ok () t \<and> t\<lparr>k_ptable := k_ptable s\<rparr> = s \<and>
     length (k_ptable t) = length (k_ptable s) \<and>
     (\<forall>i < length (k_ptable s).
        if p_state (k_ptable s ! i) = SLEEPING \<and> p_chan (k_ptable s ! i) = Some ch
        then k_ptable t ! i = (k_ptable s ! i)\<lparr>p_state := RUNNABLE\<rparr>
        else k_ptable t ! i = k_ptable s ! i)"
  using assms by (simp add: wakeup_run wake_def)

theorem wakeup_exactly_sleepers_witness:
  "\<exists>t. wakeup ChanTicks one_proc = Ok () t \<and> k_ptable t ! 0 = k_ptable one_proc ! 0"
  using wakeup_exactly_sleepers [of one_proc ChanTicks]
  by (fastforce simp: one_proc_def kernel0_def)

text \<open>C19 (proc.c:504-539): a process that sleeps on \<open>chan\<close> holding only the lock \<open>lk\<close>
  gives up the processor in state SLEEPING with \<open>lk\<close> released and the table locked.
  However the rest of the kernel changes meanwhile, as long as the process itself
  is left asleep, a later \<open>wakeup(chan)\<close> makes it runnable, and when it is scheduled
  again it sleeps on nothing and holds exactly \<open>lk\<close> again.\<close>

theorem sleep_then_wakeup:
  assumes "k_curproc s = Some p" "p < length (k_ptable s)" "k_held s = [lk]" "lk \<noteq> PtableLock"
  shows "\<exists>t. sleep ch lk s = Switch t \<and> k_held t = [PtableLock] \<and>
     k_ptable t = (k_ptable s)[p := (k_ptable s ! p)\<lparr>p_chan := Some ch, p_state := SLEEPING\<rparr>] \<and>
     (\<forall>u. length (k_ptable u) = length (k_ptable s) \<and> k_ptable u ! p = k_ptable t ! p \<and>
          PtableLock \<notin> set (k_held u) \<longrightarrow>
        (\<exists>v. wakeup ch u = Ok () v \<and> p_state (k_ptable v ! p) = RUNNABLE)) \<and>
     (\<forall>u. length (k_ptable u) = length (k_ptable s) \<and> k_held u = [PtableLock] \<longrightarrow>
        (\<exists>v. sleep_resume p lk u = Ok () v \<and> k_held v = [lk] \<and>
           k_ptable v = (k_ptable u)[p := (k_ptable u ! p)\<lparr>p_chan := None\<rparr>]))"
proof -
  have "sleep ch lk s = Switch (s\<lparr>k_held := [PtableLock],
       k_ptable := (k_ptable s)[p := (k_ptable s ! p)\<lparr>p_chan := Some ch, p_state := SLEEPING\<rparr>]\<rparr>)"
    using assms by (intro sleep_run) auto
  then show ?thesis
    using assms(2,4) by (auto simp: wakeup_run wake_def sleep_resume_def krun)
qed

theorem sleep_then_wakeup_witness:
  "\<exists>t. sleep ChanTicks TicksLock (one_proc\<lparr>k_held := [TicksLock]\<rparr>) = Switch t \<and>
     k_held t = [PtableLock] \<and> p_state (k_ptable t ! 0) = SLEEPING"
  using sleep_then_wakeup [of "one_proc\<lparr>k_held := [TicksLock]\<rparr>" 0 TicksLock ChanTicks]
  by (auto simp: one_proc_def kernel0_def)

lemma one_proc_simps:
  "k_held one_proc = []" "k_curproc one_proc = Some 0" "length (k_ptable one_proc) = NPROC"
  "k_nextpid one_proc = 2" "p_state (k_ptable one_proc ! 0) = RUNNING"
  "p_pid (k_ptable one_proc ! 0) = 1" "p_killed (k_ptable one_proc ! 0) = False"
  "find_slot (\<lambda>q. p_state q = UNUSED) (k_ptable one_proc) = Some 1"
  "find_slot (\<lambda>q. p_pid q = 0) (k_ptable one_proc) = Some 1"
  by (simp_all add: one_proc_def kernel0_def proc0_def numeral_eq_Suc)

lemma one_proc_kalloc: "kalloc (claimed one_proc p) = Ok 0 (claimed one_proc p)"
  by (simp add: kalloc_def krun claimed_def one_proc_def kernel0_def)

text \<open>C25 (proc.c:566-584): \<open>kill(pid)\<close> returns -1 and changes nothing if no slot of the
  process table has that id. Otherwise it returns 0, sets the \<open>killed\<close> flag of the first
  slot that has it and makes it runnable if it sleeps, whatever it sleeps on; no other
  slot is touched. The state of the slot is not tested: free slots have id 0.\<close>

theorem kill_marks_process:
  assumes "PtableLock \<notin> set (k_held s)"
  shows "if \<exists>q \<in> set (k_ptable s). p_pid q = pid
     then \<exists>p t. kill pid s = Ok 0 t \<and> p < length (k_ptable s) \<and> p_pid (k_ptable s ! p) = pid \<and>
       (\<forall>l < p. p_pid (k_ptable s ! l) \<noteq> pid) \<and>
       p_killed (k_ptable t ! p) \<and>
       p_state (k_ptable t ! p) =
         (if p_state (k_ptable s ! p) = SLEEPING then RUNNABLE else p_state (k_ptable s ! p)) \<and>
       (\<forall>j. j \<noteq> p \<longrightarrow> k_ptable t ! j = k_ptable s ! j)
     else kill pid s = Ok (-1) s"
proof (cases "find_slot (\<lambda>q. p_pid q = pid) (k_ptable s)")
  case None
  with assms show ?thesis
    using find_from_None [of 0 "\<lambda>q. p_pid q = pid" "k_ptable s"] by (simp add: kill_run)
next
  case (Some p)
  note p = find_slot_SomeD [OF Some]
  have "\<exists>q \<in> set (k_ptable s). p_pid q = pid" using p nth_mem by blast
  then show ?thesis
    using assms Some p by (auto simp: kill_run Let_def intro!: exI [of _ p])
qed

theorem kill_marks_process_witness:
  "\<exists>p t. kill 1 one_proc = Ok 0 t \<and> p_killed (k_ptable t ! p)"
  using kill_marks_process [of one_proc 1] one_proc_simps(1)
  by (auto simp: one_proc_def split: if_splits)

text \<open>C33 (proc.c:573, proc.c:89): process ids of free slots are 0, and \<open>kill(0)\<close> finds
  them. It returns 0 and sets the \<open>killed\<close> flag of a slot that no process uses, and
  \<open>allocproc\<close> does not clear the flag: a process allocated there is born killed.\<close>

theorem kill_zero_hits_free_slot:
  assumes "PtableLock \<notin> set (k_held s)"
    and "find_slot (\<lambda>q. p_pid q = 0) (k_ptable s) = Some p"
    and "find_slot (\<lambda>q. p_state q = UNUSED) (k_ptable s) = Some p"
  shows "\<exists>t. kill 0 s = Ok 0 t \<and> p_state (k_ptable t ! p) = UNUSED \<and> p_killed (k_ptable t ! p) \<and>
     (\<forall>r u. allocproc t = Ok (Some r) u \<longrightarrow> r = p \<and> p_killed (k_ptable u ! p))"
proof -
  note p = find_slot_SomeD(1,2) [OF assms(3)]
  let ?q = "(k_ptable s ! p)\<lparr>p_killed := True\<rparr>"
  let ?t = "s\<lparr>k_ptable := (k_ptable s)[p := ?q]\<rparr>"
  have "kill 0 s = Ok 0 ?t" using assms(1,2) p by (simp add: kill_run)
  moreover have "find_slot (\<lambda>q. p_state q = UNUSED) (k_ptable ?t) = Some p"
    using find_slot_update [OF assms(3), of ?q] p by simp
  moreover have "r = p \<and> p_killed (k_ptable u ! p)" if "allocproc ?t = Ok (Some r) u" for r u
    using allocproc_OkD(3) [OF that refl] calculation(2) p by auto
  ultimately show ?thesis using p by (intro exI [of _ ?t]) auto
qed

theorem kill_zero_hits_free_slot_witness:
  "\<exists>t. kill 0 one_proc = Ok 0 t \<and> p_state (k_ptable t ! 1) = UNUSED \<and> p_killed (k_ptable t ! 1)"
  using kill_zero_hits_free_slot [of one_proc 1] one_proc_simps by auto

text \<open>C22 (proc.c:73-117): \<open>allocproc\<close>, called without \<open>ptable.lock\<close> and \<open>kmem.lock\<close>, returns.
  If no slot is UNUSED it returns 0 and changes nothing. Otherwise the next process id
  is used up and only the first UNUSED slot changes. If there is a free page, the
  first of the free list becomes the kernel stack of the slot, which is returned: an EMBRYO
  with that id, priority 5, aging counter 0 and a context that starts in
  \<open>forkret\<close>. If there is none, the slot is UNUSED again and the result is 0.\<close>

theorem allocproc_claims_slot:
  assumes "PtableLock \<notin> set (k_held s)" "kmem_ready s"
  shows "\<exists>r t. allocproc s = Ok r t \<and> k_held t = k_held s \<and>
    (case find_slot (\<lambda>q. p_state q = UNUSED) (k_ptable s) of
       None \<Rightarrow> (\<forall>q \<in> set (k_ptable s). p_state q \<noteq> UNUSED) \<and> r = None \<and> t = s
     | Some p \<Rightarrow>
         p_state (k_ptable s ! p) = UNUSED \<and> (\<forall>j<p. p_state (k_ptable s ! j) \<noteq> UNUSED) \<and>
         k_nextpid t = k_nextpid s + 1 \<and> (\<forall>j. j \<noteq> p \<longrightarrow> k_ptable t ! j = k_ptable s ! j) \<and>
         (if k_freelist s = 0 then r = None \<and> p_state (k_ptable t ! p) = UNUSED
          else r = Some p \<and> p_state (k_ptable t ! p) = EMBRYO \<and> p_pid (k_ptable t ! p) = k_nextpid s \<and>
            p_priority (k_ptable t ! p) = 5 \<and> p_counter (k_ptable t ! p) = 0 \<and>
            p_kstack (k_ptable t ! p) = k_freelist s \<and> k_freelist t = ld32 (k_mem s) (k_freelist s) \<and>
            cx_eip (p_context (k_ptable t ! p)) = k_forkret s))"
proof (cases "find_slot (\<lambda>q. p_state q = UNUSED) (k_ptable s)")
  case None
  then have "\<forall>q \<in> set (k_ptable s). p_state q \<noteq> UNUSED" by (simp add: find_from_None)
  moreover have "allocproc s = Ok None s" using allocproc_run [OF assms(1)] None by simp
  ultimately show ?thesis using None by simp
next
  case (Some p)
  have "kmem_ready (claimed s p)" using assms(2) by (simp add: claimed_def)
  from kalloc_run [OF this] Some allocproc_run [OF assms(1)] find_slot_SomeD [OF Some]
  show ?thesis by (auto simp: krun claimed_def)
qed

theorem allocproc_claims_slot_witness:
  "(\<exists>t. allocproc (one_proc\<lparr>k_freelist := 0x80200000\<rparr>) = Ok (Some 1) t \<and>
      p_state (k_ptable t ! 1) = EMBRYO \<and> p_pid (k_ptable t ! 1) = 2 \<and> p_kstack (k_ptable t ! 1) = 0x80200000) \<and>
   (\<exists>t. allocproc one_proc = Ok None t \<and> p_state (k_ptable t ! 1) = UNUSED)"
proof -
  let ?s = "one_proc\<lparr>k_freelist := 0x80200000\<rparr>"
  have f: "k_freelist one_proc = 0" "k_ptable ?s = k_ptable one_proc" by (simp_all add: one_proc_def kernel0_def)
  have "PtableLock \<notin> set (k_held ?s)" "kmem_ready ?s" "PtableLock \<notin> set (k_held one_proc)" "kmem_ready one_proc"
    by (simp_all add: one_proc_simps)
  from allocproc_claims_slot [OF this(1,2)] allocproc_claims_slot [OF this(3,4)] f one_proc_simps
  show ?thesis by auto
qed

text \<open>C23 (proc.c:88): as long as the 32-bit counter \<open>nextpid\<close> does not wrap around, ids
  stay unique: all ids in the table are below \<open>nextpid\<close> and no two slots carry the
  same nonzero id, also after \<open>allocproc\<close> has handed out another one.\<close>

theorem allocproc_pids_unique:
  assumes "pids_ok s" "k_nextpid s \<noteq> - 1" "allocproc s = Ok r t"
  shows "pids_ok t"
proof -
  have less: "k_nextpid s < k_nextpid s + 1"
    using assms(2) inc_less_eq_self_iff_eq [of "k_nextpid s"] by (simp add: not_le [symmetric])
  have upd: "pids_ok (s\<lparr>k_nextpid := k_nextpid s + 1, k_freelist := f, k_ptable := (k_ptable s)[p := q]\<rparr>)"
    if "p_pid q = k_nextpid s" "p < length (k_ptable s)" for p q f
    unfolding pids_ok_def
  proof (intro conjI allI impI)
    fix i
    assume "i < length (k_ptable (s\<lparr>k_nextpid := k_nextpid s + 1, k_freelist := f,
      k_ptable := (k_ptable s)[p := q]\<rparr>))"
    then show "p_pid (k_ptable (s\<lparr>k_nextpid := k_nextpid s + 1, k_freelist := f,
        k_ptable := (k_ptable s)[p := q]\<rparr>) ! i) < k_nextpid (s\<lparr>k_nextpid := k_nextpid s + 1,
        k_freelist := f, k_ptable := (k_ptable s)[p := q]\<rparr>)"
      using less assms(1) that
      by (cases "i = p") (auto simp: pids_ok_def intro: less_trans)
  qed (use assms(1) that in \<open>auto simp: pids_ok_def nth_list_update split: if_splits\<close>)
  show ?thesis
    using allocproc_OkD(2,3) [OF assms(3)] assms(1)
    by (cases r) (auto intro!: upd dest: find_slot_SomeD(1))
qed

theorem allocproc_pids_unique_witness:
  "\<exists>t. allocproc one_proc = Ok None t \<and> pids_ok one_proc \<and> pids_ok t"
proof -
  obtain t where t: "allocproc one_proc = Ok None t"
    using one_proc_simps by (simp add: allocproc_run one_proc_kalloc krun)
  have "pids_ok one_proc"
    by (auto simp: pids_ok_def one_proc_def kernel0_def proc0_def nth_Cons split: nat.splits)
  with t allocproc_pids_unique [OF this _ t] one_proc_simps(4) show ?thesis by simp
qed

lemma kfree_ptable: "kfree v s = Ok u t \<Longrightarrow> k_ptable t = k_ptable s"
  using keeps_OkD [OF keeps_kfree [of "\<lambda>x. k_ptable x = k_ptable s"], of s] by (simp add: mem_blind_def)

lemma freevm_ptable: "freevm v s = Ok u t \<Longrightarrow> k_ptable t = k_ptable s"
  using keeps_OkD [OF keeps_freevm [of "\<lambda>x. k_ptable x = k_ptable s"], of s] by (simp add: mem_blind_def)

text \<open>C21 (proc.c:335-375): \<open>wait\<close> called with no locks held. A process without children,
  or a killed one none of whose children is a zombie, gets -1 and nothing changes. A
  process whose children all still live sleeps on its own slot. If there is a zombie
  child and \<open>wait\<close> returns, it returns the id of the first one, whose slot is free
  again (no id, no parent, not killed, UNUSED); no other process is changed.\<close>

theorem wait_cases:
  assumes "k_curproc s = Some p" "p < length (k_ptable s)" "k_held s = []"
    and "z = find_slot (\<lambda>q. p_parent q = Some p \<and> p_state q = ZOMBIE) (k_ptable s)"
  shows "case z of
      Some i \<Rightarrow> (\<forall>pid t. wait s = Ok pid t \<longrightarrow> pid = p_pid (k_ptable s ! i) \<and>
        p_state (k_ptable t ! i) = UNUSED \<and> p_pid (k_ptable t ! i) = 0 \<and>
        p_parent (k_ptable t ! i) = None \<and> \<not> p_killed (k_ptable t ! i) \<and>
        (\<forall>j. j \<noteq> i \<longrightarrow> k_ptable t ! j = k_ptable s ! j))
    | None \<Rightarrow>
        if (\<forall>q \<in> set (k_ptable s). p_parent q \<noteq> Some p) \<or> p_killed (k_ptable s ! p)
        then wait s = Ok (-1) s
        else wait s = Switch (s\<lparr>k_held := [PtableLock], k_ptable := (k_ptable s)
          [p := (k_ptable s ! p)\<lparr>p_chan := Some (ChanProc p), p_state := SLEEPING\<rparr>]\<rparr>)"
proof (cases z)
  case None
  with assms show ?thesis
    using sleep_run [of "s\<lparr>k_held := [PtableLock]\<rparr>" p PtableLock "ChanProc p"]
    by (auto simp: wait_def wait_pass_def krun)
next
  case (Some i)
  note z = assms(4) [symmetric, unfolded Some]
  note i = find_slot_SomeD(1) [OF z]
  show ?thesis
    unfolding Some option.case
  proof (intro allI impI)
    fix pid t
    assume "wait s = Ok pid t"
    then show "pid = p_pid (k_ptable s ! i) \<and>
        p_state (k_ptable t ! i) = UNUSED \<and> p_pid (k_ptable t ! i) = 0 \<and>
        p_parent (k_ptable t ! i) = None \<and> \<not> p_killed (k_ptable t ! i) \<and>
        (\<forall>j. j \<noteq> i \<longrightarrow> k_ptable t ! j = k_ptable s ! j)"
      using assms(1-3) z i
      by (auto simp: wait_def wait_pass_def reap_def kOk curproc_run get_proc_run acquire_run
          release_run upd_proc_run dest!: kfree_ptable freevm_ptable split: if_splits)
  qed
qed

theorem wait_cases_witness:
  "wait one_proc = Ok (-1) one_proc"
proof -
  have "find_slot (\<lambda>q. p_parent q = Some 0 \<and> p_state q = ZOMBIE) (k_ptable one_proc) = None"
    by (auto simp: find_from_None one_proc_def proc0_def)
  with wait_cases [OF one_proc_simps(2) _ one_proc_simps(1) refl] one_proc_simps(3)
  show ?thesis by (auto simp: one_proc_def proc0_def)
qed

lemma deallocuvm_ptable: "deallocuvm d m n s = Ok u t \<Longrightarrow> k_ptable t = k_ptable s"
  using keeps_OkD [OF keeps_deallocuvm [of "\<lambda>x. k_ptable x = k_ptable s"], of s]
  by (simp add: mem_blind_def)

text \<open>C34 (proc.c:159-176): shrinking a process to size 0. \<open>deallocuvm\<close> returns the new
  size, which is 0, and \<open>growproc\<close> takes that for a failure: when it returns at all,
  it returns -1 and the process keeps its old size, although every page below that
  size has been given to \<open>deallocuvm\<close> to free.\<close>

theorem growproc_to_zero_fails:
  assumes "k_curproc s = Some p" "n = - p_sz (k_ptable s ! p)" "n <s 0"
    and "growproc n s = Ok r t"
  shows "r = -1 \<and> k_ptable t = k_ptable s \<and>
     deallocuvm (p_pgdir (k_ptable s ! p)) (p_sz (k_ptable s ! p)) 0 s = Ok 0 t"
proof -
  have "\<not> 0 <s n" "n \<noteq> 0" using assms(3) by (auto simp: word_sless_alt)
  then have "0 < p_sz (k_ptable s ! p)" using assms(2) by (auto simp: word_gt_0)
  with assms(2) \<open>\<not> 0 <s n\<close> \<open>n \<noteq> 0\<close> have "r = -1 \<and>
     deallocuvm (p_pgdir (k_ptable s ! p)) (p_sz (k_ptable s ! p)) 0 s = Ok 0 t"
    using assms(1,3,4)
    by (auto simp: growproc_def kOk curproc_run get_proc_run Let_def deallocuvm_def not_le
        split: if_splits)
  then show ?thesis using deallocuvm_ptable by blast
qed

theorem growproc_to_zero_fails_witness:
  "\<exists>t. growproc (- 4096) one_proc = Ok (-1) t \<and> p_sz (k_ptable t ! 0) = 4096"
proof -
  have z: "ld32 (\<lambda>_. 0) a = 0" for a by (simp add: ld32_def)
  have sz: "p_sz (k_ptable one_proc ! 0) = 4096" by (simp add: one_proc_def)
  have step: "dealloc_step (p_pgdir (k_ptable one_proc ! 0)) 0 one_proc = Ok 4194304 one_proc"
    by (simp add: dealloc_step_def walkpgdir_def load32_def Let_def krun one_proc_def kernel0_def z)
  have "deallocuvm (p_pgdir (k_ptable one_proc ! 0)) 4096 0 one_proc = Ok 0 one_proc"
    using step by (simp add: deallocuvm_def PGROUNDUP_def krun dealloc_loop.simps)
  then obtain r t where r: "growproc (- 4096) one_proc = Ok r t"
    using one_proc_simps(2) sz
    by (simp add: growproc_def krun Let_def word_sless_alt)
  from growproc_to_zero_fails [OF one_proc_simps(2) _ _ r] sz r show ?thesis
    by (simp add: word_sless_alt)
qed

end
