(* ===== verification/Scheduling.thy ===== *)
theory Scheduling
  imports Proc
begin

text \<open>
  The scheduling policy: which process the scheduler of \<open>proc.c\<close> runs next, and
  how long a process can wait under the aging scheduler of \<open>proc_3.c\<close>.

  A run of the aging scheduler is a sequence of dispatches. Between \<open>swtch\<close> and
  the return to the scheduler the chosen process does as it likes; \<open>others_ran\<close>
  says only what that may not touch.
\<close>

definition sched_ok :: "kernel \<Rightarrow> bool" where
  "sched_ok s \<longleftrightarrow> length (k_ptable s) = NPROC \<and> k_held s = [PtableLock] \<and>
     list_all (\<lambda>q. switchable q \<and> p_priority q \<le> 20) (k_ptable s)"

definition others_ran :: "nat \<Rightarrow> kernel \<Rightarrow> kernel \<Rightarrow> bool" where
  "others_ran j t u \<longleftrightarrow> sched_ok u \<and> k_ptable u ! j = k_ptable t ! j"

text \<open>\<open>waits j n x y\<close>: from \<open>x\<close> to \<open>y\<close> (state and loop position) the aging
  scheduler makes \<open>n\<close> dispatches, none of them of process \<open>j\<close>.\<close>

inductive waits :: "nat \<Rightarrow> nat \<Rightarrow> kernel \<times> nat \<Rightarrow> kernel \<times> nat \<Rightarrow> bool" for j where
  start: "waits j 0 x x"
| dispatch: "waits j n x (s, c) \<Longrightarrow> scheduler c s = Ok (Some h) t \<Longrightarrow> h \<noteq> j \<Longrightarrow>
    others_ran j t u \<Longrightarrow> scheduler_back_3 u = Ok () v \<Longrightarrow> waits j (Suc n) x (v, Suc h)"
| round: "waits j n x (s, c) \<Longrightarrow> scheduler c s = Ok None t \<Longrightarrow> waits j n x (t, 0)"

section \<open>The distance to a slot\<close>

text \<open>How many slots the loop position \<open>c\<close> is away from slot \<open>j\<close>.\<close>

definition slot_dist :: "nat \<Rightarrow> nat \<Rightarrow> nat" where
  "slot_dist j c = (if c \<le> j then j - c else j + NPROC - c)"

lemma slot_dist_bound: "j < NPROC \<Longrightarrow> slot_dist j c \<le> 63"
  by (auto simp: slot_dist_def)

lemma cyclic_before:
  assumes "cyclic p NPROC = pre @ h # suf" "j \<in> set suf" "p < NPROC"
  shows "p \<le> j \<longrightarrow> p \<le> h \<and> h < j" "j < p \<longrightarrow> p \<le> h \<or> h < j" "h < NPROC"
proof -
  let ?f = "\<lambda>x. if p \<le> x then x - p else x + (NPROC - p)"
  have "map ?f [p..<NPROC] = [0..<NPROC - p]"
    by (rule nth_equalityI) auto
  moreover have "map ?f [0..<p] = [NPROC - p..<NPROC]"
    using assms(3) by (intro nth_equalityI) auto
  ultimately have m: "map ?f (cyclic p NPROC) = [0..<NPROC]"
    using assms(3) upt_add_eq_append [of 0 "NPROC - p" p] by (simp add: cyclic_def)
  have "sorted_wrt (<) (map ?f (pre @ h # suf))" unfolding assms(1) [symmetric] m by simp
  then have f: "?f h < ?f j" using assms(2) by (auto simp: sorted_wrt_append)
  have "set (cyclic p NPROC) = {0..<NPROC}" using assms(3) by (rule set_cyclic)
  then have n: "h < NPROC" "j < NPROC" using assms(1,2) by auto
  then show "h < NPROC" by simp
  show "p \<le> j \<longrightarrow> p \<le> h \<and> h < j" "j < p \<longrightarrow> p \<le> h \<or> h < j"
    using f n by (auto split: if_splits)
qed

section \<open>Bounded waiting\<close>

lemma scheduler_cases:
  assumes "sched_ok s" "c \<le> NPROC"
  shows "scheduler c s = Ok None s \<and> (\<forall>j. c \<le> j \<and> j < NPROC \<longrightarrow> p_state (k_ptable s ! j) \<noteq> RUNNABLE) \<or>
    (\<exists>p t. c \<le> p \<and> p < NPROC \<and> p_state (k_ptable s ! p) = RUNNABLE \<and>
       (\<forall>j. c \<le> j \<and> j < NPROC \<and> p_state (k_ptable s ! j) = RUNNABLE \<longrightarrow> p \<le> j) \<and>
       scheduler c s = Ok (Some (pick_highest (k_ptable s) p)) t \<and>
       (\<forall>j. j \<noteq> pick_highest (k_ptable s) p \<longrightarrow> k_ptable t ! j = k_ptable s ! j))"
proof (cases "\<exists>j. c \<le> j \<and> j < NPROC \<and> p_state (k_ptable s ! j) = RUNNABLE")
  case False
  with scheduler_idle [of c s] assms show ?thesis by (auto simp: sched_ok_def)
next
  case True
  then obtain j where j: "c \<le> j" "j < NPROC" "p_state (k_ptable s ! j) = RUNNABLE"
    "\<forall>i. c \<le> i \<and> i < j \<longrightarrow> p_state (k_ptable s ! i) \<noteq> RUNNABLE"
    by (rule first_runnable) blast
  from assms(1) have "length (k_ptable s) = NPROC" "list_all switchable (k_ptable s)"
    by (auto simp: sched_ok_def list_all_length)
  from this j(1-3) obtain p h q where p: "c \<le> p" "p \<le> j" "p_state (k_ptable s ! p) = RUNNABLE"
    "h = pick_highest (k_ptable s) p"
    "scheduler c s = Ok (Some h) (s\<lparr>k_curproc := Some h, k_esp0 := p_kstack q + KSTACKSIZE,
         k_cr3 := V2P (p_pgdir q), k_ptable := (k_ptable s)[h := q\<lparr>p_state := RUNNING\<rparr>]\<rparr>)"
    by (rule scheduler_runs)
  have "p = j" using p(1-3) j(4) by (meson le_neq_implies_less)
  with p j show ?thesis
    by (intro disjI2 exI [of _ j] exI conjI) (auto simp: not_less [symmetric])
qed

lemma scheduler_dispatch_cases:
  assumes "sched_ok s" "c \<le> NPROC" "scheduler c s = Ok (Some h) t"
  obtains p where "c \<le> p" "p < NPROC" "p_state (k_ptable s ! p) = RUNNABLE"
    "\<forall>j. c \<le> j \<and> j < NPROC \<and> p_state (k_ptable s ! j) = RUNNABLE \<longrightarrow> p \<le> j"
    "h = pick_highest (k_ptable s) p" "\<forall>j. j \<noteq> h \<longrightarrow> k_ptable t ! j = k_ptable s ! j"
  using scheduler_cases [OF assms(1,2)] assms(3) by (auto simp: not_less)

lemma dispatch_closer:
  assumes "sched_ok s" "c \<le> NPROC" "scheduler c s = Ok (Some h) t"
    and "j < NPROC" "p_state (k_ptable s ! j) = RUNNABLE" "h \<noteq> j"
  shows "h < NPROC" "k_ptable t ! j = k_ptable s ! j"
    "p_priority (k_ptable s ! j) = 20 \<Longrightarrow> slot_dist j (Suc h) < slot_dist j c"
proof -
  let ?tab = "k_ptable s"
  have len: "length ?tab = NPROC" using assms(1) by (simp add: sched_ok_def)
  from assms(1-3) obtain p where p: "c \<le> p" "p < NPROC" "p_state (?tab ! p) = RUNNABLE"
    "\<forall>j. c \<le> j \<and> j < NPROC \<and> p_state (?tab ! j) = RUNNABLE \<longrightarrow> p \<le> j"
    "h = pick_highest ?tab p" "\<forall>j. j \<noteq> h \<longrightarrow> k_ptable t ! j = ?tab ! j"
    by (rule scheduler_dispatch_cases)
  have p_len: "p < length ?tab" using p(2) len by simp
  from pick_highest_first [OF p_len p(3)] obtain pre suf where
    h: "cyclic p NPROC = pre @ h # suf"
      "\<forall>i \<in> set pre. p_state (?tab ! i) = RUNNABLE \<longrightarrow> p_priority (?tab ! i) < p_priority (?tab ! h)"
    unfolding p(5) [symmetric] len by blast
  show "h < NPROC" using pick_highest_max(1) [OF p_len p(3)] len p(5) by simp
  show "k_ptable t ! j = ?tab ! j" using p(6) assms(6) by simp
  assume top: "p_priority (?tab ! j) = 20"
  have "p_priority (?tab ! h) \<le> 20"
    using assms(1) \<open>h < NPROC\<close> by (simp add: sched_ok_def list_all_length)
  with h(2) top assms(5) have "j \<notin> set pre" by fastforce
  moreover have "j \<in> set (cyclic p NPROC)" using set_cyclic [OF p(2)] assms(4) by simp
  ultimately have "j \<in> set suf" using h(1) assms(6) by simp
  note before = cyclic_before [OF h(1) this p(2)]
  show "slot_dist j (Suc h) < slot_dist j c"
  proof (cases "c \<le> j")
    case True
    then have "p \<le> j" using p(4) assms(4,5) by blast
    with before(1) p(1) True show ?thesis by (auto simp: slot_dist_def)
  next
    case False
    then have "p > j" using p(1) by simp
    with before(2) have "p \<le> h \<or> h < j" by blast
    then show ?thesis using False p(1,2) \<open>j < p\<close> \<open>h < NPROC\<close> assms(4) by (auto simp: slot_dist_def)
  qed
qed

lemma scheduler_back_3_run:
  "scheduler_back_3 u =
     Ok () (u\<lparr>k_cr3 := V2P (k_kpgdir u), k_ptable := map age (k_ptable u), k_curproc := None\<rparr>)"
  by (simp add: scheduler_back_3_def switchkvm_def age_procs_def krun)

lemma age_priority_le: "p_priority q \<le> 20 \<Longrightarrow> p_priority (age q) \<le> 20"
  by (simp add: age_def Let_def)

lemma age_switchable [simp]: "switchable (age q) = switchable q"
  by (simp add: switchable_def age_def Let_def)

lemma sched_ok_aged:
  "sched_ok u \<Longrightarrow> scheduler_back_3 u = Ok () v \<Longrightarrow> sched_ok v"
  by (auto simp: sched_ok_def scheduler_back_3_run list_all_length age_priority_le)

lemma waits_invariant:
  assumes "waits j n x y" "x = (s, c)" "y = (t, d)"
    and "sched_ok s" "c \<le> NPROC" "j < NPROC"
    and "q = k_ptable s ! j" "p_state q = RUNNABLE" "0 \<le> p_counter q" "p_counter q < 50"
      "1 \<le> p_priority q"
  shows "sched_ok t \<and> d \<le> NPROC \<and> k_ptable t ! j = (age ^^ n) q \<and>
     (n \<le> 950 \<or> n + slot_dist j d \<le> 1013)"
  using assms(1-3)
proof (induction arbitrary: t d rule: waits.induct)
  case (start x)
  then show ?case using assms(4-7) by simp
next
  case (dispatch n x s' c' h t' u v)
  then have IH: "sched_ok s'" "c' \<le> NPROC" "k_ptable s' ! j = (age ^^ n) q"
    "n \<le> 950 \<or> n + slot_dist j c' \<le> 1013" by auto
  have q20: "p_priority q \<le> 20"
    using assms(4,6,7) by (auto simp: sched_ok_def list_all_length)
  have pow: "p_priority ((age ^^ n) q) = min 20 (p_priority q + (p_counter q + int n) div 50)"
    "p_state ((age ^^ n) q) = RUNNABLE"
    using age_pow [of q n] assms(8-10) q20 by auto
  have run: "p_state (k_ptable s' ! j) = RUNNABLE" using IH(3) pow(2) by simp
  note closer = dispatch_closer [OF IH(1,2) dispatch.hyps(2) assms(6) run dispatch.hyps(3)]
  from dispatch.hyps(4) have u: "sched_ok u" "k_ptable u ! j = (age ^^ n) q"
    using closer(2) IH(3) by (auto simp: others_ran_def)
  have v: "sched_ok v" "k_ptable v ! j = (age ^^ Suc n) q"
    using sched_ok_aged [OF u(1) dispatch.hyps(5)] dispatch.hyps(5) u assms(6)
    by (auto simp: scheduler_back_3_run sched_ok_def)
  have "Suc n \<le> 950 \<or> Suc n + slot_dist j (Suc h) \<le> 1013"
  proof (cases "n < 950")
    case False
    then have "19 \<le> (p_counter q + int n) div 50"
      using zdiv_mono1 [of 950 "p_counter q + int n" 50] assms(9) by simp
    then have "p_priority (k_ptable s' ! j) = 20" using IH(3) pow(1) assms(11) by simp
    then have "slot_dist j (Suc h) < slot_dist j c'" by (rule closer(3))
    with IH(4) slot_dist_bound [OF assms(6), of c'] show ?thesis by auto
  qed simp
  with v closer(1) dispatch.prems show ?case by simp
next
  case (round n x s' c' t')
  then have IH: "sched_ok s'" "c' \<le> NPROC" "k_ptable s' ! j = (age ^^ n) q"
    "n \<le> 950 \<or> n + slot_dist j c' \<le> 1013" by auto
  have q20: "p_priority q \<le> 20"
    using assms(4,6,7) by (auto simp: sched_ok_def list_all_length)
  have run: "p_state (k_ptable s' ! j) = RUNNABLE"
    using IH(3) age_pow [of q n] assms(8-10) q20 by simp
  from scheduler_cases [OF IH(1,2)] round.hyps(2)
  have idle: "t' = s'" "\<forall>j. c' \<le> j \<and> j < NPROC \<longrightarrow> p_state (k_ptable s' ! j) \<noteq> RUNNABLE" by auto
  with run assms(6) have "\<not> c' \<le> j" by blast
  then have "slot_dist j 0 \<le> slot_dist j c'" using IH(2) by (simp add: slot_dist_def)
  with IH idle(1) round.prems show ?case by auto
qed

lemma scheduler_progress:
  assumes "sched_ok s" "c \<le> NPROC" "j < NPROC" "p_state (k_ptable s ! j) = RUNNABLE"
  shows "\<exists>h t. scheduler c s = Ok (Some h) t \<or>
    scheduler c s = Ok None s \<and> scheduler 0 s = Ok (Some h) t"
  using scheduler_cases [OF assms(1,2)] scheduler_cases [OF assms(1), of 0] assms(3,4) by auto

section \<open>A small table\<close>

text \<open>Two runnable processes, of priorities 5 and 7, in an otherwise empty table.\<close>

definition two_procs :: kernel where
  "two_procs = (kernel0 (\<lambda>_. 0) 0 0 (\<lambda>_. []))
     \<lparr>k_held := [PtableLock],
      k_ptable := proc0\<lparr>p_state := RUNNABLE, p_pid := 1, p_kstack := 0x80400000,
                          p_pgdir := 0x80401000, p_priority := 5\<rparr>
                # proc0\<lparr>p_state := RUNNABLE, p_pid := 2, p_kstack := 0x80402000,
                          p_pgdir := 0x80403000, p_priority := 7\<rparr>
                # replicate 62 proc0\<rparr>"

lemma two_procs_ok: "sched_ok two_procs"
  by (simp add: sched_ok_def two_procs_def switchable_def proc0_def list_all_iff)

lemma two_procs_slots:
  "p_state (k_ptable two_procs ! 0) = RUNNABLE" "p_counter (k_ptable two_procs ! 0) = 0"
  "p_priority (k_ptable two_procs ! 0) = 5"
  by (simp_all add: two_procs_def proc0_def)

lemma two_procs_pick: "pick_highest (k_ptable two_procs) 0 = 1"
  by code_simp

text \<open>C4 (proc.c:405-423): from loop position \<open>c\<close>, if some slot from \<open>c\<close> on is
  runnable, the scheduler runs a process \<open>h\<close>. It is runnable, no runnable process
  of the whole table has a higher priority, and in the cyclic order that starts at
  the first runnable slot \<open>p\<close> it comes before every other one of the same
  priority. Its state becomes RUNNING, it becomes the current process, its page
  table and kernel stack are loaded, and no other process is changed.\<close>

theorem scheduler_highest_priority:
  assumes "length (k_ptable s) = NPROC" "list_all switchable (k_ptable s)"
    and "c \<le> j" "j < NPROC" "p_state (k_ptable s ! j) = RUNNABLE"
  shows "\<exists>p h t. scheduler c s = Ok (Some h) t \<and> c \<le> p \<and> p \<le> j \<and>
     p_state (k_ptable s ! h) = RUNNABLE \<and>
     (\<exists>pre suf. cyclic p NPROC = pre @ h # suf \<and>
        (\<forall>i \<in> set pre. p_state (k_ptable s ! i) = RUNNABLE \<longrightarrow>
           p_priority (k_ptable s ! i) < p_priority (k_ptable s ! h)) \<and>
        (\<forall>i \<in> set suf. p_state (k_ptable s ! i) = RUNNABLE \<longrightarrow>
           p_priority (k_ptable s ! i) \<le> p_priority (k_ptable s ! h))) \<and>
     k_ptable t = (k_ptable s)[h := (k_ptable s ! h)\<lparr>p_state := RUNNING\<rparr>] \<and>
     k_curproc t = Some h \<and> k_cr3 t = V2P (p_pgdir (k_ptable s ! h)) \<and>
     k_esp0 t = p_kstack (k_ptable s ! h) + KSTACKSIZE"
proof -
  from assms obtain p h q where p: "c \<le> p" "p \<le> j" "p_state (k_ptable s ! p) = RUNNABLE"
    "h = pick_highest (k_ptable s) p" "q = k_ptable s ! h"
    "scheduler c s = Ok (Some h) (s\<lparr>k_curproc := Some h, k_esp0 := p_kstack q + KSTACKSIZE,
         k_cr3 := V2P (p_pgdir q), k_ptable := (k_ptable s)[h := q\<lparr>p_state := RUNNING\<rparr>]\<rparr>)"
    by (rule scheduler_runs)
  have "p < length (k_ptable s)" using p(2) assms(1,4) by simp
  note first = pick_highest_first [OF this p(3), folded p(4), unfolded assms(1)]
  show ?thesis
    by (rule exI [of _ p], rule exI [of _ h], rule exI, rule conjI, rule p(6))
      (use first p(1,2,5) in auto)
qed

theorem scheduler_highest_priority_witness:
  "\<exists>p h t. scheduler 0 two_procs = Ok (Some h) t \<and> p \<le> 0 \<and>
     (\<exists>pre suf. cyclic p NPROC = pre @ h # suf \<and>
        (\<forall>i \<in> set pre. p_state (k_ptable two_procs ! i) = RUNNABLE \<longrightarrow>
           p_priority (k_ptable two_procs ! i) < p_priority (k_ptable two_procs ! h)))"
  using scheduler_highest_priority [of two_procs 0 0] two_procs_ok two_procs_slots(1)
  unfolding sched_ok_def list_all_iff by auto

text \<open>C5 (proc_3.c:426-436): under aging no runnable process is starved. As long as
  nobody changes the process in slot \<open>j\<close> (of priority at least 1), the scheduler
  cannot make more than 1013 dispatches without choosing it: after at most 950 it
  has priority 20, and from then on the loop position moves strictly towards it.
  The scheduler never gets stuck before that: it runs some process at once or
  after starting its loop again.\<close>

theorem aging_bounded_waiting:
  assumes "waits j n (s, c) (t, d)" "sched_ok s" "c \<le> NPROC" "j < NPROC"
    and "p_state (k_ptable s ! j) = RUNNABLE" "0 \<le> p_counter (k_ptable s ! j)"
      "p_counter (k_ptable s ! j) < 50" "1 \<le> p_priority (k_ptable s ! j)"
  shows "n \<le> 1013 \<and>
    (\<exists>h u. scheduler d t = Ok (Some h) u \<or>
      scheduler d t = Ok None t \<and> scheduler 0 t = Ok (Some h) u)"
proof
  note inv = waits_invariant [OF assms(1) refl refl assms(2-4) refl assms(5-8)]
  then show "n \<le> 1013" by auto
  have "p_priority (k_ptable s ! j) \<le> 20"
    using assms(2,4) by (auto simp: sched_ok_def list_all_length)
  with inv age_pow [of "k_ptable s ! j" n] assms(5-7)
  have "p_state (k_ptable t ! j) = RUNNABLE" by simp
  with inv scheduler_progress [of t d j] assms(4)
  show "\<exists>h u. scheduler d t = Ok (Some h) u \<or>
      scheduler d t = Ok None t \<and> scheduler 0 t = Ok (Some h) u" by blast
qed

theorem aging_bounded_waiting_witness:
  "\<exists>v. waits 0 1 (two_procs, 0) (v, 2) \<and> (1 :: nat) \<le> 1013"
proof -
  have ok: "length (k_ptable two_procs) = NPROC" "list_all switchable (k_ptable two_procs)"
    using two_procs_ok by (auto simp: sched_ok_def list_all_iff)
  from ok le_refl [of 0] _ two_procs_slots(1) obtain p h q where p: "p \<le> 0"
    "h = pick_highest (k_ptable two_procs) p" "q = k_ptable two_procs ! h"
    "scheduler 0 two_procs = Ok (Some h) (two_procs\<lparr>k_curproc := Some h,
       k_esp0 := p_kstack q + KSTACKSIZE, k_cr3 := V2P (p_pgdir q),
       k_ptable := (k_ptable two_procs)[h := q\<lparr>p_state := RUNNING\<rparr>]\<rparr>)"
    by (rule scheduler_runs) simp
  have h: "h = 1" using p(1,2) two_procs_pick by simp
  have "sched_ok (two_procs\<lparr>k_curproc := Some h,
       k_esp0 := p_kstack q + KSTACKSIZE, k_cr3 := V2P (p_pgdir q),
       k_ptable := (k_ptable two_procs)[h := q\<lparr>p_state := RUNNING\<rparr>]\<rparr>)"
    by (simp add: sched_ok_def two_procs_def switchable_def proc0_def list_all_iff h p(3))
  then have "others_ran 0 (two_procs\<lparr>k_curproc := Some h,
       k_esp0 := p_kstack q + KSTACKSIZE, k_cr3 := V2P (p_pgdir q),
       k_ptable := (k_ptable two_procs)[h := q\<lparr>p_state := RUNNING\<rparr>]\<rparr>) (two_procs\<lparr>k_curproc := Some h,
       k_esp0 := p_kstack q + KSTACKSIZE, k_cr3 := V2P (p_pgdir q),
       k_ptable := (k_ptable two_procs)[h := q\<lparr>p_state := RUNNING\<rparr>]\<rparr>)"
    by (simp add: others_ran_def)
  from waits.dispatch [OF waits.start p(4) _ this scheduler_back_3_run] h
  obtain v where "waits 0 (Suc 0) (two_procs, 0) (v, Suc 1)" by fastforce
  moreover from aging_bounded_waiting [OF this two_procs_ok] two_procs_slots
  have "(1 :: nat) \<le> 1013" by simp
  ultimately show ?thesis by (auto simp: numeral_2_eq_2)
qed

text \<open>C32 (proc_3.c:426-436): \<open>n\<close> rounds of the aging loop raise the priority of a
  process that stays runnable or running by one for every 50, up to 20, and leave
  the remainder in its counter; its state does not change.\<close>

theorem aging_raises_priority:
  assumes "p_state q = RUNNABLE \<or> p_state q = RUNNING" "0 \<le> p_counter q" "p_counter q < 50"
    and "p_priority q \<le> 20"
  shows "p_counter ((age ^^ n) q) = (p_counter q + int n) mod 50 \<and>
     p_priority ((age ^^ n) q) = min 20 (p_priority q + (p_counter q + int n) div 50) \<and>
     p_state ((age ^^ n) q) = p_state q"
  using age_pow [OF assms] .

theorem aging_raises_priority_witness:
  "p_priority ((age ^^ 120) (k_ptable two_procs ! 0)) = 7"
  using aging_raises_priority [of "k_ptable two_procs ! 0" 120] two_procs_slots by simp

end
