(* ===== verification/Spinlock.thy ===== *)
theory Spinlock
  imports Kernel_State
begin

text \<open>
  Spin-locks on several processors (\<open>spinlock.c\<close>, \<open>mycpu\<close> of \<open>proc.c\<close>). The other
  theories see a lock only through the list \<open>k_held\<close> of the locks the running
  processor holds. Here are the lock words, the owner fields, the nesting counts and
  the interrupt flags of all processors. \<open>acquire\<close> and \<open>release\<close> are cut into the
  accesses to the lock word that other processors can see in between: \<open>xchg\<close> on
  \<open>lk->locked\<close>, setting \<open>lk->cpu\<close>, clearing \<open>lk->cpu\<close>, clearing \<open>lk->locked\<close>. The
  processors interleave at these points. The call stack recorded for debugging is
  left out.
\<close>

section \<open>State\<close>

record cpu =
  c_apicid :: u8
  c_ncli :: int
  c_intena :: bool
  c_if :: bool

record spinlock =
  lk_locked :: bool
  lk_cpu :: "nat option"

text \<open>Where a processor is: outside the lock functions (\<open>Run\<close>), spinning on a lock,
  between \<open>xchg\<close> and recording the owner, between clearing the owner and clearing
  the lock word, or before \<open>popcli\<close> at the end of \<open>release\<close>.\<close>

datatype cpupc = Run | Spin lockid | Got lockid | Rel lockid | Pop

text \<open>\<open>sm_sect c\<close> is the list of locks whose critical sections processor \<open>c\<close> is in:
  from its successful \<open>xchg\<close> to its clearing the lock word. It is no variable of the
  kernel and no step depends on it.\<close>

record smp =
  sm_cpus :: "cpu list"
  sm_locks :: "lockid \<Rightarrow> spinlock"
  sm_pc :: "nat \<Rightarrow> cpupc"
  sm_sect :: "nat \<Rightarrow> lockid list"

type_synonym 'a S = "(smp, 'a) prog"

section \<open>Operations\<close>

definition upd_cpu :: "nat \<Rightarrow> (cpu \<Rightarrow> cpu) \<Rightarrow> unit S" where
  "upd_cpu c f = kmod (\<lambda>m. m\<lparr>sm_cpus := (sm_cpus m)[c := f (sm_cpus m ! c)]\<rparr>)"

definition upd_lock :: "lockid \<Rightarrow> (spinlock \<Rightarrow> spinlock) \<Rightarrow> unit S" where
  "upd_lock l f = kmod (\<lambda>m. m\<lparr>sm_locks := (sm_locks m)(l := f (sm_locks m l))\<rparr>)"

text \<open>\<open>mycpu\<close> on a processor with interrupt flag \<open>fl_if\<close> and local APIC id \<open>apicid\<close>.\<close>

definition mycpu :: "bool \<Rightarrow> u8 \<Rightarrow> nat S" where
  "mycpu fl_if apicid =
     (if fl_if then kpanic (''mycpu called with interrupts enabled'' @ [CHR 0x0A])
      else
        kbind (kget (\<lambda>m. find_slot (\<lambda>c. c_apicid c = apicid) (sm_cpus m))) (\<lambda>r.
        case r of
          None \<Rightarrow> kpanic (''unknown apicid'' @ [CHR 0x0A])
        | Some i \<Rightarrow> kret i))"

definition initlock :: "lockid \<Rightarrow> unit S" where
  "initlock l = upd_lock l (\<lambda>k. k\<lparr>lk_locked := False, lk_cpu := None\<rparr>)"

definition pushcli :: "nat \<Rightarrow> unit S" where
  "pushcli c =
     kbind (kget (\<lambda>m. c_if (sm_cpus m ! c))) (\<lambda>eflags.
     kseq (upd_cpu c (\<lambda>k. k\<lparr>c_if := False\<rparr>)) (
     kseq (upd_cpu c (\<lambda>k. if c_ncli k = 0 then k\<lparr>c_intena := eflags\<rparr> else k)) (
     upd_cpu c (\<lambda>k. k\<lparr>c_ncli := c_ncli k + 1\<rparr>))))"

definition popcli :: "nat \<Rightarrow> unit S" where
  "popcli c =
     kbind (kget (\<lambda>m. c_if (sm_cpus m ! c))) (\<lambda>eflags.
     if eflags then kpanic ''popcli - interruptible''
     else
       kseq (upd_cpu c (\<lambda>k. k\<lparr>c_ncli := c_ncli k - 1\<rparr>)) (
       kbind (kget (\<lambda>m. sm_cpus m ! c)) (\<lambda>k.
       if c_ncli k < 0 then kpanic ''popcli''
       else kwhen (c_ncli k = 0 \<and> c_intena k) (upd_cpu c (\<lambda>k. k\<lparr>c_if := True\<rparr>)))))"

definition holding :: "nat \<Rightarrow> lockid \<Rightarrow> smp \<Rightarrow> bool" where
  "holding c l m \<longleftrightarrow> lk_locked (sm_locks m l) \<and> lk_cpu (sm_locks m l) = Some c"

definition set_pc :: "nat \<Rightarrow> cpupc \<Rightarrow> unit S" where
  "set_pc c p = kmod (\<lambda>m. m\<lparr>sm_pc := (sm_pc m)(c := p)\<rparr>)"

text \<open>\<open>acquire\<close> up to the loop; one \<open>xchg\<close> of the loop; the rest of \<open>acquire\<close>.\<close>

definition acquire_enter :: "nat \<Rightarrow> lockid \<Rightarrow> unit S" where
  "acquire_enter c l =
     kseq (pushcli c) (
     kbind (kget (holding c l)) (\<lambda>h. if h then kpanic ''acquire'' else set_pc c (Spin l)))"

definition acquire_xchg :: "nat \<Rightarrow> lockid \<Rightarrow> unit S" where
  "acquire_xchg c l =
     kbind (kget (\<lambda>m. lk_locked (sm_locks m l))) (\<lambda>old.
     kseq (upd_lock l (\<lambda>k. k\<lparr>lk_locked := True\<rparr>)) (
     kwhen (\<not> old) (
       kseq (kmod (\<lambda>m. m\<lparr>sm_sect := (sm_sect m)(c := l # sm_sect m c)\<rparr>)) (set_pc c (Got l)))))"

definition acquire_own :: "nat \<Rightarrow> lockid \<Rightarrow> unit S" where
  "acquire_own c l = kseq (upd_lock l (\<lambda>k. k\<lparr>lk_cpu := Some c\<rparr>)) (set_pc c Run)"

text \<open>\<open>release\<close> up to clearing the owner; clearing the lock word; \<open>popcli\<close>.\<close>

definition release_enter :: "nat \<Rightarrow> lockid \<Rightarrow> unit S" where
  "release_enter c l =
     kbind (kget (holding c l)) (\<lambda>h.
     if \<not> h then kpanic ''release''
     else kseq (upd_lock l (\<lambda>k. k\<lparr>lk_cpu := None\<rparr>)) (set_pc c (Rel l)))"

definition release_unlock :: "nat \<Rightarrow> lockid \<Rightarrow> unit S" where
  "release_unlock c l =
     kseq (upd_lock l (\<lambda>k. k\<lparr>lk_locked := False\<rparr>)) (
     kseq (kmod (\<lambda>m. m\<lparr>sm_sect := (sm_sect m)(c := remove1 l (sm_sect m c))\<rparr>)) (
     set_pc c Pop))"

definition release_exit :: "nat \<Rightarrow> unit S" where
  "release_exit c = kseq (popcli c) (set_pc c Run)"

section \<open>Interleaved execution\<close>

text \<open>A step of some processor. A step whose operation panics does not exist: the
  machine stops there.\<close>

inductive smp_step :: "smp \<Rightarrow> smp \<Rightarrow> bool" where
  enter: "c < length (sm_cpus m) \<Longrightarrow> sm_pc m c = Run \<Longrightarrow> acquire_enter c l m = Ok () m' \<Longrightarrow> smp_step m m'"
| xchg: "c < length (sm_cpus m) \<Longrightarrow> sm_pc m c = Spin l \<Longrightarrow> acquire_xchg c l m = Ok () m' \<Longrightarrow> smp_step m m'"
| own: "c < length (sm_cpus m) \<Longrightarrow> sm_pc m c = Got l \<Longrightarrow> acquire_own c l m = Ok () m' \<Longrightarrow> smp_step m m'"
| leave: "c < length (sm_cpus m) \<Longrightarrow> sm_pc m c = Run \<Longrightarrow> release_enter c l m = Ok () m' \<Longrightarrow> smp_step m m'"
| unlock: "c < length (sm_cpus m) \<Longrightarrow> sm_pc m c = Rel l \<Longrightarrow> release_unlock c l m = Ok () m' \<Longrightarrow> smp_step m m'"
| pop: "c < length (sm_cpus m) \<Longrightarrow> sm_pc m c = Pop \<Longrightarrow> release_exit c m = Ok () m' \<Longrightarrow> smp_step m m'"

inductive smp_reach :: "smp \<Rightarrow> smp \<Rightarrow> bool" for m0 where
  refl: "smp_reach m0 m0"
| step: "smp_reach m0 m \<Longrightarrow> smp_step m m' \<Longrightarrow> smp_reach m0 m'"

text \<open>All locks free, all processors outside the lock functions.\<close>

definition smp_init :: "smp \<Rightarrow> bool" where
  "smp_init m \<longleftrightarrow> (\<forall>l. \<not> lk_locked (sm_locks m l) \<and> lk_cpu (sm_locks m l) = None) \<and>
     (\<forall>c. sm_pc m c = Run \<and> sm_sect m c = []) \<and>
     (\<forall>c < length (sm_cpus m). c_ncli (sm_cpus m ! c) = 0)"

section \<open>Running the operations\<close>

lemma pushcli_run:
  assumes "c < length (sm_cpus m)"
  shows "pushcli c m = Ok () (m\<lparr>sm_cpus := (sm_cpus m)[c := (sm_cpus m ! c)
     \<lparr>c_if := False, c_intena := if c_ncli (sm_cpus m ! c) = 0 then c_if (sm_cpus m ! c)
        else c_intena (sm_cpus m ! c), c_ncli := c_ncli (sm_cpus m ! c) + 1\<rparr>]\<rparr>)"
  using assms by (simp add: pushcli_def upd_cpu_def krun)

lemma popcli_OkD:
  assumes "popcli c m = Ok () m'" "c < length (sm_cpus m)"
  shows "\<not> c_if (sm_cpus m ! c) \<and> 0 < c_ncli (sm_cpus m ! c) \<and>
    (\<exists>k. m' = m\<lparr>sm_cpus := (sm_cpus m)[c := k]\<rparr> \<and> c_ncli k = c_ncli (sm_cpus m ! c) - 1 \<and>
       c_intena k = c_intena (sm_cpus m ! c) \<and>
       c_if k = (c_ncli (sm_cpus m ! c) = 1 \<and> c_intena (sm_cpus m ! c)))"
  using assms by (auto simp: popcli_def upd_cpu_def krun split: if_splits)

section \<open>The invariant\<close>

definition pending :: "cpupc \<Rightarrow> int" where
  "pending p = (case p of Spin _ \<Rightarrow> 1 | Pop \<Rightarrow> 1 | _ \<Rightarrow> 0)"

text \<open>The lock word is set exactly while some processor is in the critical section;
  no two processors are in the same one; the owner field is exact except in the two
  windows around \<open>xchg\<close> and clearing the lock word; what a processor is about to do
  agrees with the sections it is in.\<close>

definition lock_inv :: "smp \<Rightarrow> bool" where
  "lock_inv m \<longleftrightarrow>
     (\<forall>l. lk_locked (sm_locks m l) \<longleftrightarrow> (\<exists>c. l \<in> set (sm_sect m c))) \<and>
     (\<forall>c d l. l \<in> set (sm_sect m c) \<and> l \<in> set (sm_sect m d) \<longrightarrow> c = d) \<and>
     (\<forall>c. distinct (sm_sect m c)) \<and>
     (\<forall>l c. lk_cpu (sm_locks m l) = Some c \<longleftrightarrow>
        l \<in> set (sm_sect m c) \<and> sm_pc m c \<noteq> Got l \<and> sm_pc m c \<noteq> Rel l) \<and>
     (\<forall>c l. (sm_pc m c = Got l \<or> sm_pc m c = Rel l \<longrightarrow> l \<in> set (sm_sect m c)) \<and>
        (sm_pc m c = Spin l \<longrightarrow> l \<notin> set (sm_sect m c)))"

text \<open>The nesting count of a processor is the number of critical sections it is in,
  plus one while it is spinning or has yet to call \<open>popcli\<close>; while it is positive
  interrupts are off.\<close>

definition cli_inv :: "smp \<Rightarrow> bool" where
  "cli_inv m \<longleftrightarrow> (\<forall>c < length (sm_cpus m).
     c_ncli (sm_cpus m ! c) = int (length (sm_sect m c)) + pending (sm_pc m c) \<and>
     (0 < c_ncli (sm_cpus m ! c) \<longrightarrow> \<not> c_if (sm_cpus m ! c)))"

text \<open>\<open>flags c\<close> is the interrupt flag processor \<open>c\<close> had when it last held no lock.\<close>

definition if_inv :: "(nat \<Rightarrow> bool) \<Rightarrow> smp \<Rightarrow> bool" where
  "if_inv flags m \<longleftrightarrow> (\<forall>c < length (sm_cpus m).
     if c_ncli (sm_cpus m ! c) = 0 then c_if (sm_cpus m ! c) = flags c
     else c_intena (sm_cpus m ! c) = flags c)"

lemma holding_iff_section:
  assumes "lock_inv m" "sm_pc m c = Run"
  shows "holding c l m \<longleftrightarrow> l \<in> set (sm_sect m c)"
  using assms unfolding lock_inv_def holding_def by (metis cpupc.distinct(3,5))

lemma lock_invD:
  assumes "lock_inv m"
  shows "lk_locked (sm_locks m l) \<longleftrightarrow> (\<exists>c. l \<in> set (sm_sect m c))"
    and "l \<in> set (sm_sect m c) \<Longrightarrow> l \<in> set (sm_sect m d) \<Longrightarrow> c = d"
    and "distinct (sm_sect m c)"
    and "lk_cpu (sm_locks m l) = Some c \<longleftrightarrow>
        l \<in> set (sm_sect m c) \<and> sm_pc m c \<noteq> Got l \<and> sm_pc m c \<noteq> Rel l"
    and "sm_pc m c = Got l \<Longrightarrow> l \<in> set (sm_sect m c)"
    and "sm_pc m c = Rel l \<Longrightarrow> l \<in> set (sm_sect m c)"
    and "sm_pc m c = Spin l \<Longrightarrow> l \<notin> set (sm_sect m c)"
  using assms unfolding lock_inv_def by blast+

lemma lock_invI:
  assumes "\<And>l. lk_locked (sm_locks m l) \<longleftrightarrow> (\<exists>c. l \<in> set (sm_sect m c))"
    and "\<And>c d l. l \<in> set (sm_sect m c) \<Longrightarrow> l \<in> set (sm_sect m d) \<Longrightarrow> c = d"
    and "\<And>c. distinct (sm_sect m c)"
    and "\<And>l c. lk_cpu (sm_locks m l) = Some c \<longleftrightarrow>
        l \<in> set (sm_sect m c) \<and> sm_pc m c \<noteq> Got l \<and> sm_pc m c \<noteq> Rel l"
    and "\<And>c l. sm_pc m c = Got l \<Longrightarrow> l \<in> set (sm_sect m c)"
    and "\<And>c l. sm_pc m c = Rel l \<Longrightarrow> l \<in> set (sm_sect m c)"
    and "\<And>c l. sm_pc m c = Spin l \<Longrightarrow> l \<notin> set (sm_sect m c)"
  shows "lock_inv m"
  unfolding lock_inv_def using assms by blast

lemmas lock_ops =
  acquire_enter_def acquire_xchg_def acquire_own_def release_enter_def release_unlock_def
  release_exit_def set_pc_def upd_lock_def

lemma lock_inv_take:
  assumes inv: "lock_inv m" and pc: "sm_pc m c = Spin l" and unl: "\<not> lk_locked (sm_locks m l)"
    and m': "sm_locks m' = (sm_locks m)(l := (sm_locks m l)\<lparr>lk_locked := True\<rparr>)"
      "sm_sect m' = (sm_sect m)(c := l # sm_sect m c)" "sm_pc m' = (sm_pc m)(c := Got l)"
  shows "lock_inv m'"
proof -
  note I = lock_invD [OF inv]
  have free: "l \<notin> set (sm_sect m d)" for d using unl I(1) by blast
  have sect: "k \<in> set (sm_sect m' d) \<longleftrightarrow> k \<in> set (sm_sect m d) \<or> k = l \<and> d = c" for k d
    unfolding m'(2) by auto
  show ?thesis
  proof (rule lock_invI, goal_cases)
    case (1 k) then show ?case using I(1) [of k] unfolding sect m'(1) by auto
  next
    case (2 d e k) then show ?case using I(2) [of k] free unfolding sect by blast
  next
    case (3 d) then show ?case using I(3) free unfolding m'(2) by simp
  next
    case (4 k d) then show ?case using I(4) [of k d] free pc unfolding sect m'(1,3) by auto
  next
    case (5 d k) then show ?case using I(5) [of d k] unfolding sect m'(3) by (auto split: if_splits)
  next
    case (6 d k) then show ?case using I(6) [of d k] unfolding sect m'(3) by (auto split: if_splits)
  next
    case (7 d k) then show ?case using I(7) [of d k] unfolding sect m'(3) by (auto split: if_splits)
  qed
qed

lemma lock_inv_drop:
  assumes inv: "lock_inv m" and pc: "sm_pc m c = Rel l"
    and m': "sm_locks m' = (sm_locks m)(l := (sm_locks m l)\<lparr>lk_locked := False\<rparr>)"
      "sm_sect m' = (sm_sect m)(c := remove1 l (sm_sect m c))" "sm_pc m' = (sm_pc m)(c := Pop)"
  shows "lock_inv m'"
proof -
  note I = lock_invD [OF inv]
  have l: "l \<in> set (sm_sect m d) \<longleftrightarrow> d = c" for d using I(2) I(6) [OF pc] by blast
  have sect: "k \<in> set (sm_sect m' d) \<longleftrightarrow> k \<in> set (sm_sect m d) \<and> k \<noteq> l" for k d
    unfolding m'(2) using I(3) [of c] l by auto
  show ?thesis
  proof (rule lock_invI, goal_cases)
    case (1 k) then show ?case using I(1) [of k] unfolding sect m'(1) by auto
  next
    case (2 d e k) then show ?case using I(2) [of k] unfolding sect by blast
  next
    case (3 d) then show ?case using I(3) unfolding m'(2) by simp
  next
    case (4 k d) then show ?case using I(4) [of k d] l pc unfolding sect m'(1,3) by auto
  next
    case (5 d k) then show ?case using I(5) [of d] l pc unfolding sect m'(3) by (auto split: if_splits)
  next
    case (6 d k) then show ?case using I(6) [of d] l pc unfolding sect m'(3) by (auto split: if_splits)
  next
    case (7 d k) then show ?case using I(7) [of d k] unfolding sect m'(3) by (auto split: if_splits)
  qed
qed

lemma lock_inv_step: "smp_step m m' \<Longrightarrow> lock_inv m \<Longrightarrow> lock_inv m'"
proof (induction rule: smp_step.induct)
  case (enter c m l m')
  then have "\<not> holding c l m" "sm_locks m' = sm_locks m" "sm_sect m' = sm_sect m"
      "sm_pc m' = (sm_pc m)(c := Spin l)"
    by (auto simp: lock_ops krun pushcli_run holding_def split: if_splits)
  with enter show ?case
    using holding_iff_section [of m c l] unfolding lock_inv_def by auto
next
  case (xchg c m l m')
  show ?case
  proof (cases "lk_locked (sm_locks m l)")
    case True
    then have "(sm_locks m)(l := (sm_locks m l)\<lparr>lk_locked := True\<rparr>) = sm_locks m" by auto
    with xchg True have "m' = m" by (simp add: lock_ops krun)
    with xchg show ?thesis by simp
  next
    case False
    with xchg have m': "sm_locks m' = (sm_locks m)(l := (sm_locks m l)\<lparr>lk_locked := True\<rparr>)"
        "sm_sect m' = (sm_sect m)(c := l # sm_sect m c)" "sm_pc m' = (sm_pc m)(c := Got l)"
      by (auto simp: lock_ops krun)
    show ?thesis by (rule lock_inv_take [OF xchg.prems xchg.hyps(2) False m'])
  qed
next
  case (own c m l m')
  then have m': "sm_locks m' = (sm_locks m)(l := (sm_locks m l)\<lparr>lk_cpu := Some c\<rparr>)"
      "sm_sect m' = sm_sect m" "sm_pc m' = (sm_pc m)(c := Run)"
    by (auto simp: lock_ops krun)
  have "l \<in> set (sm_sect m d) \<longleftrightarrow> d = c" for d
    using own.prems own.hyps(2) unfolding lock_inv_def by blast
  then show ?case
    using own.prems own.hyps(2) unfolding lock_inv_def m' by auto
next
  case (leave c m l m')
  then have h: "holding c l m" and m': "sm_locks m' = (sm_locks m)(l := (sm_locks m l)\<lparr>lk_cpu := None\<rparr>)"
      "sm_sect m' = sm_sect m" "sm_pc m' = (sm_pc m)(c := Rel l)"
    by (auto simp: lock_ops krun split: if_splits)
  have "l \<in> set (sm_sect m d) \<longleftrightarrow> d = c" for d
    using leave.prems h holding_iff_section [OF leave.prems leave.hyps(2)]
    unfolding lock_inv_def by blast
  then show ?case
    using leave.prems leave.hyps(2) unfolding lock_inv_def m' by auto
next
  case (unlock c m l m')
  then have m': "sm_locks m' = (sm_locks m)(l := (sm_locks m l)\<lparr>lk_locked := False\<rparr>)"
      "sm_sect m' = (sm_sect m)(c := remove1 l (sm_sect m c))" "sm_pc m' = (sm_pc m)(c := Pop)"
    by (auto simp: lock_ops krun)
  show ?case by (rule lock_inv_drop [OF unlock.prems unlock.hyps(2) m'])
next
  case (pop c m m')
  then obtain u where "popcli c m = Ok () u" "m' = u\<lparr>sm_pc := (sm_pc u)(c := Run)\<rparr>"
    by (auto simp: lock_ops kOk)
  with popcli_OkD [OF this(1) pop.hyps(1)]
  have "sm_locks m' = sm_locks m" "sm_sect m' = sm_sect m" "sm_pc m' = (sm_pc m)(c := Run)" by auto
  with pop show ?case unfolding lock_inv_def by auto
qed

lemma smp_step_cpus:
  "smp_step m m' \<Longrightarrow> length (sm_cpus m') = length (sm_cpus m)"
  by (induction rule: smp_step.induct)
    (auto simp: lock_ops kOk pushcli_run dest!: popcli_OkD split: if_splits)

lemma cli_inv_step: "smp_step m m' \<Longrightarrow> lock_inv m \<Longrightarrow> cli_inv m \<Longrightarrow> cli_inv m'"
proof (induction rule: smp_step.induct)
  case (enter c m l m')
  then show ?case
    by (auto simp: cli_inv_def pending_def lock_ops kOk pushcli_run nth_list_update split: if_splits)
next
  case (xchg c m l m')
  then show ?case
    by (auto simp: cli_inv_def pending_def lock_ops kOk split: if_splits)
next
  case (own c m l m')
  then show ?case by (auto simp: cli_inv_def pending_def lock_ops kOk)
next
  case (leave c m l m')
  then show ?case by (auto simp: cli_inv_def pending_def lock_ops kOk split: if_splits)
next
  case (unlock c m l m')
  have "l \<in> set (sm_sect m c)" by (rule lock_invD(6) [OF unlock.prems(1) unlock.hyps(2)])
  from length_remove1_mem [OF this] unlock show ?case
    by (auto simp: cli_inv_def pending_def lock_ops kOk)
next
  case (pop c m m')
  then obtain u where u: "popcli c m = Ok () u" "m' = u\<lparr>sm_pc := (sm_pc u)(c := Run)\<rparr>"
    by (auto simp: lock_ops kOk)
  with popcli_OkD [OF u(1) pop.hyps(1)] pop show ?case
    by (auto simp: cli_inv_def pending_def nth_list_update)
qed

lemma if_inv_step: "smp_step m m' \<Longrightarrow> cli_inv m \<Longrightarrow> if_inv fl m \<Longrightarrow> if_inv fl m'"
proof (induction rule: smp_step.induct)
  case (enter c m l m')
  then have "0 \<le> c_ncli (sm_cpus m ! c)" by (auto simp: cli_inv_def pending_def split: cpupc.splits)
  with enter show ?case
    by (auto simp: if_inv_def lock_ops kOk pushcli_run nth_list_update split: if_splits)
next
  case (pop c m m')
  then obtain u where u: "popcli c m = Ok () u" "m' = u\<lparr>sm_pc := (sm_pc u)(c := Run)\<rparr>"
    by (auto simp: lock_ops kOk)
  with popcli_OkD [OF u(1) pop.hyps(1)] pop show ?case
    by (auto simp: if_inv_def nth_list_update split: if_splits)
qed (auto simp: if_inv_def lock_ops kOk split: if_splits)

text \<open>All three hold in every reachable state.\<close>

lemma smp_reach_inv:
  assumes "smp_reach m0 m" "smp_init m0"
  shows "lock_inv m \<and> cli_inv m \<and> if_inv (\<lambda>c. c_if (sm_cpus m0 ! c)) m \<and>
    length (sm_cpus m) = length (sm_cpus m0)"
  using assms
proof (induction rule: smp_reach.induct)
  case refl
  then show ?case
    by (auto simp: smp_init_def lock_inv_def cli_inv_def if_inv_def pending_def)
next
  case (step m m')
  then show ?case
    using lock_inv_step [of m m'] cli_inv_step [of m m'] if_inv_step [of m m'] smp_step_cpus [of m m']
    by simp
qed

section \<open>The discipline the rest of the kernel relies on\<close>

text \<open>What a processor does to the list of locks it holds, as the other theories
  see it: \<open>acquire\<close> puts a lock no processor holds on the list, \<open>release\<close> takes one
  off.\<close>

inductive held_step :: "(nat \<Rightarrow> lockid list) \<Rightarrow> (nat \<Rightarrow> lockid list) \<Rightarrow> bool" where
  held_same: "held_step h h"
| held_acquire: "(\<And>d. l \<notin> set (h d)) \<Longrightarrow>
    acquire l (s\<lparr>k_held := h c\<rparr>) = Ok () (s\<lparr>k_held := ks\<rparr>) \<Longrightarrow> held_step h (h(c := ks))"
| held_release: "release l (s\<lparr>k_held := h c\<rparr>) = Ok () (s\<lparr>k_held := ks\<rparr>) \<Longrightarrow>
    held_step h (h(c := ks))"

lemma smp_step_held:
  assumes "smp_step m m'" "lock_inv m"
  shows "held_step (sm_sect m) (sm_sect m')"
  using assms
proof (induction rule: smp_step.induct)
  case (xchg c m l m')
  show ?case
  proof (cases "lk_locked (sm_locks m l)")
    case True
    with xchg have "sm_sect m' = sm_sect m" by (auto simp: lock_ops kOk)
    then show ?thesis by (simp add: held_same)
  next
    case False
    with xchg have sect: "sm_sect m' = (sm_sect m)(c := l # sm_sect m c)" by (auto simp: lock_ops kOk)
    have "l \<notin> set (sm_sect m d)" for d
      using False lock_invD(1) [OF xchg.prems] by blast
    then have "held_step (sm_sect m) ((sm_sect m)(c := l # sm_sect m c))"
      using held_acquire [where l = l and s = "kernel0 (\<lambda>_. 0) 0 0 (\<lambda>_. [])" and c = c
        and h = "sm_sect m" and ks = "l # sm_sect m c"]
      by (simp add: acquire_run)
    with sect show ?thesis by (simp only:)
  qed
next
  case (unlock c m l m')
  have "l \<in> set (sm_sect m c)" by (rule lock_invD(6) [OF unlock.prems unlock.hyps(2)])
  moreover from unlock have sect: "sm_sect m' = (sm_sect m)(c := remove1 l (sm_sect m c))"
    by (auto simp: lock_ops kOk)
  ultimately have "held_step (sm_sect m) ((sm_sect m)(c := remove1 l (sm_sect m c)))"
    using held_release [where l = l and s = "kernel0 (\<lambda>_. 0) 0 0 (\<lambda>_. [])" and c = c
      and h = "sm_sect m" and ks = "remove1 l (sm_sect m c)"]
    by (simp add: release_run)
  with sect show ?case by (simp only:)
qed (auto simp: lock_ops kOk pushcli_run intro: held_same dest!: popcli_OkD split: if_splits)

section \<open>Properties\<close>

text \<open>Two processors with interrupts on and all locks free.\<close>

definition two_cpus :: smp where
  "two_cpus = \<lparr>sm_cpus = [\<lparr>c_apicid = 0, c_ncli = 0, c_intena = False, c_if = True\<rparr>,
       \<lparr>c_apicid = 1, c_ncli = 0, c_intena = False, c_if = True\<rparr>],
     sm_locks = (\<lambda>_. \<lparr>lk_locked = False, lk_cpu = None\<rparr>),
     sm_pc = (\<lambda>_. Run), sm_sect = (\<lambda>_. [])\<rparr>"

text \<open>The same after processor 0 has entered \<open>acquire\<close> for the console lock.\<close>

definition cpu0_spins :: smp where
  "cpu0_spins = two_cpus\<lparr>sm_cpus := (sm_cpus two_cpus)
       [0 := \<lparr>c_apicid = 0, c_ncli = 1, c_intena = True, c_if = False\<rparr>],
     sm_pc := (\<lambda>_. Run)(0 := Spin ConsLock)\<rparr>"

lemma two_cpus_reach: "smp_init two_cpus" "smp_reach two_cpus cpu0_spins"
proof -
  show "smp_init two_cpus" by (simp add: smp_init_def two_cpus_def less_Suc_eq)
  have "acquire_enter 0 ConsLock two_cpus = Ok () cpu0_spins"
    by (simp add: acquire_enter_def krun pushcli_run two_cpus_def cpu0_spins_def holding_def set_pc_def)
  then have "smp_step two_cpus cpu0_spins"
    by (intro smp_step.enter [of 0 _ ConsLock]) (simp_all add: two_cpus_def)
  then show "smp_reach two_cpus cpu0_spins" by (rule smp_reach.step [OF smp_reach.refl])
qed

text \<open>C35 (spinlock.c:24-68): mutual exclusion. However the processors interleave, no
  two of them are ever between the \<open>xchg\<close> that takes a lock and the store that frees
  it; the lock word is set exactly while some processor is there; and outside the
  lock functions \<open>holding\<close> tells a processor exactly which locks it holds, so that
  \<open>acquire\<close> and \<open>release\<close> panic exactly on misuse.\<close>

theorem spinlock_mutual_exclusion:
  assumes "smp_init m0" "smp_reach m0 m"
  shows "(l \<in> set (sm_sect m c) \<and> l \<in> set (sm_sect m d) \<longrightarrow> c = d) \<and>
    (lk_locked (sm_locks m l) \<longleftrightarrow> (\<exists>e. l \<in> set (sm_sect m e))) \<and>
    (sm_pc m c = Run \<longrightarrow> (holding c l m \<longleftrightarrow> l \<in> set (sm_sect m c)))"
  using smp_reach_inv [OF assms(2,1)] lock_invD(1,2) [of m l] holding_iff_section [of m c l] by blast

theorem spinlock_mutual_exclusion_witness:
  "\<not> lk_locked (sm_locks cpu0_spins ConsLock) \<and> sm_pc cpu0_spins 0 = Spin ConsLock"
  using spinlock_mutual_exclusion [OF two_cpus_reach, of ConsLock]
  by (simp add: cpu0_spins_def two_cpus_def)

text \<open>C36 (spinlock.c:100-121): \<open>pushcli\<close> and \<open>popcli\<close> nest. In every reachable state the
  nesting count of a processor is the number of critical sections it is in, plus one
  while it spins or has yet to call \<open>popcli\<close>; while the count is positive interrupts
  are off; and when it is zero the interrupt flag is what it was at the start. The steps are
  those of \<open>acquire\<close> and \<open>release\<close>; the \<open>sti\<close> of the scheduler, the exchange of \<open>intena\<close> in
  \<open>sched\<close> and the \<open>pushcli\<close> and \<open>popcli\<close> of \<open>myproc\<close> and \<open>switchuvm\<close> are not among them.\<close>

theorem cli_nesting:
  assumes "smp_init m0" "smp_reach m0 m" "c < length (sm_cpus m0)"
  shows "c_ncli (sm_cpus m ! c) = int (length (sm_sect m c)) + pending (sm_pc m c) \<and>
    (0 < c_ncli (sm_cpus m ! c) \<longrightarrow> \<not> c_if (sm_cpus m ! c)) \<and>
    (c_ncli (sm_cpus m ! c) = 0 \<longrightarrow> c_if (sm_cpus m ! c) = c_if (sm_cpus m0 ! c))"
  using smp_reach_inv [OF assms(2,1)] assms(3) by (auto simp: cli_inv_def if_inv_def)

theorem cli_nesting_witness:
  "c_ncli (sm_cpus cpu0_spins ! 0) = 1 \<and> \<not> c_if (sm_cpus cpu0_spins ! 0)"
  using cli_nesting [OF two_cpus_reach, of 0]
  by (simp add: cpu0_spins_def two_cpus_def pending_def)

text \<open>C37 (spinlock.c:24-68): the lock words refine the lock lists the rest of the
  development uses. Each step of a processor leaves all lists of held locks as they
  are, or is one \<open>acquire\<close> by one processor of a lock that no processor holds, or is
  one \<open>release\<close> of a lock it holds, as \<open>acquire\<close> and \<open>release\<close> act on \<open>k_held\<close>.\<close>

theorem spinlock_refines_held:
  assumes "smp_init m0" "smp_reach m0 m" "smp_step m m'"
  shows "held_step (sm_sect m) (sm_sect m')"
  using smp_reach_inv [OF assms(2,1)] smp_step_held [OF assms(3)] by blast

theorem spinlock_refines_held_witness:
  "held_step (sm_sect two_cpus) (sm_sect cpu0_spins)"
proof -
  have "acquire_enter 0 ConsLock two_cpus = Ok () cpu0_spins"
    by (simp add: acquire_enter_def krun pushcli_run two_cpus_def cpu0_spins_def holding_def set_pc_def)
  then have "smp_step two_cpus cpu0_spins"
    by (intro smp_step.enter [of 0 _ ConsLock]) (simp_all add: two_cpus_def)
  from spinlock_refines_held [OF two_cpus_reach(1) smp_reach.refl this] show ?thesis .
qed

end
