(* ===== verification/Sleeplock.thy ===== *)
theory Sleeplock
  imports Proc
begin

text \<open>
  Long-term locks (\<open>sleeplock.c\<close>). There is one in each buffer of the block cache
  and one in each cached inode; a lock is named by where it is.
\<close>

definition get_slock :: "slockid \<Rightarrow> kernel \<Rightarrow> sleeplock" where
  "get_slock sl s = (case sl of
       BufSleep b \<Rightarrow> b_lock (k_bcache s ! b)
     | InodeSleep i \<Rightarrow> ip_lock (k_icache s ! i))"

definition set_slock :: "slockid \<Rightarrow> sleeplock \<Rightarrow> unit K" where
  "set_slock sl l = kmod (\<lambda>s. case sl of
       BufSleep b \<Rightarrow> s\<lparr>k_bcache := (k_bcache s)[b := (k_bcache s ! b)\<lparr>b_lock := l\<rparr>]\<rparr>
     | InodeSleep i \<Rightarrow> s\<lparr>k_icache := (k_icache s)[i := (k_icache s ! i)\<lparr>ip_lock := l\<rparr>]\<rparr>)"

definition initsleeplock :: "slockid \<Rightarrow> unit K" where
  "initsleeplock sl = set_slock sl \<lparr>sl_locked = False, sl_pid = 0\<rparr>"

text \<open>The \<open>while\<close> loop of \<open>acquiresleep\<close> and what follows it. A process that has to
  sleep goes on in \<open>acquiresleep_resume\<close>.\<close>

definition acquiresleep_loop :: "slockid \<Rightarrow> unit K" where
  "acquiresleep_loop sl =
     kbind (kget (\<lambda>s. sl_locked (get_slock sl s))) (\<lambda>locked.
     if locked then sleep (ChanSleep sl) (SleepLk sl)
     else
       kbind curproc (\<lambda>p.
       kbind (get_proc p) (\<lambda>q.
       kseq (set_slock sl \<lparr>sl_locked = True, sl_pid = p_pid q\<rparr>) (
       release (SleepLk sl)))))"

definition acquiresleep :: "slockid \<Rightarrow> unit K" where
  "acquiresleep sl = kseq (acquire (SleepLk sl)) (acquiresleep_loop sl)"

definition acquiresleep_resume :: "nat \<Rightarrow> slockid \<Rightarrow> unit K" where
  "acquiresleep_resume p sl = kseq (sleep_resume p (SleepLk sl)) (acquiresleep_loop sl)"

definition releasesleep :: "slockid \<Rightarrow> unit K" where
  "releasesleep sl =
     kseq (acquire (SleepLk sl)) (
     kseq (set_slock sl \<lparr>sl_locked = False, sl_pid = 0\<rparr>) (
     kseq (wakeup (ChanSleep sl)) (
     release (SleepLk sl))))"

definition holdingsleep :: "slockid \<Rightarrow> bool K" where
  "holdingsleep sl =
     kseq (acquire (SleepLk sl)) (
     kbind (kget (\<lambda>s. sl_locked (get_slock sl s))) (\<lambda>r.
     kseq (release (SleepLk sl)) (
     kret r)))"

end
