(* ===== verification/Ide.thy ===== *)
theory Ide
  imports Sleeplock
begin

text \<open>
  The disk drivers. A kernel is linked with one of them. The memory disk (\<open>memide.c\<close>) completes
  a transfer at once, and its interrupt has nothing to do. The driver of the IDE disk
  (\<open>ide.c\<close>) has a queue of requests linked through \<open>qnext\<close>; the buffer at its head is the
  active request, and the process that made it sleeps. The controller is hardware: the
  status and the data it returns are arguments, and the commands it receives are
  recorded in \<open>k_idecmds\<close>.
\<close>

abbreviation (input) B_VALID :: u32 where "B_VALID \<equiv> 0x2"
abbreviation (input) B_DIRTY :: u32 where "B_DIRTY \<equiv> 0x4"

definition get_buf :: "nat \<Rightarrow> buf K" where
  "get_buf b = kget (\<lambda>s. k_bcache s ! b)"

definition upd_buf :: "nat \<Rightarrow> (buf \<Rightarrow> buf) \<Rightarrow> unit K" where
  "upd_buf b f = kmod (\<lambda>s. s\<lparr>k_bcache := (k_bcache s)[b := f (k_bcache s ! b)]\<rparr>)"

section \<open>The memory disk\<close>

definition disk_write :: "u32 \<Rightarrow> u8 list \<Rightarrow> unit K" where
  "disk_write blockno d =
     kmod (\<lambda>s. s\<lparr>k_disk := (k_disk s)(blockno := d), k_dtrace := k_dtrace s @ [(blockno, d)]\<rparr>)"

definition iderw :: "nat \<Rightarrow> unit K" where
  "iderw b =
     kbind (holdingsleep (BufSleep b)) (\<lambda>h.
     if \<not> h then kpanic ''iderw: buf not locked''
     else
       kbind (get_buf b) (\<lambda>q.
       if b_flags q AND (B_VALID OR B_DIRTY) = B_VALID then kpanic ''iderw: nothing to do''
       else if b_dev q \<noteq> 1 then kpanic ''iderw: request not for disk 1''
       else
         kbind (kget k_disksize) (\<lambda>disksize.
         if b_blockno q \<ge> disksize then kpanic ''iderw: block out of range''
         else
           kseq (if b_flags q AND B_DIRTY \<noteq> 0
                 then kseq (upd_buf b (\<lambda>q. q\<lparr>b_flags := b_flags q AND NOT B_DIRTY\<rparr>))
                        (disk_write (b_blockno q) (b_data q))
                 else kbind (kget (\<lambda>s. k_disk s (b_blockno q))) (\<lambda>d.
                      upd_buf b (\<lambda>q. q\<lparr>b_data := d\<rparr>))) (
           upd_buf b (\<lambda>q. q\<lparr>b_flags := b_flags q OR B_VALID\<rparr>)))))"

definition ideintr_mem :: "unit K" where
  "ideintr_mem = kret ()"

section \<open>The IDE disk\<close>

text \<open>The busy wait on the successive values of the status port; \<open>None\<close> if none of
  them shows the disk ready.\<close>

fun idewait :: "bool \<Rightarrow> u8 list \<Rightarrow> int option" where
  "idewait checkerr [] = None"
| "idewait checkerr (r # rs) =
     (if r AND (0x80 OR 0x40) \<noteq> 0x40 then idewait checkerr rs
      else Some (if checkerr \<and> r AND (0x20 OR 0x01) \<noteq> 0 then -1 else 0))"

definition ideinit :: "u8 list \<Rightarrow> unit K" where
  "ideinit statuses = kwhen (list_ex (\<lambda>st. st \<noteq> 0) (take 1000 statuses)) (kmod (\<lambda>s. s\<lparr>k_havedisk1 := True\<rparr>))"

definition ide_command :: "buf \<Rightarrow> idecmd" where
  "ide_command b =
     (let sector = b_blockno b in
      \<lparr>ic_nsect = 1, ic_lba0 = ucast (sector AND 0xff), ic_lba1 = ucast (drop_bit 8 sector AND 0xff),
       ic_lba2 = ucast (drop_bit 16 sector AND 0xff),
       ic_drive = 0xe0 OR ucast (push_bit 4 (b_dev b AND 1)) OR ucast (drop_bit 24 sector AND 0x0f),
       ic_cmd = (if b_flags b AND B_DIRTY \<noteq> 0 then 0x30 else 0x20),
       ic_data = (if b_flags b AND B_DIRTY \<noteq> 0 then b_data b else [])\<rparr>)"

definition idestart :: "nat option \<Rightarrow> unit K" where
  "idestart b =
     (case b of
        None \<Rightarrow> kpanic ''idestart''
      | Some b \<Rightarrow>
          kbind (get_buf b) (\<lambda>q.
          if b_blockno q \<ge> FSSIZE then kpanic ''incorrect blockno''
          else kmod (\<lambda>s. s\<lparr>k_idecmds := k_idecmds s @ [ide_command q]\<rparr>)))"

definition ideintr :: "u8 list \<Rightarrow> u8 list \<Rightarrow> unit K" where
  "ideintr statuses data =
     kseq (acquire IdeLock) (
     kbind (kget k_idequeue) (\<lambda>h.
     case h of
       None \<Rightarrow> release IdeLock
     | Some b \<Rightarrow>
         kbind (get_buf b) (\<lambda>q.
         kseq (kmod (\<lambda>s. s\<lparr>k_idequeue := b_qnext q\<rparr>)) (
         kseq (kwhen (b_flags q AND B_DIRTY = 0)
           (case idewait True statuses of
              None \<Rightarrow> kpanic ''endless loop''
            | Some r \<Rightarrow> kwhen (r \<ge> 0) (upd_buf b (\<lambda>q. q\<lparr>b_data := data\<rparr>)))) (
         kseq (upd_buf b (\<lambda>q. q\<lparr>b_flags := b_flags q OR B_VALID\<rparr>)) (
         kseq (upd_buf b (\<lambda>q. q\<lparr>b_flags := b_flags q AND NOT B_DIRTY\<rparr>)) (
         kseq (wakeup (ChanBuf b)) (
         kseq (kwhen (b_qnext q \<noteq> None) (idestart (b_qnext q))) (
         release IdeLock)))))))))"

text \<open>The end of the queue that starts at \<open>b\<close>, looked for in at most \<open>n\<close> nodes; the
  walk in the code does not end when the links form a cycle.\<close>

fun ide_last :: "buf list \<Rightarrow> nat \<Rightarrow> nat \<Rightarrow> nat option" where
  "ide_last bufs 0 b = None"
| "ide_last bufs (Suc n) b =
     (case b_qnext (bufs ! b) of None \<Rightarrow> Some b | Some c \<Rightarrow> ide_last bufs n c)"

definition ide_append :: "nat \<Rightarrow> unit K" where
  "ide_append b =
     kseq (upd_buf b (\<lambda>q. q\<lparr>b_qnext := None\<rparr>)) (
     kbind (kget k_idequeue) (\<lambda>h.
     case h of
       None \<Rightarrow> kmod (\<lambda>s. s\<lparr>k_idequeue := Some b\<rparr>)
     | Some h \<Rightarrow>
         kbind (kget (\<lambda>s. ide_last (k_bcache s) NBUF h)) (\<lambda>l.
         case l of
           None \<Rightarrow> kpanic ''endless loop''
         | Some l \<Rightarrow> upd_buf l (\<lambda>q. q\<lparr>b_qnext := Some b\<rparr>))))"

text \<open>The wait for the request to finish.\<close>

definition ide_wait :: "nat \<Rightarrow> unit K" where
  "ide_wait b =
     kbind (get_buf b) (\<lambda>q.
     if b_flags q AND (B_VALID OR B_DIRTY) \<noteq> B_VALID then sleep (ChanBuf b) IdeLock
     else release IdeLock)"

definition ide_rw :: "nat \<Rightarrow> unit K" where
  "ide_rw b =
     kbind (holdingsleep (BufSleep b)) (\<lambda>h.
     if \<not> h then kpanic ''iderw: buf not locked''
     else
       kbind (get_buf b) (\<lambda>q.
       if b_flags q AND (B_VALID OR B_DIRTY) = B_VALID then kpanic ''iderw: nothing to do''
       else
         kbind (kget k_havedisk1) (\<lambda>disk1.
         if b_dev q \<noteq> 0 \<and> \<not> disk1 then kpanic ''iderw: ide disk 1 not present''
         else
           kseq (acquire IdeLock) (
           kseq (ide_append b) (
           kbind (kget k_idequeue) (\<lambda>h.
           kseq (kwhen (h = Some b) (idestart h)) (
           ide_wait b)))))))"

definition ide_rw_resume :: "nat \<Rightarrow> nat \<Rightarrow> unit K" where
  "ide_rw_resume p b = kseq (sleep_resume p IdeLock) (ide_wait b)"

section \<open>The driver of the kernel\<close>

text \<open>\<open>iderw\<close> and \<open>ideintr\<close> of the driver the kernel is linked with.\<close>

definition disk_rw :: "nat \<Rightarrow> unit K" where
  "disk_rw b = kbind (kget k_memdisk) (\<lambda>m. if m then iderw b else ide_rw b)"

definition disk_intr :: "u8 list \<Rightarrow> u8 list \<Rightarrow> unit K" where
  "disk_intr statuses data = kbind (kget k_memdisk) (\<lambda>m. if m then ideintr_mem else ideintr statuses data)"

end
