(* ===== verification/Bio.thy ===== *)
theory Bio
  imports Ide
begin

text \<open>
  The buffer cache (\<open>bio.c\<close>) over the disk driver of the kernel. \<open>k_bcache\<close> holds the 30 buffers and, as entry 30, the list head.
  A scan of the doubly linked list is bounded by the number of its nodes. Block
  contents are byte lists, with little-endian 16- and 32-bit fields.
\<close>

section \<open>Fields of a block\<close>

definition get16 :: "u8 list \<Rightarrow> nat \<Rightarrow> u16" where
  "get16 d i = ucast (d ! i) OR push_bit 8 (ucast (d ! (i + 1)))"

definition put16 :: "u8 list \<Rightarrow> nat \<Rightarrow> u16 \<Rightarrow> u8 list" where
  "put16 d i w = d[i := ucast w, i + 1 := ucast (drop_bit 8 w)]"

definition get32 :: "u8 list \<Rightarrow> nat \<Rightarrow> u32" where
  "get32 d i = ucast (d ! i) OR push_bit 8 (ucast (d ! (i + 1))) OR
     push_bit 16 (ucast (d ! (i + 2))) OR push_bit 24 (ucast (d ! (i + 3)))"

definition put32 :: "u8 list \<Rightarrow> nat \<Rightarrow> u32 \<Rightarrow> u8 list" where
  "put32 d i w = d[i := ucast w, i + 1 := ucast (drop_bit 8 w), i + 2 := ucast (drop_bit 16 w),
     i + 3 := ucast (drop_bit 24 w)]"

text \<open>Overwriting the bytes from index \<open>i\<close> on, and reading \<open>n\<close> of them.\<close>

definition put_bytes :: "u8 list \<Rightarrow> nat \<Rightarrow> u8 list \<Rightarrow> u8 list" where
  "put_bytes d i xs = take i d @ xs @ drop (i + length xs) d"

definition get_bytes :: "u8 list \<Rightarrow> nat \<Rightarrow> nat \<Rightarrow> u8 list" where
  "get_bytes d i n = take n (drop i d)"

section \<open>The cache\<close>

text \<open>\<open>bcache.head\<close> is the node after the buffers.\<close>

abbreviation (input) bhead :: nat where "bhead \<equiv> NBUF"

text \<open>\<open>b->next->prev = b->prev\<close> and the like, one store at a time.\<close>

definition set_next :: "nat \<Rightarrow> nat \<Rightarrow> unit K" where
  "set_next b x = upd_buf b (\<lambda>q. q\<lparr>b_next := x\<rparr>)"

definition set_prev :: "nat \<Rightarrow> nat \<Rightarrow> unit K" where
  "set_prev b x = upd_buf b (\<lambda>q. q\<lparr>b_prev := x\<rparr>)"

definition binit :: "unit K" where
  "binit =
     kseq (set_prev bhead bhead) (
     kseq (set_next bhead bhead) (
     kfor [0..<NBUF] (\<lambda>b.
       kbind (get_buf bhead) (\<lambda>h.
       kseq (set_next b (b_next h)) (
       kseq (set_prev b bhead) (
       kseq (initsleeplock (BufSleep b)) (
       kseq (set_prev (b_next h) b) (
       set_next bhead b))))))))"

text \<open>\<open>for(b = ...; b != &bcache.head; b = nx(b)) if(test(b))\<close> with at most \<open>n\<close> nodes.\<close>

fun bscan :: "(buf \<Rightarrow> nat) \<Rightarrow> (buf \<Rightarrow> bool) \<Rightarrow> buf list \<Rightarrow> nat \<Rightarrow> nat \<Rightarrow> nat option" where
  "bscan nx test bufs 0 b = None"
| "bscan nx test bufs (Suc n) b =
     (if b = bhead then None
      else if test (bufs ! b) then Some b
      else bscan nx test bufs n (nx (bufs ! b)))"

definition bget :: "u32 \<Rightarrow> u32 \<Rightarrow> nat K" where
  "bget dev blockno =
     kseq (acquire BcacheLock) (
     kbind (kget (\<lambda>s. bscan b_next (\<lambda>q. b_dev q = dev \<and> b_blockno q = blockno) (k_bcache s) NBUF
       (b_next (k_bcache s ! bhead)))) (\<lambda>r.
     case r of
       Some b \<Rightarrow>
         kseq (upd_buf b (\<lambda>q. q\<lparr>b_refcnt := b_refcnt q + 1\<rparr>)) (
         kseq (release BcacheLock) (
         kseq (acquiresleep (BufSleep b)) (kret b)))
     | None \<Rightarrow>
         kbind (kget (\<lambda>s. bscan b_prev (\<lambda>q. b_refcnt q = 0 \<and> b_flags q AND B_DIRTY = 0) (k_bcache s) NBUF
           (b_prev (k_bcache s ! bhead)))) (\<lambda>r.
         case r of
           None \<Rightarrow> kpanic ''bget: no buffers''
         | Some b \<Rightarrow>
             kseq (upd_buf b (\<lambda>q. q\<lparr>b_dev := dev, b_blockno := blockno, b_flags := 0, b_refcnt := 1\<rparr>)) (
             kseq (release BcacheLock) (
             kseq (acquiresleep (BufSleep b)) (kret b))))))"

definition bread :: "u32 \<Rightarrow> u32 \<Rightarrow> nat K" where
  "bread dev blockno =
     kbind (bget dev blockno) (\<lambda>b.
     kbind (get_buf b) (\<lambda>q.
     kseq (kwhen (b_flags q AND B_VALID = 0) (disk_rw b)) (kret b)))"

definition bwrite :: "nat \<Rightarrow> unit K" where
  "bwrite b =
     kbind (holdingsleep (BufSleep b)) (\<lambda>h.
     if \<not> h then kpanic ''bwrite''
     else kseq (upd_buf b (\<lambda>q. q\<lparr>b_flags := b_flags q OR B_DIRTY\<rparr>)) (disk_rw b))"

definition brelse :: "nat \<Rightarrow> unit K" where
  "brelse b =
     kbind (holdingsleep (BufSleep b)) (\<lambda>h.
     if \<not> h then kpanic ''brelse''
     else
       kseq (releasesleep (BufSleep b)) (
       kseq (acquire BcacheLock) (
       kseq (upd_buf b (\<lambda>q. q\<lparr>b_refcnt := b_refcnt q - 1\<rparr>)) (
       kbind (get_buf b) (\<lambda>q.
       kseq (kwhen (b_refcnt q = 0) (
         kseq (set_prev (b_next q) (b_prev q)) (
         kseq (set_next (b_prev q) (b_next q)) (
         kbind (get_buf bhead) (\<lambda>h.
         kseq (set_next b (b_next h)) (
         kseq (set_prev b bhead) (
         kseq (set_prev (b_next h) b) (
         set_next bhead b)))))))) (
       release BcacheLock))))))"

text \<open>Reading and changing the data of a buffer the caller holds.\<close>

definition buf_data :: "nat \<Rightarrow> u8 list K" where
  "buf_data b = kget (\<lambda>s. b_data (k_bcache s ! b))"

definition set_data :: "nat \<Rightarrow> u8 list \<Rightarrow> unit K" where
  "set_data b d = upd_buf b (\<lambda>q. q\<lparr>b_data := d\<rparr>)"

text \<open>\<open>readsb\<close> (fs.c): the superblock is block 1.\<close>

definition readsb :: "u32 \<Rightarrow> superblock K" where
  "readsb dev =
     kbind (bread dev 1) (\<lambda>bp.
     kbind (buf_data bp) (\<lambda>d.
     kseq (brelse bp) (
     kret \<lparr>sb_size = get32 d 0, sb_nblocks = get32 d 4, sb_ninodes = get32 d 8,
       sb_nlog = get32 d 12, sb_logstart = get32 d 16, sb_inodestart = get32 d 20,
       sb_bmapstart = get32 d 24\<rparr>)))"

section \<open>Reading back what was written\<close>

lemma length_put [simp]:
  "length (put16 d i v) = length d" "length (put32 d i w) = length d"
  by (simp_all add: put16_def put32_def)

lemma join16: "(ucast (ucast w :: u8) :: u16) OR push_bit 8 (ucast (ucast (drop_bit 8 w) :: u8)) = w"
proof (rule bit_word_eqI)
  fix n
  assume "n < LENGTH(16)"
  then consider "n < 8" | "8 \<le> n" "n < 16" by fastforce
  then show "bit (ucast (ucast w :: u8) OR push_bit 8 (ucast (ucast (drop_bit 8 w) :: u8)) :: u16) n = bit w n"
    by cases (auto simp: bit_simps)
qed

lemma join32:
  "(ucast (ucast w :: u8) :: u32) OR push_bit 8 (ucast (ucast (drop_bit 8 w) :: u8)) OR
     push_bit 16 (ucast (ucast (drop_bit 16 w) :: u8)) OR push_bit 24 (ucast (ucast (drop_bit 24 w) :: u8)) = w"
  using ld32_st32_same [of "\<lambda>_. 0" 0 w] by (simp add: ld32_def st32_def)

lemma get16_put16_same: "i + 1 < length d \<Longrightarrow> get16 (put16 d i w) i = w"
  using join16 [of w] by (simp add: get16_def put16_def nth_list_update)

lemma get32_put32_same: "i + 3 < length d \<Longrightarrow> get32 (put32 d i w) i = w"
  using join32 [of w] by (simp add: get32_def put32_def nth_list_update)

lemma put32_other: "j < i \<or> i + 3 < j \<Longrightarrow> put32 d i w ! j = d ! j"
  by (auto simp: put32_def)

lemma put16_other: "j < i \<or> i + 1 < j \<Longrightarrow> put16 d i w ! j = d ! j"
  by (auto simp: put16_def)

lemma get32_put32_other: "j + 4 \<le> i \<or> i + 4 \<le> j \<Longrightarrow> get32 (put32 d i w) j = get32 d j"
  by (auto simp: get32_def put32_other)

lemma get32_put16_other: "j + 4 \<le> i \<or> i + 2 \<le> j \<Longrightarrow> get32 (put16 d i w) j = get32 d j"
  by (auto simp: get32_def put16_other)

lemma get16_put32_other: "j + 2 \<le> i \<or> i + 4 \<le> j \<Longrightarrow> get16 (put32 d i w) j = get16 d j"
  by (auto simp: get16_def put32_other)

lemma get16_put16_other: "j + 2 \<le> i \<or> i + 2 \<le> j \<Longrightarrow> get16 (put16 d i w) j = get16 d j"
  by (auto simp: get16_def put16_other)

lemmas field_simps_bytes =
  get16_put16_same get32_put32_same get32_put32_other get32_put16_other get16_put32_other get16_put16_other

end
