(* ===== verification/Log.thy ===== *)
theory Log
  imports Bio
begin

text \<open>
  The file system log (\<open>log.c\<close>): transactions over the buffer cache, commit and
  recovery. The header block holds the number of logged blocks and their home
  addresses. A header count read from disk that does not fit the array of 30 entries
  would overrun it; the model stops there with the message ''out of bounds''.
\<close>

definition upd_log :: "(log \<Rightarrow> log) \<Rightarrow> unit K" where
  "upd_log f = kmod (\<lambda>s. s\<lparr>k_log := f (k_log s)\<rparr>)"

definition log_n :: "int K" where
  "log_n = kget (\<lambda>s. lh_n (lg_lh (k_log s)))"

definition set_log_n :: "int \<Rightarrow> unit K" where
  "set_log_n n = upd_log (\<lambda>l. l\<lparr>lg_lh := (lg_lh l)\<lparr>lh_n := n\<rparr>\<rparr>)"

section \<open>The log on disk\<close>

definition install_trans :: "unit K" where
  "install_trans =
     kbind log_n (\<lambda>n.
     kfor [0..<nat n] (\<lambda>tail.
       kbind (kget k_log) (\<lambda>l.
       kbind (bread (lg_dev l) (lg_start l + of_nat tail + 1)) (\<lambda>lbuf.
       kbind (bread (lg_dev l) (lh_block (lg_lh l) ! tail)) (\<lambda>dbuf.
       kbind (buf_data lbuf) (\<lambda>d.
       kseq (set_data dbuf d) (
       kseq (bwrite dbuf) (
       kseq (brelse lbuf) (
       brelse dbuf)))))))))"

definition read_head :: "unit K" where
  "read_head =
     kbind (kget k_log) (\<lambda>l.
     kbind (bread (lg_dev l) (lg_start l)) (\<lambda>b.
     kbind (buf_data b) (\<lambda>d.
     let n = sint (get32 d 0) in
     kseq (set_log_n n) (
     if n > int LOGSIZE then kpanic ''out of bounds''
     else
       kseq (kfor [0..<nat n] (\<lambda>i.
         upd_log (\<lambda>l. l\<lparr>lg_lh := (lg_lh l)\<lparr>lh_block := (lh_block (lg_lh l))[i := get32 d (4 * (i + 1))]\<rparr>\<rparr>))) (
       brelse b)))))"

fun put_words :: "u8 list \<Rightarrow> nat \<Rightarrow> u32 list \<Rightarrow> u8 list" where
  "put_words d i [] = d"
| "put_words d i (w # ws) = put_words (put32 d i w) (i + 4) ws"

definition write_head :: "unit K" where
  "write_head =
     kbind (kget k_log) (\<lambda>l.
     kbind (bread (lg_dev l) (lg_start l)) (\<lambda>b.
     kbind (buf_data b) (\<lambda>d.
     let n = lh_n (lg_lh l) in
     kseq (set_data b (put_words (put32 d 0 (of_int n)) 4 (take (nat n) (lh_block (lg_lh l))))) (
     kseq (bwrite b) (
     brelse b)))))"

definition recover_from_log :: "unit K" where
  "recover_from_log =
     kseq read_head (
     kseq install_trans (
     kseq (set_log_n 0) (
     write_head)))"

definition initlog :: "u32 \<Rightarrow> unit K" where
  "initlog dev =
     kbind (readsb dev) (\<lambda>sb.
     kseq (upd_log (\<lambda>l. l\<lparr>lg_start := sb_logstart sb\<rparr>)) (
     kseq (upd_log (\<lambda>l. l\<lparr>lg_size := sb_nlog sb\<rparr>)) (
     kseq (upd_log (\<lambda>l. l\<lparr>lg_dev := dev\<rparr>)) (
     recover_from_log))))"

section \<open>Transactions\<close>

text \<open>The loop of \<open>begin_op\<close>; a process that has to wait goes on in
  \<open>begin_op_resume\<close>.\<close>

definition begin_op_loop :: "unit K" where
  "begin_op_loop =
     kbind (kget k_log) (\<lambda>l.
     if lg_committing l then sleep ChanLog LogLock
     else if lh_n (lg_lh l) + (lg_outstanding l + 1) * int MAXOPBLOCKS > int LOGSIZE
       then sleep ChanLog LogLock
     else
       kseq (upd_log (\<lambda>l. l\<lparr>lg_outstanding := lg_outstanding l + 1\<rparr>)) (
       release LogLock))"

definition begin_op :: "unit K" where
  "begin_op = kseq (acquire LogLock) begin_op_loop"

definition begin_op_resume :: "nat \<Rightarrow> unit K" where
  "begin_op_resume p = kseq (sleep_resume p LogLock) begin_op_loop"

definition write_log :: "unit K" where
  "write_log =
     kbind log_n (\<lambda>n.
     kfor [0..<nat n] (\<lambda>tail.
       kbind (kget k_log) (\<lambda>l.
       kbind (bread (lg_dev l) (lg_start l + of_nat tail + 1)) (\<lambda>to.
       kbind (bread (lg_dev l) (lh_block (lg_lh l) ! tail)) (\<lambda>from.
       kbind (buf_data from) (\<lambda>d.
       kseq (set_data to d) (
       kseq (bwrite to) (
       kseq (brelse from) (
       brelse to)))))))))"

definition commit :: "unit K" where
  "commit =
     kbind log_n (\<lambda>n.
     kwhen (n > 0) (
       kseq write_log (
       kseq write_head (
       kseq install_trans (
       kseq (set_log_n 0) (
       write_head))))))"

definition end_op :: "unit K" where
  "end_op =
     kseq (acquire LogLock) (
     kseq (upd_log (\<lambda>l. l\<lparr>lg_outstanding := lg_outstanding l - 1\<rparr>)) (
     kbind (kget k_log) (\<lambda>l.
     if lg_committing l then kpanic ''log.committing''
     else if lg_outstanding l = 0 then
       kseq (upd_log (\<lambda>l. l\<lparr>lg_committing := True\<rparr>)) (
       kseq (release LogLock) (
       kseq commit (
       kseq (acquire LogLock) (
       kseq (upd_log (\<lambda>l. l\<lparr>lg_committing := False\<rparr>)) (
       kseq (wakeup ChanLog) (
       release LogLock))))))
     else kseq (wakeup ChanLog) (release LogLock))))"

definition log_write :: "nat \<Rightarrow> unit K" where
  "log_write b =
     kbind (kget k_log) (\<lambda>l.
     if lh_n (lg_lh l) \<ge> int LOGSIZE \<or> lh_n (lg_lh l) \<ge> sint (lg_size l) - 1
       then kpanic ''too big a transaction''
     else if lg_outstanding l < 1 then kpanic ''log_write outside of trans''
     else
       kseq (acquire LogLock) (
       kbind (get_buf b) (\<lambda>q.
       let n = nat (lh_n (lg_lh l));
           i = (case find_slot (\<lambda>x. x = b_blockno q) (take n (lh_block (lg_lh l))) of
                  Some i \<Rightarrow> i | None \<Rightarrow> n) in
       kseq (upd_log (\<lambda>l. l\<lparr>lg_lh := (lg_lh l)\<lparr>lh_block := (lh_block (lg_lh l))[i := b_blockno q]\<rparr>\<rparr>)) (
       kseq (kwhen (i = n) (set_log_n (int n + 1))) (
       kseq (upd_buf b (\<lambda>q. q\<lparr>b_flags := b_flags q OR B_DIRTY\<rparr>)) (
       release LogLock))))))"

section \<open>Words in a block\<close>

lemma length_put_words [simp]: "length (put_words d i ws) = length d"
  by (induction d i ws rule: put_words.induct) simp_all

lemma get32_put_words_below: "j + 4 \<le> i \<Longrightarrow> get32 (put_words d i ws) j = get32 d j"
  by (induction d i ws rule: put_words.induct) (simp_all add: get32_put32_other)

lemma get32_put_words:
  "k < length ws \<Longrightarrow> i + 4 * length ws \<le> length d \<Longrightarrow> get32 (put_words d i ws) (i + 4 * k) = ws ! k"
proof (induction d i ws arbitrary: k rule: put_words.induct)
  case (2 d i w ws)
  show ?case
  proof (cases k)
    case 0
    with 2 show ?thesis by (simp add: get32_put_words_below get32_put32_same)
  next
    case (Suc m)
    with "2.IH" [of m] "2.prems" show ?thesis by (simp add: add.assoc)
  qed
qed simp

lemma put_words_other: "j < i \<or> i + 4 * length ws \<le> j \<Longrightarrow> put_words d i ws ! j = d ! j"
  by (induction d i ws rule: put_words.induct) (auto simp: put32_other)

lemma get_put_words_other:
  "j + 4 \<le> i \<or> i + 4 * length ws \<le> j \<Longrightarrow> get32 (put_words d i ws) j = get32 d j"
  "j + 2 \<le> i \<or> i + 4 * length ws \<le> j \<Longrightarrow> get16 (put_words d i ws) j = get16 d j"
  by (auto simp: get32_def get16_def put_words_other)

end
