(* ===== verification/Inode.thy ===== *)
theory Inode
  imports Log
begin

text \<open>
  Blocks and inodes (the first half of \<open>fs.c\<close>): the block allocator over the free
  bit map, the inode cache, locking and reading inodes, and the map from the blocks of
  a file to disk blocks.
\<close>

abbreviation (input) ROOTINO :: u32 where "ROOTINO \<equiv> 1"
abbreviation (input) NDIRECT :: nat where "NDIRECT \<equiv> 12"
abbreviation (input) NINDIRECT :: nat where "NINDIRECT \<equiv> 128"
abbreviation (input) MAXFILE :: nat where "MAXFILE \<equiv> 140"
abbreviation (input) IPB :: nat where "IPB \<equiv> 8"
abbreviation (input) BPB :: nat where "BPB \<equiv> 4096"
abbreviation (input) DIRSIZ :: nat where "DIRSIZ \<equiv> 14"
abbreviation (input) T_DIR :: u16 where "T_DIR \<equiv> 1"
abbreviation (input) T_FILE :: u16 where "T_FILE \<equiv> 2"
abbreviation (input) T_DEV :: u16 where "T_DEV \<equiv> 3"

section \<open>Inodes on disk\<close>

record dinode =
  di_type :: u16
  di_major :: u16
  di_minor :: u16
  di_nlink :: u16
  di_size :: u32
  di_addrs :: "u32 list"

text \<open>The inode at byte \<open>o\<close> of a block.\<close>

definition get_dinode :: "u8 list \<Rightarrow> nat \<Rightarrow> dinode" where
  "get_dinode d a = \<lparr>di_type = get16 d a, di_major = get16 d (a + 2), di_minor = get16 d (a + 4),
     di_nlink = get16 d (a + 6), di_size = get32 d (a + 8),
     di_addrs = map (\<lambda>i. get32 d (a + 12 + 4 * i)) [0..<NDIRECT + 1]\<rparr>"

definition put_dinode :: "u8 list \<Rightarrow> nat \<Rightarrow> dinode \<Rightarrow> u8 list" where
  "put_dinode d a di =
     put_words (put32 (put16 (put16 (put16 (put16 d a (di_type di)) (a + 2) (di_major di))
       (a + 4) (di_minor di)) (a + 6) (di_nlink di)) (a + 8) (di_size di)) (a + 12) (di_addrs di)"

definition IBLOCK :: "u32 \<Rightarrow> superblock \<Rightarrow> u32" where
  "IBLOCK i sb = i div of_nat IPB + sb_inodestart sb"

definition BBLOCK :: "u32 \<Rightarrow> superblock \<Rightarrow> u32" where
  "BBLOCK b sb = b div of_nat BPB + sb_bmapstart sb"

text \<open>The byte offset of inode \<open>i\<close> in its block.\<close>

definition ioffset :: "u32 \<Rightarrow> nat" where
  "ioffset i = 64 * (unat i mod IPB)"

section \<open>Blocks\<close>

definition bzero :: "u32 \<Rightarrow> u32 \<Rightarrow> unit K" where
  "bzero dev bno =
     kbind (bread dev bno) (\<lambda>bp.
     kseq (set_data bp (replicate BSIZE 0)) (
     kseq (log_write bp) (
     brelse bp)))"

definition bit_clear :: "u8 list \<Rightarrow> nat \<Rightarrow> bool" where
  "bit_clear d bi \<longleftrightarrow> d ! (bi div 8) AND push_bit (bi mod 8) 1 = 0"

text \<open>The outer loop of \<open>balloc\<close> over the first block number of each bit map block.\<close>

fun balloc_loop :: "u32 \<Rightarrow> superblock \<Rightarrow> nat list \<Rightarrow> u32 K" where
  "balloc_loop dev sb [] = kpanic ''balloc: out of blocks''"
| "balloc_loop dev sb (b # bs) =
     kbind (bread dev (BBLOCK (of_nat b) sb)) (\<lambda>bp.
     kbind (buf_data bp) (\<lambda>d.
     case find (bit_clear d) [0..<min BPB (unat (sb_size sb) - b)] of
       Some bi \<Rightarrow>
         kseq (set_data bp (d[bi div 8 := d ! (bi div 8) OR push_bit (bi mod 8) 1])) (
         kseq (log_write bp) (
         kseq (brelse bp) (
         kseq (bzero dev (of_nat (b + bi))) (
         kret (of_nat (b + bi))))))
     | None \<Rightarrow> kseq (brelse bp) (balloc_loop dev sb bs)))"

definition balloc :: "u32 \<Rightarrow> u32 K" where
  "balloc dev =
     kbind (kget k_sb) (\<lambda>sb.
     balloc_loop dev sb (map ((*) BPB) [0..<(unat (sb_size sb) + BPB - 1) div BPB]))"

definition bfree :: "u32 \<Rightarrow> u32 \<Rightarrow> unit K" where
  "bfree dev b =
     kbind (readsb dev) (\<lambda>sb.
     kseq (kmod (\<lambda>s. s\<lparr>k_sb := sb\<rparr>)) (
     kbind (bread dev (BBLOCK b sb)) (\<lambda>bp.
     kbind (buf_data bp) (\<lambda>d.
     let bi = unat b mod BPB in
     if bit_clear d bi then kpanic ''freeing free block''
     else
       kseq (set_data bp (d[bi div 8 := d ! (bi div 8) AND NOT (push_bit (bi mod 8) 1)])) (
       kseq (log_write bp) (
       brelse bp))))))"

section \<open>The inode cache\<close>

definition get_inode :: "nat \<Rightarrow> inode K" where
  "get_inode i = kget (\<lambda>s. k_icache s ! i)"

definition upd_inode :: "nat \<Rightarrow> (inode \<Rightarrow> inode) \<Rightarrow> unit K" where
  "upd_inode i f = kmod (\<lambda>s. s\<lparr>k_icache := (k_icache s)[i := f (k_icache s ! i)]\<rparr>)"

definition iinit :: "u32 \<Rightarrow> unit K" where
  "iinit dev =
     kseq (kfor [0..<NINODE] (\<lambda>i. initsleeplock (InodeSleep i))) (
     kbind (readsb dev) (\<lambda>sb.
     kseq (kmod (\<lambda>s. s\<lparr>k_sb := sb\<rparr>)) (
     cprintf (''sb: size %d nblocks %d ninodes %d nlog %d logstart %d inodestart %d bmap start %d'' @
         [CHR 0x0A])
       [ArgInt (sb_size sb), ArgInt (sb_nblocks sb), ArgInt (sb_ninodes sb), ArgInt (sb_nlog sb),
        ArgInt (sb_logstart sb), ArgInt (sb_inodestart sb), ArgInt (sb_bmapstart sb)])))"

definition iget :: "u32 \<Rightarrow> u32 \<Rightarrow> nat K" where
  "iget dev inum =
     kseq (acquire IcacheLock) (
     kbind (kget (\<lambda>s. find_slot (\<lambda>ip. ip_ref ip > 0 \<and> ip_dev ip = dev \<and> ip_inum ip = inum) (k_icache s)))
       (\<lambda>r.
     case r of
       Some ip \<Rightarrow>
         kseq (upd_inode ip (\<lambda>q. q\<lparr>ip_ref := ip_ref q + 1\<rparr>)) (
         kseq (release IcacheLock) (kret ip))
     | None \<Rightarrow>
         kbind (kget (\<lambda>s. find_slot (\<lambda>ip. ip_ref ip = 0) (k_icache s))) (\<lambda>empty.
         case empty of
           None \<Rightarrow> kpanic ''iget: no inodes''
         | Some ip \<Rightarrow>
             kseq (upd_inode ip (\<lambda>q. q\<lparr>ip_dev := dev, ip_inum := inum, ip_ref := 1, ip_valid := False\<rparr>)) (
             kseq (release IcacheLock) (kret ip)))))"

definition idup :: "nat \<Rightarrow> nat K" where
  "idup ip =
     kseq (acquire IcacheLock) (
     kseq (upd_inode ip (\<lambda>q. q\<lparr>ip_ref := ip_ref q + 1\<rparr>)) (
     kseq (release IcacheLock) (kret ip)))"

fun ialloc_loop :: "u32 \<Rightarrow> u16 \<Rightarrow> superblock \<Rightarrow> nat list \<Rightarrow> nat K" where
  "ialloc_loop dev typ sb [] = kpanic ''ialloc: no inodes''"
| "ialloc_loop dev typ sb (i # is) =
     (let inum = of_nat i in
      kbind (bread dev (IBLOCK inum sb)) (\<lambda>bp.
      kbind (buf_data bp) (\<lambda>d.
      if di_type (get_dinode d (ioffset inum)) = 0 then
        kseq (set_data bp (put16 (put_bytes d (ioffset inum) (replicate 64 0)) (ioffset inum) typ)) (
        kseq (log_write bp) (
        kseq (brelse bp) (
        iget dev inum)))
      else kseq (brelse bp) (ialloc_loop dev typ sb is))))"

definition ialloc :: "u32 \<Rightarrow> u16 \<Rightarrow> nat K" where
  "ialloc dev typ =
     kbind (kget k_sb) (\<lambda>sb. ialloc_loop dev typ sb [1..<unat (sb_ninodes sb)])"

definition iupdate :: "nat \<Rightarrow> unit K" where
  "iupdate ip =
     kbind (get_inode ip) (\<lambda>q.
     kbind (kget k_sb) (\<lambda>sb.
     kbind (bread (ip_dev q) (IBLOCK (ip_inum q) sb)) (\<lambda>bp.
     kbind (buf_data bp) (\<lambda>d.
     kseq (set_data bp (put_dinode d (ioffset (ip_inum q))
       \<lparr>di_type = ip_type q, di_major = ip_major q, di_minor = ip_minor q, di_nlink = ip_nlink q,
        di_size = ip_size q, di_addrs = ip_addrs q\<rparr>)) (
     kseq (log_write bp) (
     brelse bp))))))"

definition ilock :: "nat \<Rightarrow> unit K" where
  "ilock ip =
     kbind (get_inode ip) (\<lambda>q.
     if ip_ref q < 1 then kpanic ''ilock''
     else
       kseq (acquiresleep (InodeSleep ip)) (
       kbind (get_inode ip) (\<lambda>q.
       if ip_valid q then kret ()
       else
         kbind (kget k_sb) (\<lambda>sb.
         kbind (bread (ip_dev q) (IBLOCK (ip_inum q) sb)) (\<lambda>bp.
         kbind (buf_data bp) (\<lambda>d.
         let di = get_dinode d (ioffset (ip_inum q)) in
         kseq (upd_inode ip (\<lambda>q. q\<lparr>ip_type := di_type di, ip_major := di_major di,
           ip_minor := di_minor di, ip_nlink := di_nlink di, ip_size := di_size di,
           ip_addrs := di_addrs di\<rparr>)) (
         kseq (brelse bp) (
         kseq (upd_inode ip (\<lambda>q. q\<lparr>ip_valid := True\<rparr>)) (
         if di_type di = 0 then kpanic ''ilock: no type'' else kret ())))))))))"

definition iunlock :: "nat \<Rightarrow> unit K" where
  "iunlock ip =
     kbind (holdingsleep (InodeSleep ip)) (\<lambda>h.
     kbind (get_inode ip) (\<lambda>q.
     if \<not> h \<or> ip_ref q < 1 then kpanic ''iunlock''
     else releasesleep (InodeSleep ip)))"

section \<open>Blocks of a file\<close>

definition bmap :: "nat \<Rightarrow> nat \<Rightarrow> u32 K" where
  "bmap ip bn =
     kbind (get_inode ip) (\<lambda>q.
     if bn < NDIRECT then
       (if ip_addrs q ! bn = 0 then
          kbind (balloc (ip_dev q)) (\<lambda>addr.
          kseq (upd_inode ip (\<lambda>q. q\<lparr>ip_addrs := (ip_addrs q)[bn := addr]\<rparr>)) (
          kret addr))
        else kret (ip_addrs q ! bn))
     else if bn - NDIRECT < NINDIRECT then
       kbind (if ip_addrs q ! NDIRECT = 0 then
                kbind (balloc (ip_dev q)) (\<lambda>addr.
                kseq (upd_inode ip (\<lambda>q. q\<lparr>ip_addrs := (ip_addrs q)[NDIRECT := addr]\<rparr>)) (
                kret addr))
              else kret (ip_addrs q ! NDIRECT)) (\<lambda>ind.
       kbind (bread (ip_dev q) ind) (\<lambda>bp.
       kbind (buf_data bp) (\<lambda>d.
       kbind (if get32 d (4 * (bn - NDIRECT)) = 0 then
                kbind (balloc (ip_dev q)) (\<lambda>addr.
                kseq (upd_buf bp (\<lambda>c. c\<lparr>b_data := put32 (b_data c) (4 * (bn - NDIRECT)) addr\<rparr>)) (
                kseq (log_write bp) (
                kret addr)))
              else kret (get32 d (4 * (bn - NDIRECT)))) (\<lambda>addr.
       kseq (brelse bp) (kret addr)))))
     else kpanic ''bmap: out of range'')"

definition itrunc :: "nat \<Rightarrow> unit K" where
  "itrunc ip =
     kseq (kfor [0..<NDIRECT] (\<lambda>i.
       kbind (get_inode ip) (\<lambda>q.
       kwhen (ip_addrs q ! i \<noteq> 0) (
         kseq (bfree (ip_dev q) (ip_addrs q ! i)) (
         upd_inode ip (\<lambda>q. q\<lparr>ip_addrs := (ip_addrs q)[i := 0]\<rparr>)))))) (
     kseq (
       kbind (get_inode ip) (\<lambda>q.
       kwhen (ip_addrs q ! NDIRECT \<noteq> 0) (
         kbind (bread (ip_dev q) (ip_addrs q ! NDIRECT)) (\<lambda>bp.
         kseq (kfor [0..<NINDIRECT] (\<lambda>j.
           kbind (buf_data bp) (\<lambda>d.
           kwhen (get32 d (4 * j) \<noteq> 0) (bfree (ip_dev q) (get32 d (4 * j)))))) (
         kseq (brelse bp) (
         kseq (bfree (ip_dev q) (ip_addrs q ! NDIRECT)) (
         upd_inode ip (\<lambda>q. q\<lparr>ip_addrs := (ip_addrs q)[NDIRECT := 0]\<rparr>)))))))) (
     kseq (upd_inode ip (\<lambda>q. q\<lparr>ip_size := 0\<rparr>)) (
     iupdate ip)))"

section \<open>Dropping a reference\<close>

definition iput :: "nat \<Rightarrow> unit K" where
  "iput ip =
     kseq (acquiresleep (InodeSleep ip)) (
     kbind (get_inode ip) (\<lambda>q.
     kseq (kwhen (ip_valid q \<and> ip_nlink q = 0) (
       kseq (acquire IcacheLock) (
       kbind (get_inode ip) (\<lambda>q.
       kseq (release IcacheLock) (
       kwhen (ip_ref q = 1) (
         kseq (itrunc ip) (
         kseq (upd_inode ip (\<lambda>q. q\<lparr>ip_type := 0\<rparr>)) (
         kseq (iupdate ip) (
         upd_inode ip (\<lambda>q. q\<lparr>ip_valid := False\<rparr>)))))))))) (
     kseq (releasesleep (InodeSleep ip)) (
     kseq (acquire IcacheLock) (
     kseq (upd_inode ip (\<lambda>q. q\<lparr>ip_ref := ip_ref q - 1\<rparr>)) (
     release IcacheLock))))))"

definition iunlockput :: "nat \<Rightarrow> unit K" where
  "iunlockput ip = kseq (iunlock ip) (iput ip)"

section \<open>The format of inodes\<close>

lemma length_put_dinode [simp]: "length (put_dinode d a di) = length d"
  by (simp add: put_dinode_def)

lemma get_put_dinode_same:
  assumes "a + 64 \<le> length d" "length (di_addrs di) = NDIRECT + 1"
  shows "get_dinode (put_dinode d a di) a = di"
proof -
  let ?e = "put32 (put16 (put16 (put16 (put16 d a (di_type di)) (a + 2) (di_major di))
       (a + 4) (di_minor di)) (a + 6) (di_nlink di)) (a + 8) (di_size di)"
  have fields: "get16 ?e a = di_type di" "get16 ?e (a + 2) = di_major di" "get16 ?e (a + 4) = di_minor di"
      "get16 ?e (a + 6) = di_nlink di" "get32 ?e (a + 8) = di_size di"
    using assms(1) by (simp_all add: field_simps_bytes)
  have "map (\<lambda>i. get32 (put_words ?e (a + 12) (di_addrs di)) (a + 12 + 4 * i)) [0..<NDIRECT + 1] = di_addrs di"
    using assms get32_put_words [of _ "di_addrs di" "a + 12" ?e] by (intro nth_equalityI) simp_all
  then show ?thesis
    using assms(2) fields by (simp add: get_dinode_def put_dinode_def get_put_words_other)
qed

lemma get_put_dinode_other:
  assumes "length (di_addrs di) = NDIRECT + 1" "b + 64 \<le> a \<or> a + 64 \<le> b"
  shows "get_dinode (put_dinode d a di) b = get_dinode d b"
proof -
  have "map (\<lambda>i. get32 (put_dinode d a di) (b + 12 + 4 * i)) [0..<NDIRECT + 1] =
      map (\<lambda>i. get32 d (b + 12 + 4 * i)) [0..<NDIRECT + 1]"
    using assms by (intro map_cong refl) (auto simp: put_dinode_def get_put_words_other field_simps_bytes)
  with assms show ?thesis
    by (auto simp: get_dinode_def put_dinode_def get_put_words_other field_simps_bytes)
qed

end
