(* ===== verification/Kbd.thy ===== *)
theory Kbd
  imports Xv6_Prelude
begin

text \<open>
  The keyboard driver (\<open>kbd.c\<close>, \<open>kbd.h\<close>): a scan code and the state of the modifier
  keys give a character. Reading the controller's ports is a parameter: \<open>kbdgetc\<close>
  gets the scan code, or \<open>None\<close> if the status port reports no data.
\<close>

abbreviation (input) SHIFT :: u32 where "SHIFT \<equiv> 1"
abbreviation (input) CTL :: u32 where "CTL \<equiv> 2"
abbreviation (input) ALT :: u32 where "ALT \<equiv> 4"
abbreviation (input) CAPSLOCK :: u32 where "CAPSLOCK \<equiv> 8"
abbreviation (input) NUMLOCK :: u32 where "NUMLOCK \<equiv> 16"
abbreviation (input) SCROLLLOCK :: u32 where "SCROLLLOCK \<equiv> 32"
abbreviation (input) E0ESC :: u32 where "E0ESC \<equiv> 64"

definition shiftcode :: "u32 \<Rightarrow> u32" where
  "shiftcode d =
     (if d = 0x1D then CTL else if d = 0x2A then SHIFT else if d = 0x36 then SHIFT
      else if d = 0x38 then ALT else if d = 0x9D then CTL else if d = 0xB8 then ALT else 0)"

definition togglecode :: "u32 \<Rightarrow> u32" where
  "togglecode d =
     (if d = 0x3A then CAPSLOCK else if d = 0x45 then NUMLOCK
      else if d = 0x46 then SCROLLLOCK else 0)"

text \<open>A table given by its first entries and further designated ones.\<close>

definition keytable :: "u32 list \<Rightarrow> (u32 \<times> u32) list \<Rightarrow> u32 \<Rightarrow> u32" where
  "keytable front others d =
     (if unat d < length front then front ! unat d
      else case map_of others d of Some c \<Rightarrow> c | None \<Rightarrow> 0)"

definition normalmap :: "u32 \<Rightarrow> u32" where
  "normalmap = keytable
     [0, 27, 49, 50, 51, 52, 53, 54, 55, 56, 57, 48, 45, 61, 8, 9,
      113, 119, 101, 114, 116, 121, 117, 105, 111, 112, 91, 93, 10, 0, 97, 115,
      100, 102, 103, 104, 106, 107, 108, 59, 39, 96, 0, 92, 122, 120, 99, 118,
      98, 110, 109, 44, 46, 47, 0, 42, 0, 32, 0, 0, 0, 0, 0, 0,
      0, 0, 0, 0, 0, 0, 0, 55, 56, 57, 45, 52, 53, 54, 43, 49,
      50, 51, 48, 46, 0, 0, 0, 0]
     [(0x9C, 0xA), (0xB5, 0x2F), (0xC8, 0xE2), (0xD0, 0xE3), (0xC9, 0xE6), (0xD1, 0xE7),
      (0xCB, 0xE4), (0xCD, 0xE5), (0x97, 0xE0), (0xCF, 0xE1), (0xD2, 0xE8), (0xD3, 0xE9)]"

definition shiftmap :: "u32 \<Rightarrow> u32" where
  "shiftmap = keytable
     [0, 27, 33, 64, 35, 36, 37, 94, 38, 42, 40, 41, 95, 43, 8, 9,
      81, 87, 69, 82, 84, 89, 85, 73, 79, 80, 123, 125, 10, 0, 65, 83,
      68, 70, 71, 72, 74, 75, 76, 58, 34, 126, 0, 124, 90, 88, 67, 86,
      66, 78, 77, 60, 62, 63, 0, 42, 0, 32, 0, 0, 0, 0, 0, 0,
      0, 0, 0, 0, 0, 0, 0, 55, 56, 57, 45, 52, 53, 54, 43, 49,
      50, 51, 48, 46, 0, 0, 0, 0]
     [(0x9C, 0xA), (0xB5, 0x2F), (0xC8, 0xE2), (0xD0, 0xE3), (0xC9, 0xE6), (0xD1, 0xE7),
      (0xCB, 0xE4), (0xCD, 0xE5), (0x97, 0xE0), (0xCF, 0xE1), (0xD2, 0xE8), (0xD3, 0xE9)]"

definition ctlmap :: "u32 \<Rightarrow> u32" where
  "ctlmap = keytable
     [0, 0, 0, 0, 0, 0, 0, 0, 0, 0, 0, 0, 0, 0, 0, 0,
      17, 23, 5, 18, 20, 25, 21, 9, 15, 16, 0, 0, 13, 0, 1, 19,
      4, 6, 7, 8, 10, 11, 12, 0, 0, 0, 0, 28, 26, 24, 3, 22,
      2, 14, 13, 0, 0, 239, 0, 0]
     [(0x9C, 0xD), (0xB5, 0xEF), (0xC8, 0xE2), (0xD0, 0xE3), (0xC9, 0xE6), (0xD1, 0xE7),
      (0xCB, 0xE4), (0xCD, 0xE5), (0x97, 0xE0), (0xCF, 0xE1), (0xD2, 0xE8), (0xD3, 0xE9)]"

definition charcode :: "u32 \<Rightarrow> u32 \<Rightarrow> u32" where
  "charcode m = (if m = 0 then normalmap else if m = SHIFT then shiftmap else ctlmap)"

text \<open>The result is the character (0 for none, -1 for no data) and the new modifier
  state.\<close>

definition kbdgetc :: "u32 \<Rightarrow> u32 option \<Rightarrow> int \<times> u32" where
  "kbdgetc shift inp =
     (case inp of
        None \<Rightarrow> (-1, shift)
      | Some data \<Rightarrow>
          if data = 0xE0 then (0, shift OR E0ESC)
          else if data AND 0x80 \<noteq> 0 then
            (let data = (if shift AND E0ESC \<noteq> 0 then data else data AND 0x7F)
             in (0, shift AND NOT (shiftcode data OR E0ESC)))
          else
            let esc = (shift AND E0ESC \<noteq> 0);
                data = (if esc then data OR 0x80 else data);
                shift = (if esc then shift AND NOT E0ESC else shift);
                shift = shift OR shiftcode data;
                shift = shift XOR togglecode data;
                c = charcode (shift AND (CTL OR SHIFT)) data;
                c = (if shift AND CAPSLOCK \<noteq> 0 then
                       (if 97 \<le> c \<and> c \<le> 122 then c - 32
                        else if 65 \<le> c \<and> c \<le> 90 then c + 32 else c)
                     else c)
            in (uint c, shift))"

text \<open>\<open>kbdintr\<close> hands the characters of a run of scan codes to \<open>consoleintr\<close>.\<close>

fun kbd_chars :: "u32 \<Rightarrow> u32 list \<Rightarrow> int list \<times> u32" where
  "kbd_chars shift [] = ([], shift)"
| "kbd_chars shift (d # ds) =
     (let (c, shift') = kbdgetc shift (Some d); (cs, shift'') = kbd_chars shift' ds
      in (c # cs, shift''))"

end
