(* ===== verification/Console.thy ===== *)
theory Console
  imports Inode Kbd
begin

text \<open>
  The console (\<open>console.c\<close>): line editing of input in \<open>consoleintr\<close>, the device
  functions \<open>consoleread\<close> and \<open>consolewrite\<close>, and the cursor and screen of the CGA
  display. \<open>k_cons\<close> is the stream of bytes sent to the serial port; the display is a
  state of its own. \<open>consoleintr\<close> gets the characters that \<open>getc\<close> returns before -1.
\<close>

section \<open>The display\<close>

abbreviation (input) BACKSPACE :: int where "BACKSPACE \<equiv> 0x100"

record cga =
  cga_pos :: int
  cga_crt :: "u16 list"

text \<open>Moving the cursor and storing the character; scrolling; the final blank. The
  display has 25 lines of 80 characters.\<close>

definition cga_advance :: "int \<Rightarrow> cga \<Rightarrow> cga" where
  "cga_advance c g =
     (if c = 10 then g\<lparr>cga_pos := cga_pos g + (80 - cga_pos g mod 80)\<rparr>
      else if c = BACKSPACE then (if cga_pos g > 0 then g\<lparr>cga_pos := cga_pos g - 1\<rparr> else g)
      else g\<lparr>cga_crt := (cga_crt g)[nat (cga_pos g) := (of_int c AND 0xff) OR 0x0700],
             cga_pos := cga_pos g + 1\<rparr>)"

definition cga_scroll :: "cga \<Rightarrow> cga" where
  "cga_scroll g =
     (if cga_pos g div 80 \<ge> 24 then
        let crt = take (23 * 80) (drop 80 (cga_crt g)) @ drop (23 * 80) (cga_crt g);
            pos = cga_pos g - 80
        in g\<lparr>cga_crt := take (nat pos) crt @ replicate (24 * 80 - nat pos) 0 @
               drop (nat pos + (24 * 80 - nat pos)) crt,
             cga_pos := pos\<rparr>
      else g)"

definition cgaputc :: "int \<Rightarrow> (cga, unit) prog" where
  "cgaputc c =
     kseq (kmod (cga_advance c)) (
     kbind (kget cga_pos) (\<lambda>pos.
     if pos < 0 \<or> pos > 25 * 80 then kpanic ''pos under/overflow''
     else
       kseq (kmod cga_scroll) (
       kmod (\<lambda>g. g\<lparr>cga_crt := (cga_crt g)[nat (cga_pos g) := 0x0720]\<rparr>))))"

section \<open>Input\<close>

text \<open>\<open>consputc\<close>, as the serial port sees it.\<close>

definition consputc :: "int \<Rightarrow> unit K" where
  "consputc c =
     kmod (\<lambda>s. s\<lparr>k_cons := k_cons s @ (if c = BACKSPACE then [8, 32, 8] else [of_int c])\<rparr>)"

definition upd_input :: "(input \<Rightarrow> input) \<Rightarrow> unit K" where
  "upd_input f = kmod (\<lambda>s. s\<lparr>k_input := f (k_input s)\<rparr>)"

definition input_at :: "input \<Rightarrow> u32 \<Rightarrow> u8" where
  "input_at i k = in_buf i ! (unat k mod INPUT_BUF)"

lemma unat_diff_minus_one: "a \<noteq> (b :: u32) \<Longrightarrow> unat (a - 1 - b) < unat (a - b)"
proof -
  assume "a \<noteq> b"
  then have "unat (a - b - 1) = unat (a - b) - 1" "unat (a - b) \<noteq> 0"
    by (simp_all add: unat_minus_one unat_eq_zero)
  then show ?thesis by (simp add: diff_right_commute)
qed

text \<open>The loop of the kill-line key: how many characters it erases, and the edit
  index after it.\<close>

function kill_line :: "input \<Rightarrow> nat \<Rightarrow> nat \<times> input" where
  "kill_line i k =
     (if in_e i \<noteq> in_w i \<and> input_at i (in_e i - 1) \<noteq> 10
      then kill_line (i\<lparr>in_e := in_e i - 1\<rparr>) (Suc k) else (k, i))"
  by pat_completeness auto

termination
  by (relation "measure (\<lambda>(i, k). unat (in_e i - in_w i))") (auto intro: unat_diff_minus_one)

declare kill_line.simps [simp del]

definition console_char :: "int \<Rightarrow> unit K" where
  "console_char c =
     kbind (kget k_input) (\<lambda>i.
     if c = 16 then kret ()
     else if c = 21 then
       (let (n, i') = kill_line i 0 in
        kseq (upd_input (\<lambda>_. i')) (kfor [0..<n] (\<lambda>_. consputc BACKSPACE)))
     else if c = 8 \<or> c = 0x7f then
       kwhen (in_e i \<noteq> in_w i) (
         kseq (upd_input (\<lambda>i. i\<lparr>in_e := in_e i - 1\<rparr>)) (consputc BACKSPACE))
     else
       kwhen (c \<noteq> 0 \<and> in_e i - in_r i < of_nat INPUT_BUF) (
         let c = (if c = 13 then 10 else c) in
         kseq (upd_input (\<lambda>i. i\<lparr>in_buf := (in_buf i)[unat (in_e i) mod INPUT_BUF := of_int c],
           in_e := in_e i + 1\<rparr>)) (
         kseq (consputc c) (
         kbind (kget k_input) (\<lambda>i.
         kwhen (c = 10 \<or> c = 4 \<or> in_e i = in_r i + of_nat INPUT_BUF) (
           kseq (upd_input (\<lambda>i. i\<lparr>in_w := in_e i\<rparr>)) (wakeup ChanInput)))))))"

definition consoleintr :: "int list \<Rightarrow> unit K" where
  "consoleintr cs =
     kseq (acquire ConsLock) (
     kseq (kfor cs console_char) (
     kseq (release ConsLock) (
     kwhen (16 \<in> set cs) procdump)))"

definition kbdintr :: "u32 list \<Rightarrow> unit K" where
  "kbdintr scancodes =
     kbind (kget k_shift) (\<lambda>shift.
     let (cs, shift') = kbd_chars shift scancodes in
     kseq (kmod (\<lambda>s. s\<lparr>k_shift := shift'\<rparr>)) (consoleintr cs))"

definition uartintr :: "u8 list \<Rightarrow> unit K" where
  "uartintr bs = consoleintr (map uint bs)"

section \<open>The device functions\<close>

text \<open>The loop of \<open>consoleread\<close> with \<open>n\<close> bytes still wanted and \<open>got\<close> stored so far.\<close>

fun consoleread_loop :: "nat \<Rightarrow> nat \<Rightarrow> nat \<Rightarrow> u8 list \<Rightarrow> (int \<times> u8 list) K" where
  "consoleread_loop ip target 0 got =
     kseq (release ConsLock) (kseq (ilock ip) (kret (int target, got)))"
| "consoleread_loop ip target (Suc n) got =
     kbind (kget k_input) (\<lambda>i.
     if in_r i = in_w i then
       kbind curproc (\<lambda>p.
       kbind (get_proc p) (\<lambda>q.
       if p_killed q then kseq (release ConsLock) (kseq (ilock ip) (kret (-1, got)))
       else kseq (sleep ChanInput ConsLock) (kret (0, got))))
     else
       let c = input_at i (in_r i) in
       kseq (upd_input (\<lambda>i. i\<lparr>in_r := in_r i + 1\<rparr>)) (
       if c = 4 then
         kseq (kwhen (Suc n < target) (upd_input (\<lambda>i. i\<lparr>in_r := in_r i - 1\<rparr>))) (
         kseq (release ConsLock) (
         kseq (ilock ip) (
         kret (int target - int (Suc n), got))))
       else if c = 10 then
         kseq (release ConsLock) (
         kseq (ilock ip) (
         kret (int target - int n, got @ [c])))
       else consoleread_loop ip target n (got @ [c])))"

definition consoleread :: "nat \<Rightarrow> int \<Rightarrow> (int \<times> u8 list) K" where
  "consoleread ip n =
     kseq (iunlock ip) (
     kseq (acquire ConsLock) (
     if n > 0 then consoleread_loop ip (nat n) (nat n) []
     else kseq (release ConsLock) (kseq (ilock ip) (kret (0, [])))))"

definition consoleread_resume :: "nat \<Rightarrow> nat \<Rightarrow> nat \<Rightarrow> nat \<Rightarrow> u8 list \<Rightarrow> (int \<times> u8 list) K" where
  "consoleread_resume p ip target n got =
     kseq (sleep_resume p ConsLock) (consoleread_loop ip target n got)"

definition consolewrite :: "nat \<Rightarrow> u8 list \<Rightarrow> int \<Rightarrow> int K" where
  "consolewrite ip buf n =
     kseq (iunlock ip) (
     kseq (acquire ConsLock) (
     kseq (kfor (take (nat n) buf) (\<lambda>c. consputc (uint c))) (
     kseq (release ConsLock) (
     kseq (ilock ip) (
     kret n)))))"

definition consoleinit :: "unit K" where
  "consoleinit = kseq (kmod (\<lambda>s. s\<lparr>k_devsw_console := True\<rparr>)) (kmod (\<lambda>s. s\<lparr>k_cons_locking := True\<rparr>))"

end
