(* ===== verification/Fs.thy ===== *)
theory Fs
  imports Console
begin

text \<open>
  Files, directories and paths (the second half of \<open>fs.c\<close>). \<open>readi\<close> yields its result
  together with the bytes it has stored; \<open>writei\<close> takes the bytes as a list. A loop
  over the bytes of a file visits the chunks listed by \<open>chunks\<close>, one per block. Path
  names are byte lists without the final zero.
\<close>

section \<open>File contents\<close>

record stat =
  st_type :: u16
  st_dev :: u32
  st_ino :: u32
  st_nlink :: u16
  st_size :: u32

definition stati :: "nat \<Rightarrow> stat K" where
  "stati ip =
     kbind (get_inode ip) (\<lambda>q.
     kret \<lparr>st_type = ip_type q, st_dev = ip_dev q, st_ino = ip_inum q, st_nlink = ip_nlink q,
       st_size = ip_size q\<rparr>)"

text \<open>The offsets and lengths of \<open>for(tot=0; tot<n; tot+=m, off+=m)\<close> with
  \<open>m = min(n - tot, BSIZE - off%BSIZE)\<close>.\<close>

function chunks :: "nat \<Rightarrow> nat \<Rightarrow> (nat \<times> nat) list" where
  "chunks off n =
     (if n = 0 then []
      else let m = min n (BSIZE - off mod BSIZE) in (off, m) # chunks (off + m) (n - m))"
  by pat_completeness auto
termination
  by (relation "measure (\<lambda>(off, n). n)") auto

declare chunks.simps [simp del]

fun readi_loop :: "nat \<Rightarrow> (nat \<times> nat) list \<Rightarrow> u8 list K" where
  "readi_loop ip [] = kret []"
| "readi_loop ip ((off, m) # cs) =
     kbind (bmap ip (off div BSIZE)) (\<lambda>addr.
     kbind (get_inode ip) (\<lambda>q.
     kbind (bread (ip_dev q) addr) (\<lambda>bp.
     kbind (buf_data bp) (\<lambda>d.
     kseq (brelse bp) (
     kbind (readi_loop ip cs) (\<lambda>rest.
     kret (get_bytes d (off mod BSIZE) m @ rest)))))))"

text \<open>Only the console is registered in the device table, as device 1.\<close>

definition dev_ok :: "u16 \<Rightarrow> kernel \<Rightarrow> bool" where
  "dev_ok major s \<longleftrightarrow> \<not> (sint major < 0 \<or> sint major \<ge> int NDEV) \<and> major = 1 \<and> k_devsw_console s"

definition readi :: "nat \<Rightarrow> u32 \<Rightarrow> u32 \<Rightarrow> (int \<times> u8 list) K" where
  "readi ip off n =
     kbind (get_inode ip) (\<lambda>q.
     if ip_type q = T_DEV then
       kbind (kget (dev_ok (ip_major q))) (\<lambda>ok.
       if \<not> ok then kret (-1, []) else consoleread ip (sint n))
     else if off > ip_size q \<or> off + n < off then kret (-1, [])
     else
       let n = (if off + n > ip_size q then ip_size q - off else n) in
       kbind (readi_loop ip (chunks (unat off) (unat n))) (\<lambda>bs.
       kret (sint n, bs)))"

fun writei_loop :: "nat \<Rightarrow> (nat \<times> nat) list \<Rightarrow> u8 list \<Rightarrow> unit K" where
  "writei_loop ip [] src = kret ()"
| "writei_loop ip ((off, m) # cs) src =
     kbind (bmap ip (off div BSIZE)) (\<lambda>addr.
     kbind (get_inode ip) (\<lambda>q.
     kbind (bread (ip_dev q) addr) (\<lambda>bp.
     kbind (buf_data bp) (\<lambda>d.
     kseq (set_data bp (put_bytes d (off mod BSIZE) (take m src))) (
     kseq (log_write bp) (
     kseq (brelse bp) (
     writei_loop ip cs (drop m src))))))))"

definition writei :: "nat \<Rightarrow> u8 list \<Rightarrow> u32 \<Rightarrow> u32 \<Rightarrow> int K" where
  "writei ip src off n =
     kbind (get_inode ip) (\<lambda>q.
     if ip_type q = T_DEV then
       kbind (kget (dev_ok (ip_major q))) (\<lambda>ok.
       if \<not> ok then kret (-1) else consolewrite ip src (sint n))
     else if off > ip_size q \<or> off + n < off then kret (-1)
     else if off + n > of_nat (MAXFILE * BSIZE) then kret (-1)
     else
       kseq (writei_loop ip (chunks (unat off) (unat n)) src) (
       kbind (get_inode ip) (\<lambda>q.
       kseq (kwhen (n > 0 \<and> off + n > ip_size q) (
         kseq (upd_inode ip (\<lambda>q. q\<lparr>ip_size := off + n\<rparr>)) (iupdate ip))) (
       kret (sint n)))))"

section \<open>Directories\<close>

record dirent =
  de_inum :: u16
  de_name :: "u8 list"

definition get_dirent :: "u8 list \<Rightarrow> dirent" where
  "get_dirent d = \<lparr>de_inum = get16 d 0, de_name = get_bytes d 2 DIRSIZ\<rparr>"

definition put_dirent :: "dirent \<Rightarrow> u8 list" where
  "put_dirent de = [ucast (de_inum de), ucast (drop_bit 8 (de_inum de))] @ de_name de"

definition namecmp :: "u8 list \<Rightarrow> u8 list \<Rightarrow> int" where
  "namecmp s t = strncmp (lview s) (lview t) DIRSIZ"

text \<open>The offsets of \<open>for(off = 0; off < dp->size; off += sizeof(de))\<close>.\<close>

definition dir_offsets :: "u32 \<Rightarrow> u32 list" where
  "dir_offsets sz = map (\<lambda>i. of_nat (16 * i)) [0..<(unat sz + 15) div 16]"

fun dirlookup_loop :: "nat \<Rightarrow> u8 list \<Rightarrow> u32 list \<Rightarrow> (nat \<times> u32) option K" where
  "dirlookup_loop dp name [] = kret None"
| "dirlookup_loop dp name (off # offs) =
     kbind (readi dp off 16) (\<lambda>(r, bs).
     if r \<noteq> 16 then kpanic ''dirlookup read''
     else
       let de = get_dirent bs in
       if de_inum de = 0 then dirlookup_loop dp name offs
       else if namecmp name (de_name de) = 0 then
         kbind (get_inode dp) (\<lambda>q.
         kbind (iget (ip_dev q) (ucast (de_inum de))) (\<lambda>ip.
         kret (Some (ip, off))))
       else dirlookup_loop dp name offs)"

text \<open>The inode and the offset of its entry (\<open>*poff\<close>).\<close>

definition dirlookup :: "nat \<Rightarrow> u8 list \<Rightarrow> (nat \<times> u32) option K" where
  "dirlookup dp name =
     kbind (get_inode dp) (\<lambda>q.
     if ip_type q \<noteq> T_DIR then kpanic ''dirlookup not DIR''
     else dirlookup_loop dp name (dir_offsets (ip_size q)))"

text \<open>The offset of the first empty entry, or the offset after the last entry.\<close>

fun dirlink_loop :: "nat \<Rightarrow> u32 \<Rightarrow> u32 list \<Rightarrow> u32 K" where
  "dirlink_loop dp endoff [] = kret endoff"
| "dirlink_loop dp endoff (off # offs) =
     kbind (readi dp off 16) (\<lambda>(r, bs).
     if r \<noteq> 16 then kpanic ''dirlink read''
     else if de_inum (get_dirent bs) = 0 then kret off
     else dirlink_loop dp (off + 16) offs)"

definition dirlink :: "nat \<Rightarrow> u8 list \<Rightarrow> u32 \<Rightarrow> int K" where
  "dirlink dp name inum =
     kbind (dirlookup dp name) (\<lambda>r.
     case r of
       Some (ip, _) \<Rightarrow> kseq (iput ip) (kret (-1))
     | None \<Rightarrow>
         kbind (get_inode dp) (\<lambda>q.
         kbind (dirlink_loop dp 0 (dir_offsets (ip_size q))) (\<lambda>off.
         kbind (writei dp (put_dirent \<lparr>de_inum = ucast inum,
           de_name = strncpy (lview name) (int DIRSIZ)\<rparr>) off 16) (\<lambda>n.
         if n \<noteq> 16 then kpanic ''dirlink'' else kret 0))))"

section \<open>Paths\<close>

text \<open>The next element of a path and what follows it.\<close>

definition skipelem :: "u8 list \<Rightarrow> (u8 list \<times> u8 list) option" where
  "skipelem path =
     (let path = dropWhile (\<lambda>c. c = 47) path in
      if path = [] then None
      else
        let s = takeWhile (\<lambda>c. c \<noteq> 47) path;
            path = dropWhile (\<lambda>c. c \<noteq> 47) path;
            name = (if length s \<ge> DIRSIZ then take DIRSIZ s else s)
        in Some (name, dropWhile (\<lambda>c. c = 47) path))"

lemma skipelem_shorter:
  assumes "skipelem path = Some (name, rest)"
  shows "length rest < length path"
proof -
  let ?p = "dropWhile (\<lambda>c. c = 47) path"
  from assms have p: "?p \<noteq> []" and rest: "rest = dropWhile (\<lambda>c. c = 47) (dropWhile (\<lambda>c. c \<noteq> 47) ?p)"
    by (auto simp: skipelem_def Let_def split: if_splits)
  from p have "hd ?p \<noteq> 47" by (rule hd_dropWhile)
  with p have eq: "dropWhile (\<lambda>c. c \<noteq> 47) ?p = dropWhile (\<lambda>c. c \<noteq> 47) (tl ?p)" by (cases ?p) auto
  have "length rest \<le> length (dropWhile (\<lambda>c. c \<noteq> 47) ?p)"
    unfolding rest by (rule length_dropWhile_le)
  also have "\<dots> \<le> length (tl ?p)" unfolding eq by (rule length_dropWhile_le)
  also have "\<dots> < length ?p" using p by (cases ?p) auto
  also have "\<dots> \<le> length path" by (rule length_dropWhile_le)
  finally show ?thesis .
qed

text \<open>The elements the loop of \<open>namex\<close> visits, each with the path that is left.\<close>

function path_elems :: "u8 list \<Rightarrow> (u8 list \<times> u8 list) list" where
  "path_elems path =
     (case skipelem path of None \<Rightarrow> [] | Some (name, rest) \<Rightarrow> (name, rest) # path_elems rest)"
  by pat_completeness auto
termination
  by (relation "measure length") (auto dest: skipelem_shorter)

declare path_elems.simps [simp del]

text \<open>The result is the inode and the last element stored in \<open>name\<close>.\<close>

fun namex_loop :: "nat \<Rightarrow> bool \<Rightarrow> u8 list \<Rightarrow> (u8 list \<times> u8 list) list \<Rightarrow> (nat \<times> u8 list) option K" where
  "namex_loop ip parent name [] =
     (if parent then kseq (iput ip) (kret None) else kret (Some (ip, name)))"
| "namex_loop ip parent _ ((name, path) # elems) =
     kseq (ilock ip) (
     kbind (get_inode ip) (\<lambda>q.
     if ip_type q \<noteq> T_DIR then kseq (iunlockput ip) (kret None)
     else if parent \<and> path = [] then kseq (iunlock ip) (kret (Some (ip, name)))
     else
       kbind (dirlookup ip name) (\<lambda>r.
       case r of
         None \<Rightarrow> kseq (iunlockput ip) (kret None)
       | Some (next, _) \<Rightarrow> kseq (iunlockput ip) (namex_loop next parent name elems))))"

definition namex :: "u8 list \<Rightarrow> bool \<Rightarrow> (nat \<times> u8 list) option K" where
  "namex path parent =
     kbind (if path \<noteq> [] \<and> hd path = 47 then iget ROOTDEV ROOTINO
            else kbind curproc (\<lambda>p. kbind (get_proc p) (\<lambda>q.
                 case p_cwd q of None \<Rightarrow> kpanic ''trap'' | Some cwd \<Rightarrow> idup cwd))) (\<lambda>ip.
     namex_loop ip parent [] (path_elems path))"

definition namei :: "u8 list \<Rightarrow> nat option K" where
  "namei path = kbind (namex path False) (\<lambda>r. kret (map_option fst r))"

definition nameiparent :: "u8 list \<Rightarrow> (nat \<times> u8 list) option K" where
  "nameiparent path = namex path True"

end
