(* ===== verification/Ring.thy ===== *)
theory Ring
  imports Xv6_Prelude
begin

text \<open>
  Ring buffers indexed by counters that only grow, as \<open>pipe.c\<close> and \<open>console.c\<close> use
  them: entry \<open>c\<close> of the stream is at index \<open>c mod N\<close>, the counters are 32-bit words
  that wrap around, and \<open>N\<close> divides \<open>2^32\<close>. The bounded queue they implement is
  described by a locale.
\<close>

definition ring :: "nat \<Rightarrow> 'a list \<Rightarrow> u32 \<Rightarrow> u32 \<Rightarrow> 'a list" where
  "ring n xs r w = map (\<lambda>i. xs ! (unat (r + of_nat i) mod n)) [0..<unat (w - r)]"

lemma length_ring [simp]: "length (ring n xs r w) = unat (w - r)"
  by (simp add: ring_def)

lemma ring_empty [simp]: "ring n xs r r = []"
  by (simp add: ring_def)

lemma unat_Suc_diff:
  fixes r w :: u32
  assumes "unat (w - r) < 2 ^ 32 - 1"
  shows "unat (w + 1 - r) = Suc (unat (w - r))"
proof -
  have "unat (x + 1) = Suc (unat x)" if "unat x < 2 ^ 32 - 1" for x :: u32
    using that by (simp add: unat_word_ariths)
  moreover have "w + 1 - r = (w - r) + 1" by simp
  ultimately show ?thesis using assms by metis
qed

text \<open>Two positions less than \<open>n\<close> apart have different indices.\<close>

lemma ring_index_neq:
  fixes r :: u32
  assumes "n dvd 2 ^ 32" "i < j" "j - i < n" "j < 2 ^ 32"
  shows "unat (r + of_nat i) mod n \<noteq> unat (r + of_nat j) mod n"
proof
  assume eq: "unat (r + of_nat i) mod n = unat (r + of_nat j) mod n"
  have m: "unat (r + of_nat k) mod n = (unat r + k) mod n" if "k < 2 ^ 32" for k
    using that assms(1) by (simp add: unat_word_ariths unat_of_nat mod_mod_cancel mod_add_right_eq)
  have "(unat r + i) mod n = (unat r + j) mod n" using eq m [of i] m [of j] assms(2,4) by simp
  then have "n dvd (unat r + j) - (unat r + i)" using mod_eq_dvd_iff_nat [of "unat r + i" "unat r + j" n] assms(2) by simp
  then show False using assms(2,3) by (simp add: nat_dvd_not_less)
qed

lemma ring_put:
  fixes r w :: u32
  assumes "n dvd 2 ^ 32" "n < 2 ^ 32" "length xs = n" "unat (w - r) < n"
  shows "ring n (xs[unat w mod n := x]) r (w + 1) = ring n xs r w @ [x]"
proof -
  have w: "w = r + of_nat (unat (w - r))" by simp
  have len: "unat (w + 1 - r) = Suc (unat (w - r))"
    using assms(2,4) by (intro unat_Suc_diff) simp
  have "xs[unat w mod n := x] ! (unat (r + of_nat i) mod n) = xs ! (unat (r + of_nat i) mod n)"
    if "i < unat (w - r)" for i
  proof -
    have "unat (r + of_nat i) mod n \<noteq> unat (r + of_nat (unat (w - r))) mod n"
      using that assms(2,4) by (intro ring_index_neq [OF assms(1)]) auto
    then show ?thesis by (simp flip: w)
  qed
  moreover have "xs[unat w mod n := x] ! (unat w mod n) = x" using assms(3,4) by simp
  ultimately show ?thesis by (simp add: ring_def len flip: w)
qed

lemma ring_get:
  fixes r w :: u32
  assumes "r \<noteq> w"
  shows "ring n xs r w = xs ! (unat r mod n) # ring n xs (r + 1) w"
proof -
  obtain k where k: "unat (w - r) = Suc k"
    using assms by (cases "unat (w - r)") (auto simp: unat_eq_zero)
  then have k': "unat (w - (r + 1)) = k"
    using unat_minus_one [of "w - r"] assms by (simp add: diff_diff_eq [symmetric])
  have "[0..<Suc k] = 0 # map Suc [0..<k]" by (simp add: map_Suc_upt upt_conv_Cons del: upt_Suc)
  then show ?thesis by (simp add: ring_def k k' add.assoc del: upt_Suc)
qed

section \<open>Bounded queues\<close>

text \<open>The contract: \<open>put\<close> adds an element at the end of the contents, \<open>get\<close> takes the
  first one off, and the queue is full when it holds \<open>cap\<close> elements.\<close>

locale bounded_queue =
  fixes inv :: "'q \<Rightarrow> bool" and contents :: "'q \<Rightarrow> 'a list" and cap :: nat
    and full :: "'q \<Rightarrow> bool" and empty :: "'q \<Rightarrow> bool"
    and put :: "'q \<Rightarrow> 'a \<Rightarrow> 'q" and get :: "'q \<Rightarrow> 'a \<times> 'q"
  assumes full_iff: "inv q \<Longrightarrow> full q \<longleftrightarrow> length (contents q) = cap"
    and empty_iff: "inv q \<Longrightarrow> empty q \<longleftrightarrow> contents q = []"
    and bounded: "inv q \<Longrightarrow> length (contents q) \<le> cap"
    and put_law: "inv q \<Longrightarrow> \<not> full q \<Longrightarrow> inv (put q x) \<and> contents (put q x) = contents q @ [x]"
    and get_law: "inv q \<Longrightarrow> \<not> empty q \<Longrightarrow>
      inv (snd (get q)) \<and> contents q = fst (get q) # contents (snd (get q))"
begin

text \<open>Putting several elements, as far as there is room; what is left over.\<close>

fun put_all :: "'q \<Rightarrow> 'a list \<Rightarrow> 'q \<times> 'a list" where
  "put_all q [] = (q, [])"
| "put_all q (x # xs) = (if full q then (q, x # xs) else put_all (put q x) xs)"

text \<open>Getting up to \<open>n\<close> elements.\<close>

fun get_upto :: "'q \<Rightarrow> nat \<Rightarrow> 'a list \<times> 'q" where
  "get_upto q 0 = ([], q)"
| "get_upto q (Suc n) =
     (if empty q then ([], q)
      else let (x, q') = get q; (xs, q'') = get_upto q' n in (x # xs, q''))"

lemma put_all_contents:
  "inv q \<Longrightarrow> inv (fst (put_all q xs)) \<and>
     contents (fst (put_all q xs)) = contents q @ take (cap - length (contents q)) xs \<and>
     snd (put_all q xs) = drop (cap - length (contents q)) xs"
proof (induction xs arbitrary: q)
  case (Cons x xs)
  show ?case
  proof (cases "full q")
    case True
    then show ?thesis using Cons.prems full_iff [OF Cons.prems] by simp
  next
    case False
    then have p: "inv (put q x)" "contents (put q x) = contents q @ [x]"
      using put_law Cons.prems by auto
    moreover have "cap - length (contents q) = Suc (cap - Suc (length (contents q)))"
      using False full_iff [OF Cons.prems] bounded [OF Cons.prems] by linarith
    ultimately show ?thesis using False Cons.IH [of "put q x"] by simp
  qed
qed simp

lemma get_upto_contents:
  "inv q \<Longrightarrow> inv (snd (get_upto q n)) \<and> fst (get_upto q n) = take n (contents q) \<and>
     contents (snd (get_upto q n)) = drop n (contents q)"
proof (induction n arbitrary: q)
  case (Suc n)
  show ?case
  proof (cases "empty q")
    case True
    then show ?thesis using Suc.prems empty_iff by simp
  next
    case False
    with get_law [OF Suc.prems] have g: "inv (snd (get q))"
      "contents q = fst (get q) # contents (snd (get q))" by auto
    show ?thesis
      using False Suc.IH [OF g(1)] g(2)
      by (cases "get q"; cases "get_upto (snd (get q)) n") (simp add: Let_def)
  qed
qed simp

text \<open>First in, first out: what is put into an empty queue with room for it comes
  out in the same order.\<close>

lemma fifo:
  assumes "inv q" "contents q = []" "length xs \<le> cap"
  shows "fst (get_upto (fst (put_all q xs)) (length xs)) = xs"
  using put_all_contents [OF assms(1), of xs] get_upto_contents [of "fst (put_all q xs)"] assms(2,3)
  by simp

end

end
