(* ===== verification/Pipe.thy ===== *)
theory Pipe
  imports Proc Ring
begin

text \<open>
  Pipes (\<open>pipe.c\<close>; \<open>pipealloc\<close>, which allocates file structures, is in the theory of
  \<open>file.c\<close>). A pipe is a ring of 512 bytes with two counters that only grow. The
  bytes a caller writes are given as a list; \<open>piperead\<close> yields its result together
  with the bytes it has stored at the caller's address. A caller that has to sleep
  goes on in \<open>pipewrite_resume\<close> or \<open>piperead_resume\<close>.
\<close>

section \<open>Operations\<close>

definition get_pipe :: "u32 \<Rightarrow> pipe K" where
  "get_pipe p = kget (\<lambda>s. k_pipes s p)"

definition upd_pipe :: "u32 \<Rightarrow> (pipe \<Rightarrow> pipe) \<Rightarrow> unit K" where
  "upd_pipe p f = kmod (\<lambda>s. s\<lparr>k_pipes := (k_pipes s)(p := f (k_pipes s p))\<rparr>)"

definition pipeclose :: "u32 \<Rightarrow> bool \<Rightarrow> unit K" where
  "pipeclose p writable =
     kseq (acquire (PipeLock p)) (
     kseq (if writable
           then kseq (upd_pipe p (\<lambda>q. q\<lparr>pi_writeopen := False\<rparr>)) (wakeup (ChanPipeRead p))
           else kseq (upd_pipe p (\<lambda>q. q\<lparr>pi_readopen := False\<rparr>)) (wakeup (ChanPipeWrite p))) (
     kbind (get_pipe p) (\<lambda>q.
     if \<not> pi_readopen q \<and> \<not> pi_writeopen q
     then kseq (release (PipeLock p)) (kfree p)
     else release (PipeLock p))))"

definition pipe_full :: "pipe \<Rightarrow> bool" where
  "pipe_full q \<longleftrightarrow> pi_nwrite q = pi_nread q + of_nat PIPESIZE"

definition pipe_empty :: "pipe \<Rightarrow> bool" where
  "pipe_empty q \<longleftrightarrow> pi_nread q = pi_nwrite q"

definition pipe_put :: "pipe \<Rightarrow> u8 \<Rightarrow> pipe" where
  "pipe_put q b = q\<lparr>pi_data := (pi_data q)[unat (pi_nwrite q) mod PIPESIZE := b],
     pi_nwrite := pi_nwrite q + 1\<rparr>"

definition pipe_get :: "pipe \<Rightarrow> u8 \<times> pipe" where
  "pipe_get q = (pi_data q ! (unat (pi_nread q) mod PIPESIZE), q\<lparr>pi_nread := pi_nread q + 1\<rparr>)"

text \<open>The loop of \<open>pipewrite\<close> with the bytes still to write, and what follows it.\<close>

fun pipewrite_loop :: "u32 \<Rightarrow> int \<Rightarrow> u8 list \<Rightarrow> int K" where
  "pipewrite_loop p n [] =
     kseq (wakeup (ChanPipeRead p)) (kseq (release (PipeLock p)) (kret n))"
| "pipewrite_loop p n (b # bs) =
     kbind (get_pipe p) (\<lambda>q.
     if pipe_full q then
       kbind (if \<not> pi_readopen q then kret True
              else kbind curproc (\<lambda>cur. kbind (get_proc cur) (\<lambda>c. kret (p_killed c)))) (\<lambda>stop.
       if stop then kseq (release (PipeLock p)) (kret (-1))
       else
         kseq (wakeup (ChanPipeRead p)) (
         kseq (sleep (ChanPipeWrite p) (PipeLock p)) (kret 0)))
     else
       kseq (upd_pipe p (\<lambda>q. pipe_put q b)) (pipewrite_loop p n bs))"

definition pipewrite :: "u32 \<Rightarrow> u8 list \<Rightarrow> int \<Rightarrow> int K" where
  "pipewrite p addr n =
     kseq (acquire (PipeLock p)) (pipewrite_loop p n (take (nat n) addr))"

definition pipewrite_resume :: "nat \<Rightarrow> u32 \<Rightarrow> int \<Rightarrow> u8 list \<Rightarrow> int K" where
  "pipewrite_resume cur p n rest =
     kseq (sleep_resume cur (PipeLock p)) (pipewrite_loop p n rest)"

fun piperead_copy :: "pipe \<Rightarrow> nat \<Rightarrow> u8 list \<times> pipe" where
  "piperead_copy q 0 = ([], q)"
| "piperead_copy q (Suc n) =
     (if pipe_empty q then ([], q)
      else let (b, q') = pipe_get q; (bs, q'') = piperead_copy q' n in (b # bs, q''))"

definition piperead_loop :: "u32 \<Rightarrow> int \<Rightarrow> (int \<times> u8 list) K" where
  "piperead_loop p n =
     kbind (get_pipe p) (\<lambda>q.
     if pipe_empty q \<and> pi_writeopen q then
       kbind curproc (\<lambda>cur.
       kbind (get_proc cur) (\<lambda>c.
       if p_killed c then kseq (release (PipeLock p)) (kret (-1, []))
       else kseq (sleep (ChanPipeRead p) (PipeLock p)) (kret (0, []))))
     else
       (let (bs, q') = piperead_copy q (nat n) in
        kseq (upd_pipe p (\<lambda>_. q')) (
        kseq (wakeup (ChanPipeWrite p)) (
        kseq (release (PipeLock p)) (
        kret (int (length bs), bs))))))"

definition piperead :: "u32 \<Rightarrow> int \<Rightarrow> (int \<times> u8 list) K" where
  "piperead p n = kseq (acquire (PipeLock p)) (piperead_loop p n)"

definition piperead_resume :: "nat \<Rightarrow> u32 \<Rightarrow> int \<Rightarrow> (int \<times> u8 list) K" where
  "piperead_resume cur p n = kseq (sleep_resume cur (PipeLock p)) (piperead_loop p n)"

section \<open>A pipe is a bounded queue of bytes\<close>

definition pipe_inv :: "pipe \<Rightarrow> bool" where
  "pipe_inv q \<longleftrightarrow> length (pi_data q) = PIPESIZE \<and> unat (pi_nwrite q - pi_nread q) \<le> PIPESIZE"

definition pipe_contents :: "pipe \<Rightarrow> u8 list" where
  "pipe_contents q = ring PIPESIZE (pi_data q) (pi_nread q) (pi_nwrite q)"

lemma pipe_full_iff: "pipe_inv q \<Longrightarrow> pipe_full q \<longleftrightarrow> length (pipe_contents q) = PIPESIZE"
proof -
  have "pi_nwrite q = pi_nread q + 512 \<longleftrightarrow> pi_nwrite q - pi_nread q = 512"
    by (auto simp: algebra_simps)
  also have "\<dots> \<longleftrightarrow> unat (pi_nwrite q - pi_nread q) = unat (512 :: u32)"
    by (simp only: word_unat_eq_iff)
  finally show ?thesis by (simp add: pipe_full_def pipe_contents_def)
qed

lemma pipe_empty_iff: "pipe_empty q \<longleftrightarrow> pipe_contents q = []"
proof -
  have "pipe_contents q = [] \<longleftrightarrow> unat (pi_nwrite q - pi_nread q) = 0"
    using length_ring [of PIPESIZE "pi_data q" "pi_nread q" "pi_nwrite q"]
    by (simp add: pipe_contents_def flip: length_0_conv)
  then show ?thesis by (auto simp: pipe_empty_def unat_eq_zero)
qed

lemma pipe_put_law:
  assumes "pipe_inv q" "\<not> pipe_full q"
  shows "pipe_inv (pipe_put q b) \<and> pipe_contents (pipe_put q b) = pipe_contents q @ [b]"
proof -
  have room: "unat (pi_nwrite q - pi_nread q) < PIPESIZE"
    using assms pipe_full_iff [of q] by (simp add: pipe_inv_def pipe_contents_def)
  then have "unat (pi_nwrite q + 1 - pi_nread q) = Suc (unat (pi_nwrite q - pi_nread q))"
    by (intro unat_Suc_diff) simp
  moreover have "pipe_contents (pipe_put q b) = pipe_contents q @ [b]"
  proof -
    have "(512 :: nat) dvd 2 ^ 32" by (rule dvdI [of _ _ "2 ^ 23"]) simp
    from ring_put [OF this _ _ room, of "pi_data q" b] assms(1) show ?thesis
      unfolding pipe_contents_def pipe_put_def pipe_inv_def by simp
  qed
  ultimately show ?thesis using assms(1) room by (simp add: pipe_inv_def pipe_put_def)
qed

lemma pipe_get_law:
  assumes "pipe_inv q" "\<not> pipe_empty q"
  shows "pipe_inv (snd (pipe_get q)) \<and>
    pipe_contents q = fst (pipe_get q) # pipe_contents (snd (pipe_get q))"
proof -
  have ne: "pi_nread q \<noteq> pi_nwrite q" using assms(2) by (simp add: pipe_empty_def)
  have c: "pipe_contents q = fst (pipe_get q) # pipe_contents (snd (pipe_get q))"
    using ring_get [OF ne] by (simp add: pipe_contents_def pipe_get_def)
  then have "length (pipe_contents q) = Suc (length (pipe_contents (snd (pipe_get q))))" by simp
  then have "unat (pi_nwrite q - (pi_nread q + 1)) \<le> unat (pi_nwrite q - pi_nread q)"
    by (simp add: pipe_contents_def pipe_get_def)
  with assms(1) c show ?thesis by (simp add: pipe_inv_def pipe_get_def)
qed

interpretation pipe_queue: bounded_queue pipe_inv pipe_contents PIPESIZE pipe_full pipe_empty pipe_put pipe_get
proof unfold_locales
  show "pipe_inv q \<Longrightarrow> length (pipe_contents q) \<le> PIPESIZE" for q
    by (simp add: pipe_inv_def pipe_contents_def)
qed (rule pipe_full_iff pipe_empty_iff pipe_put_law pipe_get_law; assumption)+

section \<open>Running the operations\<close>

lemma get_pipe_run [krun]: "get_pipe p s = Ok (k_pipes s p) s"
  by (simp add: get_pipe_def krun)

lemma upd_pipe_run [krun]:
  "upd_pipe p f s = Ok () (s\<lparr>k_pipes := (k_pipes s)(p := f (k_pipes s p))\<rparr>)"
  by (simp add: upd_pipe_def krun)

lemma pipes_same [simp]: "s\<lparr>k_pipes := k_pipes s\<rparr> = s"
  by simp

text \<open>The write loop first fills the ring as far as there is room.\<close>

lemma pipewrite_loop_fills:
  "pipewrite_loop p n bs s =
     pipewrite_loop p n (snd (pipe_queue.put_all (k_pipes s p) bs))
       (s\<lparr>k_pipes := (k_pipes s)(p := fst (pipe_queue.put_all (k_pipes s p) bs))\<rparr>)"
proof (induction bs arbitrary: s)
  case (Cons b bs)
  show ?case
  proof (cases "pipe_full (k_pipes s p)")
    case False
    let ?t = "s\<lparr>k_pipes := (k_pipes s)(p := pipe_put (k_pipes s p) b)\<rparr>"
    have "pipewrite_loop p n (b # bs) s = pipewrite_loop p n bs ?t"
      using False by (simp add: krun)
    also note Cons.IH [of ?t]
    finally show ?thesis
      using False by (simp del: pipewrite_loop.simps fun_upd_apply add: fun_upd_same)
  qed simp
qed simp

lemma put_all_open:
  "pi_readopen (fst (pipe_queue.put_all q bs)) = pi_readopen q"
  "pi_writeopen (fst (pipe_queue.put_all q bs)) = pi_writeopen q"
  by (induction bs arbitrary: q) (simp_all add: pipe_put_def)

lemma piperead_copy_get_upto: "piperead_copy q n = pipe_queue.get_upto q n"
  by (induction q n rule: piperead_copy.induct) (simp_all split: prod.splits)

definition woken :: "chan \<Rightarrow> kernel \<Rightarrow> kernel" where
  "woken ch s = s\<lparr>k_ptable := map (wake (Some ch)) (k_ptable s)\<rparr>"

lemma wakeup_woken: "PtableLock \<notin> set (k_held s) \<Longrightarrow> wakeup ch s = Ok () (woken ch s)"
  by (simp add: wakeup_run woken_def)

lemma wake_running [simp]: "p_state q \<noteq> SLEEPING \<Longrightarrow> wake ch q = q"
  by (simp add: wake_def)

text \<open>A process that runs with no locks held.\<close>

definition running :: "kernel \<Rightarrow> nat \<Rightarrow> bool" where
  "running s p \<longleftrightarrow> k_curproc s = Some p \<and> p < length (k_ptable s) \<and>
     p_state (k_ptable s ! p) = RUNNING \<and> k_held s = []"

definition room :: "pipe \<Rightarrow> nat" where
  "room q = PIPESIZE - length (pipe_contents q)"

section \<open>Properties\<close>

text \<open>A pipe between two processes, the first of which runs.\<close>

definition piping :: kernel where
  "piping = one_proc\<lparr>k_pipes := (\<lambda>_. pipe0\<lparr>pi_nread := 0xFFFFFFFE, pi_nwrite := 0xFFFFFFFE,
     pi_readopen := True, pi_writeopen := True\<rparr>)\<rparr>"

lemma piping_simps:
  "running piping 0" "pipe_inv (k_pipes piping p)" "pipe_contents (k_pipes piping p) = []"
  "pi_readopen (k_pipes piping p)" "\<not> p_killed (k_ptable piping ! 0)"
  by (simp_all add: running_def piping_def one_proc_def kernel0_def proc0_def pipe_inv_def
      pipe_contents_def pipe0_def)

text \<open>C39 (pipe.c:78-98): writing to a pipe. The bytes go to the end of the contents as
  far as there is room. If all fit, the readers are woken and the number of bytes is
  returned. Otherwise the writer gets -1 if the read end is closed or it has been
  killed; or else it wakes the readers and sleeps, with exactly the bytes that did
  not fit still to write.\<close>

theorem pipewrite_cases:
  assumes "running s cur" "pipe_inv (k_pipes s p)" "q = k_pipes s p"
  shows "\<exists>q'. pipe_inv q' \<and> pipe_contents q' = pipe_contents q @ take (room q) bs \<and>
    pi_readopen q' = pi_readopen q \<and> pi_writeopen q' = pi_writeopen q \<and>
    (let t = s\<lparr>k_pipes := (k_pipes s)(p := q')\<rparr> in
     pipewrite p bs (int (length bs)) s =
      (if length bs \<le> room q then Ok (int (length bs)) (woken (ChanPipeRead p) t)
       else if \<not> pi_readopen q \<or> p_killed (k_ptable s ! cur) then Ok (-1) t
       else Switch ((woken (ChanPipeRead p) t)\<lparr>k_held := [PtableLock],
          k_ptable := (k_ptable (woken (ChanPipeRead p) t))
            [cur := (k_ptable s ! cur)\<lparr>p_chan := Some (ChanPipeWrite p), p_state := SLEEPING\<rparr>]\<rparr>)))"
proof -
  let ?q' = "fst (pipe_queue.put_all q bs)" and ?rest = "drop (room q) bs"
  let ?t = "s\<lparr>k_pipes := (k_pipes s)(p := ?q')\<rparr>"
  have pa: "pipe_inv ?q'" "pipe_contents ?q' = pipe_contents q @ take (room q) bs"
      "snd (pipe_queue.put_all q bs) = ?rest"
    using pipe_queue.put_all_contents [of q bs] assms(2,3) by (simp_all add: room_def)
  have open': "pi_readopen ?q' = pi_readopen q" "pi_writeopen ?q' = pi_writeopen q"
    by (rule put_all_open)+
  have run: "pipewrite p bs (int (length bs)) s =
      pipewrite_loop p (int (length bs)) ?rest
        (s\<lparr>k_held := [PipeLock p], k_pipes := (k_pipes s)(p := ?q')\<rparr>)"
    using assms(1,3) pa(3) pipewrite_loop_fills [of p "int (length bs)" bs "s\<lparr>k_held := [PipeLock p]\<rparr>"]
    by (simp add: pipewrite_def krun running_def)
  have full: "length bs > room q \<Longrightarrow> pipe_full ?q'"
    using pipe_queue.full_iff [OF pa(1)] pipe_queue.bounded [of q] assms(2,3) pa(2)
    by (simp add: room_def)
  have "pipewrite p bs (int (length bs)) s =
      (if length bs \<le> room q then Ok (int (length bs)) (woken (ChanPipeRead p) ?t)
       else if \<not> pi_readopen q \<or> p_killed (k_ptable s ! cur) then Ok (-1) ?t
       else Switch ((woken (ChanPipeRead p) ?t)\<lparr>k_held := [PtableLock],
          k_ptable := (k_ptable (woken (ChanPipeRead p) ?t))
            [cur := (k_ptable s ! cur)\<lparr>p_chan := Some (ChanPipeWrite p), p_state := SLEEPING\<rparr>]\<rparr>))"
  proof (cases "length bs \<le> room q")
    case True
    then show ?thesis
      unfolding run using assms(1) by (simp add: krun wakeup_woken woken_def running_def)
  next
    case False
    then obtain b rest where rest: "?rest = b # rest" by (cases ?rest) auto
    show ?thesis
      unfolding run rest using False full assms(1) open'
      by (simp add: krun wakeup_woken woken_def running_def sleep_run)
  qed
  with pa(1,2) open' show ?thesis by (intro exI [of _ ?q']) (simp add: Let_def)
qed

theorem pipewrite_cases_witness:
  "\<exists>t. pipewrite 0x80500000 [104, 105] 2 piping = Ok 2 t \<and> pipe_contents (k_pipes t 0x80500000) = [104, 105]"
  using pipewrite_cases [OF piping_simps(1,2) refl, of "0x80500000" "[104, 105]"]
  by (auto simp: piping_simps(3) room_def woken_def Let_def)

text \<open>C40 (pipe.c:100-121): reading from a pipe. If it is empty and the write end is
  open, a killed reader gets -1 and another one sleeps until there is data. Otherwise
  the reader gets the first \<open>n\<close> bytes of the contents, or all of them if there are
  fewer, which are removed, and the writers are woken; from an empty pipe with its
  write end closed it gets 0.\<close>

theorem piperead_cases:
  assumes "running s cur" "pipe_inv (k_pipes s p)" "q = k_pipes s p"
  shows "if pipe_contents q = [] \<and> pi_writeopen q
    then piperead p n s =
      (if p_killed (k_ptable s ! cur) then Ok (-1, []) s
       else Switch (s\<lparr>k_held := [PtableLock], k_ptable := (k_ptable s)
         [cur := (k_ptable s ! cur)\<lparr>p_chan := Some (ChanPipeRead p), p_state := SLEEPING\<rparr>]\<rparr>))
    else \<exists>q'. pipe_inv q' \<and> pipe_contents q' = drop (nat n) (pipe_contents q) \<and>
      piperead p n s = Ok (int (length (take (nat n) (pipe_contents q))), take (nat n) (pipe_contents q))
        (woken (ChanPipeWrite p) (s\<lparr>k_pipes := (k_pipes s)(p := q')\<rparr>))"
proof (cases "pipe_contents q = [] \<and> pi_writeopen q")
  case True
  then have "pipe_empty q" by (simp add: pipe_empty_iff)
  with True assms show ?thesis
    by (simp add: piperead_def piperead_loop_def krun running_def sleep_run)
next
  case False
  then have e: "\<not> (pipe_empty q \<and> pi_writeopen q)" by (simp add: pipe_empty_iff)
  obtain bs q' where g: "pipe_queue.get_upto q (nat n) = (bs, q')" by fastforce
  from pipe_queue.get_upto_contents [of q "nat n"] assms(2,3) g
  have "pipe_inv q'" "bs = take (nat n) (pipe_contents q)"
    "pipe_contents q' = drop (nat n) (pipe_contents q)" by simp_all
  moreover have "piperead p n s = Ok (int (length bs), bs)
      (woken (ChanPipeWrite p) (s\<lparr>k_pipes := (k_pipes s)(p := q')\<rparr>))"
    using e assms(1,3) g
    by (auto simp: piperead_def piperead_loop_def krun running_def piperead_copy_get_upto
        wakeup_woken woken_def)
  ultimately show ?thesis using False by auto
qed

theorem piperead_cases_witness:
  "\<exists>t. piperead 0x80500000 5 piping = Switch t \<and> p_state (k_ptable t ! 0) = SLEEPING"
proof -
  have "pi_writeopen (k_pipes piping 0x80500000)" by (simp add: piping_def)
  with piperead_cases [OF piping_simps(1,2) refl, of "0x80500000" 5] piping_simps(3,5) show ?thesis
    using piping_simps(1) by (auto simp: running_def)
qed

text \<open>C38 (pipe.c:78-121): a pipe is first in, first out, across the wrap-around of its
  counters. What one process writes into a pipe with room for it, another process
  then reads after the bytes that were in the pipe before, in the same order.\<close>

theorem pipe_first_in_first_out:
  assumes "running s a" "pipe_inv (k_pipes s p)" "length bs \<le> room (k_pipes s p)"
    and "pipewrite p bs (int (length bs)) s = Ok r t"
    and "k_pipes u = k_pipes t" "running u b"
    and "n = length (pipe_contents (k_pipes s p)) + length bs" "n > 0"
  shows "r = int (length bs) \<and>
    (\<exists>v. piperead p (int n) u = Ok (int n, pipe_contents (k_pipes s p) @ bs) v \<and>
       pipe_contents (k_pipes v p) = [])"
proof -
  obtain q' where q': "pipe_inv q'" "pipe_contents q' = pipe_contents (k_pipes s p) @ bs"
    "r = int (length bs)" "k_pipes t p = q'"
    using pipewrite_cases [OF assms(1,2) refl, of bs] assms(3,4)
    by (auto simp: Let_def woken_def)
  have "pipe_inv (k_pipes u p)" "pipe_contents (k_pipes u p) \<noteq> []"
    using q' assms(5,7,8) by auto
  with piperead_cases [OF assms(6) this(1) refl, of "int n"] q' assms(5,7)
  show ?thesis by (auto simp: woken_def)
qed

theorem pipe_first_in_first_out_witness:
  "\<exists>t v. pipewrite 0x80500000 [104, 105] 2 piping = Ok 2 t \<and> piperead 0x80500000 2 t = Ok (2, [104, 105]) v"
proof -
  obtain t where t: "pipewrite 0x80500000 [104, 105] 2 piping = Ok 2 t" "running t 0"
    using pipewrite_cases [OF piping_simps(1,2) refl, of "0x80500000" "[104, 105]"] piping_simps(1)
    by (auto simp: piping_simps(3) room_def woken_def running_def Let_def)
  then show ?thesis
    using pipe_first_in_first_out [OF piping_simps(1,2), of "[104, 105]" "0x80500000" 2 t t 0 2]
    by (auto simp: piping_simps(3) room_def)
qed

end
