(* ===== verification/File.thy ===== *)
theory File
  imports Fs Pipe
begin

text \<open>
  Open files (\<open>file.c\<close>) and \<open>pipealloc\<close> (\<open>pipe.c\<close>). \<open>fileread\<close> yields its result
  together with the bytes it has stored at the caller's address; \<open>filewrite\<close> takes the
  bytes as a list.
\<close>

definition get_file :: "nat \<Rightarrow> kfile K" where
  "get_file f = kget (\<lambda>s. k_ftable s ! f)"

definition upd_file :: "nat \<Rightarrow> (kfile \<Rightarrow> kfile) \<Rightarrow> unit K" where
  "upd_file f g = kmod (\<lambda>s. s\<lparr>k_ftable := (k_ftable s)[f := g (k_ftable s ! f)]\<rparr>)"

definition filealloc :: "nat option K" where
  "filealloc =
     kseq (acquire FtableLock) (
     kbind (kget (\<lambda>s. find_slot (\<lambda>f. f_ref f = 0) (k_ftable s))) (\<lambda>r.
     case r of
       Some f \<Rightarrow>
         kseq (upd_file f (\<lambda>q. q\<lparr>f_ref := 1\<rparr>)) (
         kseq (release FtableLock) (kret (Some f)))
     | None \<Rightarrow> kseq (release FtableLock) (kret None)))"

definition filedup :: "nat \<Rightarrow> nat K" where
  "filedup f =
     kseq (acquire FtableLock) (
     kbind (get_file f) (\<lambda>q.
     if f_ref q < 1 then kpanic ''filedup''
     else
       kseq (upd_file f (\<lambda>q. q\<lparr>f_ref := f_ref q + 1\<rparr>)) (
       kseq (release FtableLock) (kret f))))"

definition fileclose :: "nat \<Rightarrow> unit K" where
  "fileclose f =
     kseq (acquire FtableLock) (
     kbind (get_file f) (\<lambda>q.
     if f_ref q < 1 then kpanic ''fileclose''
     else
       kseq (upd_file f (\<lambda>q. q\<lparr>f_ref := f_ref q - 1\<rparr>)) (
       if f_ref q - 1 > 0 then release FtableLock
       else
         kbind (get_file f) (\<lambda>ff.
         kseq (upd_file f (\<lambda>q. q\<lparr>f_ref := 0, f_type := FD_NONE\<rparr>)) (
         kseq (release FtableLock) (
         if f_type ff = FD_PIPE then pipeclose (f_pipe ff) (f_writable ff)
         else if f_type ff = FD_INODE then
           (case f_ip ff of
              None \<Rightarrow> kpanic ''trap''
            | Some ip \<Rightarrow> kseq begin_op (kseq (iput ip) end_op))
         else kret ()))))))"

definition filestat :: "nat \<Rightarrow> stat option K" where
  "filestat f =
     kbind (get_file f) (\<lambda>q.
     if f_type q = FD_INODE then
       (case f_ip q of
          None \<Rightarrow> kpanic ''ilock''
        | Some ip \<Rightarrow>
            kseq (ilock ip) (
            kbind (stati ip) (\<lambda>st.
            kseq (iunlock ip) (
            kret (Some st)))))
     else kret None)"

definition fileread :: "nat \<Rightarrow> int \<Rightarrow> (int \<times> u8 list) K" where
  "fileread f n =
     kbind (get_file f) (\<lambda>q.
     if \<not> f_readable q then kret (-1, [])
     else if f_type q = FD_PIPE then piperead (f_pipe q) n
     else if f_type q = FD_INODE then
       (case f_ip q of
          None \<Rightarrow> kpanic ''ilock''
        | Some ip \<Rightarrow>
            kseq (ilock ip) (
            kbind (readi ip (f_off q) (of_int n)) (\<lambda>(r, bs).
            kseq (kwhen (r > 0) (upd_file f (\<lambda>q. q\<lparr>f_off := f_off q + of_int r\<rparr>))) (
            kseq (iunlock ip) (
            kret (r, bs))))))
     else kpanic ''fileread'')"

text \<open>\<open>n1\<close> is at most 1536, three blocks. The pieces the loop of \<open>filewrite\<close> writes:\<close>

abbreviation (input) max_write :: nat where "max_write \<equiv> 1536"

function pieces :: "u8 list \<Rightarrow> u8 list list" where
  "pieces bs = (if bs = [] then [] else take max_write bs # pieces (drop max_write bs))"
  by pat_completeness auto
termination by (relation "measure length") auto

declare pieces.simps [simp del]

text \<open>The loop, with the number of bytes written so far.\<close>

fun filewrite_loop :: "nat \<Rightarrow> nat \<Rightarrow> u8 list list \<Rightarrow> int \<Rightarrow> int K" where
  "filewrite_loop f ip [] i = kret i"
| "filewrite_loop f ip (c # cs) i =
     kseq begin_op (
     kseq (ilock ip) (
     kbind (get_file f) (\<lambda>q.
     kbind (writei ip c (f_off q) (of_nat (length c))) (\<lambda>r.
     kseq (kwhen (r > 0) (upd_file f (\<lambda>q. q\<lparr>f_off := f_off q + of_int r\<rparr>))) (
     kseq (iunlock ip) (
     kseq end_op (
     if r < 0 then kret i
     else if r \<noteq> int (length c) then kpanic ''short filewrite''
     else filewrite_loop f ip cs (i + r))))))))"

definition filewrite :: "nat \<Rightarrow> u8 list \<Rightarrow> int \<Rightarrow> int K" where
  "filewrite f addr n =
     kbind (get_file f) (\<lambda>q.
     if \<not> f_writable q then kret (-1)
     else if f_type q = FD_PIPE then pipewrite (f_pipe q) addr n
     else if f_type q = FD_INODE then
       kbind (case f_ip q of
                None \<Rightarrow> if n > 0 then kpanic ''ilock'' else kret 0
              | Some ip \<Rightarrow> filewrite_loop f ip (pieces (take (nat n) addr)) 0) (\<lambda>i.
       kret (if i = n then n else -1))
     else kpanic ''filewrite'')"

text \<open>The \<open>bad\<close> exit of \<open>pipealloc\<close>, reached with no pipe allocated.\<close>

definition pipealloc_bad :: "nat option \<Rightarrow> nat option \<Rightarrow> (nat \<times> nat) option K" where
  "pipealloc_bad f0 f1 =
     kseq (case f0 of None \<Rightarrow> kret () | Some f \<Rightarrow> fileclose f) (
     kseq (case f1 of None \<Rightarrow> kret () | Some f \<Rightarrow> fileclose f) (
     kret None))"

definition pipealloc :: "(nat \<times> nat) option K" where
  "pipealloc =
     kbind filealloc (\<lambda>f0.
     case f0 of
       None \<Rightarrow> pipealloc_bad None None
     | Some r \<Rightarrow>
         kbind filealloc (\<lambda>f1.
         case f1 of
           None \<Rightarrow> pipealloc_bad f0 None
         | Some w \<Rightarrow>
             kbind kalloc (\<lambda>p.
             if p = 0 then pipealloc_bad f0 f1
             else
               kseq (upd_pipe p (\<lambda>q. q\<lparr>pi_readopen := True, pi_writeopen := True, pi_nwrite := 0,
                 pi_nread := 0\<rparr>)) (
               kseq (upd_file r (\<lambda>q. q\<lparr>f_type := FD_PIPE, f_readable := True, f_writable := False,
                 f_pipe := p\<rparr>)) (
               kseq (upd_file w (\<lambda>q. q\<lparr>f_type := FD_PIPE, f_readable := False, f_writable := True,
                 f_pipe := p\<rparr>)) (
               kret (Some (r, w))))))))"

end
