(* ===== verification/Proc_Life.thy ===== *)
theory Proc_Life
  imports File
begin

text \<open>
  The life of a process (\<open>proc.c\<close>): \<open>userinit\<close>, \<open>fork\<close>, \<open>exit\<close> and \<open>forkret\<close>, which use
  the file layer. The bytes of \<open>initcode\<close> are produced by the build and are a parameter
  of \<open>userinit\<close>.
\<close>

abbreviation (input) SEG_UCODE :: u16 where "SEG_UCODE \<equiv> 3"
abbreviation (input) SEG_UDATA :: u16 where "SEG_UDATA \<equiv> 4"
abbreviation (input) DPL_USER :: u16 where "DPL_USER \<equiv> 3"
abbreviation (input) FL_IF :: u32 where "FL_IF \<equiv> 0x200"

text \<open>\<open>safestrcpy\<close> into a process name, an array of 16 bytes.\<close>

definition set_name :: "nat \<Rightarrow> u8 list \<Rightarrow> unit K" where
  "set_name p t =
     upd_proc p (\<lambda>q. q\<lparr>p_name := put_bytes (p_name q) 0 (safestrcpy (lview t) 16)\<rparr>)"

definition user_trapframe :: trapframe where
  "user_trapframe = trapframe0\<lparr>
     tf_cs := push_bit 3 SEG_UCODE OR DPL_USER,
     tf_ds := push_bit 3 SEG_UDATA OR DPL_USER,
     tf_es := push_bit 3 SEG_UDATA OR DPL_USER,
     tf_ss := push_bit 3 SEG_UDATA OR DPL_USER,
     tf_eflags := FL_IF,
     tf_esp := PGSIZE,
     tf_eip := 0\<rparr>"

definition userinit :: "u8 list \<Rightarrow> unit K" where
  "userinit initcode =
     kbind allocproc (\<lambda>r.
     kseq (kmod (\<lambda>s. s\<lparr>k_initproc := r\<rparr>)) (
     kbind setupkvm (\<lambda>d.
     case r of
       None \<Rightarrow> kpanic ''trap''
     | Some p \<Rightarrow>
         kseq (upd_proc p (\<lambda>q. q\<lparr>p_pgdir := d\<rparr>)) (
         if d = 0 then kpanic ''userinit: out of memory?''
         else
           kseq (inituvm d initcode) (
           kseq (upd_proc p (\<lambda>q. q\<lparr>p_sz := PGSIZE\<rparr>)) (
           kseq (upd_proc p (\<lambda>q. q\<lparr>p_tf := user_trapframe\<rparr>)) (
           kseq (set_name p (bytes ''initcode'')) (
           kbind (namei [47]) (\<lambda>cwd.
           kseq (upd_proc p (\<lambda>q. q\<lparr>p_cwd := cwd\<rparr>)) (
           kseq (acquire PtableLock) (
           kseq (upd_proc p (\<lambda>q. q\<lparr>p_state := RUNNABLE\<rparr>)) (
           release PtableLock))))))))))))"

definition fork :: "u32 K" where
  "fork =
     kbind curproc (\<lambda>cur.
     kbind allocproc (\<lambda>r.
     case r of
       None \<Rightarrow> kret (-1)
     | Some np \<Rightarrow>
         kbind (get_proc cur) (\<lambda>c.
         kbind (copyuvm (p_pgdir c) (p_sz c)) (\<lambda>d.
         kseq (upd_proc np (\<lambda>q. q\<lparr>p_pgdir := d\<rparr>)) (
         if d = 0 then
           kbind (get_proc np) (\<lambda>n.
           kseq (kfree (p_kstack n)) (
           kseq (upd_proc np (\<lambda>q. q\<lparr>p_kstack := 0\<rparr>)) (
           kseq (upd_proc np (\<lambda>q. q\<lparr>p_state := UNUSED\<rparr>)) (
           kret (-1)))))
         else
           kseq (upd_proc np (\<lambda>q. q\<lparr>p_sz := p_sz c\<rparr>)) (
           kseq (upd_proc np (\<lambda>q. q\<lparr>p_parent := Some cur\<rparr>)) (
           kseq (upd_proc np (\<lambda>q. q\<lparr>p_tf := p_tf c\<rparr>)) (
           kseq (upd_proc np (\<lambda>q. q\<lparr>p_tf := (p_tf q)\<lparr>tf_eax := 0\<rparr>\<rparr>)) (
           kseq (kfor [0..<NOFILE] (\<lambda>i.
             case p_ofile c ! i of
               None \<Rightarrow> kret ()
             | Some f \<Rightarrow>
                 kbind (filedup f) (\<lambda>f'.
                 upd_proc np (\<lambda>q. q\<lparr>p_ofile := (p_ofile q)[i := Some f']\<rparr>)))) (
           kbind (case p_cwd c of None \<Rightarrow> kpanic ''trap'' | Some d \<Rightarrow> idup d) (\<lambda>cwd.
           kseq (upd_proc np (\<lambda>q. q\<lparr>p_cwd := Some cwd\<rparr>)) (
           kseq (set_name np (p_name c)) (
           kbind (get_proc np) (\<lambda>n.
           kseq (acquire PtableLock) (
           kseq (upd_proc np (\<lambda>q. q\<lparr>p_state := RUNNABLE\<rparr>)) (
           kseq (release PtableLock) (
           kret (p_pid n))))))))))))))))))"

definition exit_files :: "nat \<Rightarrow> unit K" where
  "exit_files cur = kfor [0..<NOFILE] (\<lambda>fd.
     kbind (get_proc cur) (\<lambda>c.
     case p_ofile c ! fd of
       None \<Rightarrow> kret ()
     | Some f \<Rightarrow>
         kseq (fileclose f) (
         upd_proc cur (\<lambda>q. q\<lparr>p_ofile := (p_ofile q)[fd := None]\<rparr>))))"

definition exit_children :: "nat \<Rightarrow> unit K" where
  "exit_children cur = kfor [0..<NPROC] (\<lambda>i.
     kbind (get_proc i) (\<lambda>q.
     kwhen (p_parent q = Some cur) (
       kbind (kget k_initproc) (\<lambda>init.
       kseq (upd_proc i (\<lambda>q. q\<lparr>p_parent := init\<rparr>)) (
       kwhen (p_state q = ZOMBIE) (wakeup1 (map_option ChanProc init)))))))"

definition exit :: "unit K" where
  "exit =
     kbind curproc (\<lambda>cur.
     kbind (kget k_initproc) (\<lambda>init.
     if Some cur = init then kpanic ''init exiting''
     else
       kseq (exit_files cur) (
       kseq begin_op (
       kbind (get_proc cur) (\<lambda>c.
       kseq (case p_cwd c of None \<Rightarrow> kpanic ''trap'' | Some d \<Rightarrow> iput d) (
       kseq end_op (
       kseq (upd_proc cur (\<lambda>q. q\<lparr>p_cwd := None\<rparr>)) (
       kseq (acquire PtableLock) (
       kbind (get_proc cur) (\<lambda>c.
       kseq (wakeup1 (map_option ChanProc (p_parent c))) (
       kseq (exit_children cur) (
       kseq (upd_proc cur (\<lambda>q. q\<lparr>p_state := ZOMBIE\<rparr>)) (
       kseq sched (
       kpanic ''zombie exit''))))))))))))))"

definition forkret :: "unit K" where
  "forkret =
     kseq (release PtableLock) (
     kbind (kget k_first) (\<lambda>first.
     kwhen first (
       kseq (kmod (\<lambda>s. s\<lparr>k_first := False\<rparr>)) (
       kseq (iinit ROOTDEV) (
       initlog ROOTDEV)))))"

end
