(* ===== verification/Usermem.thy ===== *)
theory Usermem
  imports Vm
begin

text \<open>
  User memory as the running kernel sees it: the processor translates addresses
  through the page table in \<open>cr3\<close>. A page that is not present, or not writable in
  case of a store, is a page fault in the kernel, which \<open>trap\<close> turns into a panic.
\<close>

text \<open>The kernel address of the byte at virtual address \<open>va\<close>; \<open>flags\<close> are the bits that
  both table entries must have.\<close>

definition vtop :: "mem \<Rightarrow> u32 \<Rightarrow> u32 \<Rightarrow> u32 \<Rightarrow> u32 option" where
  "vtop m cr3 flags va =
     (let pde = ld32 m (P2V cr3 + 4 * PDX va) in
      if pde AND flags \<noteq> flags then None
      else
        let pte = ld32 m (P2V (PTE_ADDR pde) + 4 * PTX va) in
        if pte AND flags \<noteq> flags then None
        else Some (P2V (PTE_ADDR pte) + (va AND 0xFFF)))"

definition uload :: "u32 \<Rightarrow> u8 K" where
  "uload va =
     kbind (kget (\<lambda>s. map_option (k_mem s) (vtop (k_mem s) (k_cr3 s) PTE_P va))) (\<lambda>r.
     case r of None \<Rightarrow> kpanic ''trap'' | Some b \<Rightarrow> kret b)"

definition ustore :: "u32 \<Rightarrow> u8 \<Rightarrow> unit K" where
  "ustore va b =
     kbind (kget (\<lambda>s. vtop (k_mem s) (k_cr3 s) (PTE_P OR PTE_W) va)) (\<lambda>r.
     case r of None \<Rightarrow> kpanic ''trap'' | Some a \<Rightarrow> kmod (\<lambda>s. s\<lparr>k_mem := (k_mem s)(a := b)\<rparr>))"

primrec uload_bytes :: "u32 \<Rightarrow> nat \<Rightarrow> u8 list K" where
  "uload_bytes va 0 = kret []"
| "uload_bytes va (Suc n) =
     kbind (uload va) (\<lambda>b. kbind (uload_bytes (va + 1) n) (\<lambda>bs. kret (b # bs)))"

fun ustore_bytes :: "u32 \<Rightarrow> u8 list \<Rightarrow> unit K" where
  "ustore_bytes va [] = kret ()"
| "ustore_bytes va (b # bs) = kseq (ustore va b) (ustore_bytes (va + 1) bs)"

definition uload32 :: "u32 \<Rightarrow> u32 K" where
  "uload32 va =
     kbind (uload va) (\<lambda>b0.
     kbind (uload (va + 1)) (\<lambda>b1.
     kbind (uload (va + 2)) (\<lambda>b2.
     kbind (uload (va + 3)) (\<lambda>b3.
     kret (ucast b0 OR push_bit 8 (ucast b1) OR push_bit 16 (ucast b2) OR push_bit 24 (ucast b3))))))"

end
