(* ===== verification/Exec.thy ===== *)
theory Exec
  imports Proc_Life Usermem
begin

text \<open>
  Program loading: \<open>loaduvm\<close> (\<open>vm.c\<close>), the ELF headers (\<open>elf.h\<close>) and \<open>exec\<close>
  (\<open>exec.c\<close>). A jump to the label \<open>bad\<close> is the value \<open>None\<close> of the parts of \<open>exec\<close>.
\<close>

fun loaduvm_loop :: "u32 \<Rightarrow> u32 \<Rightarrow> nat \<Rightarrow> u32 \<Rightarrow> u32 \<Rightarrow> u32 list \<Rightarrow> int K" where
  "loaduvm_loop pgdir addr ip offset sz [] = kret 0"
| "loaduvm_loop pgdir addr ip offset sz (i # is) =
     kbind (walkpgdir pgdir (addr + i) False) (\<lambda>pte.
     if pte = 0 then kpanic ''loaduvm: address should exist''
     else
       kbind (load32 pte) (\<lambda>v.
       let pa = PTE_ADDR v; n = (if sz - i < PGSIZE then sz - i else PGSIZE) in
       kbind (readi ip (offset + i) n) (\<lambda>(r, bs).
       kseq (kmod (\<lambda>s. s\<lparr>k_mem := store_bytes (k_mem s) (P2V pa) bs\<rparr>)) (
       if of_int r \<noteq> n then kret (-1)
       else loaduvm_loop pgdir addr ip offset sz is))))"

definition loaduvm :: "u32 \<Rightarrow> u32 \<Rightarrow> nat \<Rightarrow> u32 \<Rightarrow> u32 \<Rightarrow> int K" where
  "loaduvm pgdir addr ip offset sz =
     (if addr mod PGSIZE \<noteq> 0 then kpanic ''loaduvm: addr must be page aligned''
      else loaduvm_loop pgdir addr ip offset sz (page_steps 0 sz))"

abbreviation (input) ELF_MAGIC :: u32 where "ELF_MAGIC \<equiv> 0x464C457F"
abbreviation (input) ELF_PROG_LOAD :: u32 where "ELF_PROG_LOAD \<equiv> 1"

text \<open>The fields of the two headers that \<open>exec\<close> uses, at their offsets in the file.\<close>

record elfhdr =
  elf_magic :: u32
  elf_entry :: u32
  elf_phoff :: u32
  elf_phnum :: u16

definition get_elfhdr :: "u8 list \<Rightarrow> elfhdr" where
  "get_elfhdr bs = \<lparr>elf_magic = get32 bs 0, elf_entry = get32 bs 24, elf_phoff = get32 bs 28,
     elf_phnum = get16 bs 44\<rparr>"

record proghdr =
  ph_type :: u32
  ph_off :: u32
  ph_vaddr :: u32
  ph_filesz :: u32
  ph_memsz :: u32

definition get_proghdr :: "u8 list \<Rightarrow> proghdr" where
  "get_proghdr bs = \<lparr>ph_type = get32 bs 0, ph_off = get32 bs 4, ph_vaddr = get32 bs 8,
     ph_filesz = get32 bs 16, ph_memsz = get32 bs 20\<rparr>"

text \<open>Load the segments whose headers are at the given offsets; the result is the new
  size.\<close>

fun exec_load :: "u32 \<Rightarrow> nat \<Rightarrow> u32 list \<Rightarrow> u32 \<Rightarrow> u32 option K" where
  "exec_load pgdir ip [] sz = kret (Some sz)"
| "exec_load pgdir ip (off # offs) sz =
     kbind (readi ip off 32) (\<lambda>(r, bs).
     if r \<noteq> 32 then kret None
     else
       let ph = get_proghdr bs in
       if ph_type ph \<noteq> ELF_PROG_LOAD then exec_load pgdir ip offs sz
       else if ph_memsz ph < ph_filesz ph then kret None
       else if ph_vaddr ph + ph_memsz ph < ph_vaddr ph then kret None
       else
         kbind (allocuvm pgdir sz (ph_vaddr ph + ph_memsz ph)) (\<lambda>sz'.
         if sz' = 0 then kret None
         else if ph_vaddr ph mod PGSIZE \<noteq> 0 then kret None
         else
           kbind (loaduvm pgdir (ph_vaddr ph) ip (ph_off ph) (ph_filesz ph)) (\<lambda>r.
           if r < 0 then kret None else exec_load pgdir ip offs sz')))"

text \<open>Push the argument strings; \<open>ustack\<close> collects the pointers from index 3 on.\<close>

fun exec_args :: "u32 \<Rightarrow> u8 list list \<Rightarrow> u32 \<Rightarrow> u32 list \<Rightarrow> (u32 \<times> u32 list) option K" where
  "exec_args pgdir [] sp ustack = kret (Some (sp, ustack))"
| "exec_args pgdir (arg # argv) sp ustack =
     (if length ustack \<ge> MAXARG then kret None
      else
        let sp' = (sp - (of_nat (length arg) + 1)) AND NOT 3 in
        kbind (copyout pgdir sp' (arg @ [0])) (\<lambda>r.
        if r < 0 then kret None else exec_args pgdir argv sp' (ustack @ [sp'])))"

definition le32 :: "u32 \<Rightarrow> u8 list" where
  "le32 w = put32 (replicate 4 0) 0 w"

definition exec_stack :: "u32 \<Rightarrow> u8 list list \<Rightarrow> u32 \<Rightarrow> u32 option K" where
  "exec_stack pgdir argv sz =
     kbind (exec_args pgdir argv sz []) (\<lambda>r.
     case r of
       None \<Rightarrow> kret None
     | Some (sp, args) \<Rightarrow>
         let argc = of_nat (length args);
             ustack = [0xffffffff, argc, sp - (argc + 1) * 4] @ args @ [0];
             sp' = sp - (3 + argc + 1) * 4
         in kbind (copyout pgdir sp' (concat (map le32 ustack))) (\<lambda>r.
            kret (if r < 0 then None else Some sp')))"

text \<open>The file part of \<open>exec\<close>: the inode is locked and a transaction open.\<close>

definition exec_image :: "u32 \<Rightarrow> nat \<Rightarrow> elfhdr \<Rightarrow> u32 option K" where
  "exec_image pgdir ip elf =
     exec_load pgdir ip (map (\<lambda>i. elf_phoff elf + of_nat (32 * i)) [0..<unat (elf_phnum elf)]) 0"

text \<open>The last element of a path, kept as the name of the process.\<close>

definition path_last :: "u8 list \<Rightarrow> u8 list" where
  "path_last path = rev (takeWhile (\<lambda>c. c \<noteq> 47) (rev path))"

definition exec_commit :: "u8 list \<Rightarrow> u32 \<Rightarrow> u32 \<Rightarrow> u32 \<Rightarrow> u32 \<Rightarrow> int K" where
  "exec_commit path pgdir sz entry sp =
     kbind curproc (\<lambda>cur.
     kseq (set_name cur (path_last path)) (
     kbind (get_proc cur) (\<lambda>c.
     kseq (upd_proc cur (\<lambda>q. q\<lparr>p_pgdir := pgdir\<rparr>)) (
     kseq (upd_proc cur (\<lambda>q. q\<lparr>p_sz := sz\<rparr>)) (
     kseq (upd_proc cur (\<lambda>q. q\<lparr>p_tf := (p_tf q)\<lparr>tf_eip := entry\<rparr>\<rparr>)) (
     kseq (upd_proc cur (\<lambda>q. q\<lparr>p_tf := (p_tf q)\<lparr>tf_esp := sp\<rparr>\<rparr>)) (
     kseq (switchuvm (Some cur)) (
     kseq (freevm (p_pgdir c)) (
     kret 0)))))))))"

text \<open>The label \<open>bad\<close>.\<close>

definition exec_bad :: "u32 \<Rightarrow> nat option \<Rightarrow> int K" where
  "exec_bad pgdir ip =
     kseq (kwhen (pgdir \<noteq> 0) (freevm pgdir)) (
     kseq (case ip of None \<Rightarrow> kret () | Some i \<Rightarrow> kseq (iunlockput i) end_op) (
     kret (-1)))"

definition exec :: "u8 list \<Rightarrow> u8 list list \<Rightarrow> int K" where
  "exec path argv =
     kseq begin_op (
     kbind (namei path) (\<lambda>r.
     case r of
       None \<Rightarrow> kseq end_op (kseq (cprintf (''exec: fail'' @ [CHR 0x0A]) []) (kret (-1)))
     | Some ip \<Rightarrow>
         kseq (ilock ip) (
         kbind (readi ip 0 52) (\<lambda>(n, bs).
         let elf = get_elfhdr bs in
         if n \<noteq> 52 then exec_bad 0 (Some ip)
         else if elf_magic elf \<noteq> ELF_MAGIC then exec_bad 0 (Some ip)
         else
           kbind setupkvm (\<lambda>pgdir.
           if pgdir = 0 then exec_bad 0 (Some ip)
           else
             kbind (exec_image pgdir ip elf) (\<lambda>r.
             case r of
               None \<Rightarrow> exec_bad pgdir (Some ip)
             | Some sz \<Rightarrow>
                 kseq (iunlockput ip) (
                 kseq end_op (
                 let sz1 = PGROUNDUP sz in
                 kbind (allocuvm pgdir sz1 (sz1 + 2 * PGSIZE)) (\<lambda>sz2.
                 if sz2 = 0 then exec_bad pgdir None
                 else
                   kseq (clearpteu pgdir (sz2 - 2 * PGSIZE)) (
                   kbind (exec_stack pgdir argv sz2) (\<lambda>r.
                   case r of
                     None \<Rightarrow> exec_bad pgdir None
                   | Some sp \<Rightarrow> exec_commit path pgdir sz2 (elf_entry elf) sp)))))))))))"

end
