(* ===== verification/Sysargs.thy ===== *)
theory Sysargs
  imports Usermem
begin

text \<open>
  The arguments of system calls (\<open>fetchint\<close>, \<open>fetchstr\<close>, \<open>argint\<close>, \<open>argptr\<close> and
  \<open>argstr\<close> of \<open>syscall.c\<close>). \<open>None\<close> is the result -1; a string argument is returned as
  its bytes, which nobody else can change while the process is in the kernel.
\<close>

definition fetchint :: "u32 \<Rightarrow> u32 option K" where
  "fetchint addr =
     kbind curproc (\<lambda>p.
     kbind (get_proc p) (\<lambda>q.
     if addr \<ge> p_sz q \<or> addr + 4 > p_sz q then kret None
     else kbind (uload32 addr) (\<lambda>v. kret (Some v))))"

text \<open>The scan for the terminator in the \<open>n\<close> bytes from \<open>s\<close> to the end of the process.\<close>

primrec fetchstr_loop :: "u32 \<Rightarrow> nat \<Rightarrow> u8 list option K" where
  "fetchstr_loop s 0 = kret None"
| "fetchstr_loop s (Suc n) =
     kbind (uload s) (\<lambda>c.
     if c = 0 then kret (Some [])
     else kbind (fetchstr_loop (s + 1) n) (\<lambda>r. kret (map_option ((#) c) r)))"

definition fetchstr :: "u32 \<Rightarrow> u8 list option K" where
  "fetchstr addr =
     kbind curproc (\<lambda>p.
     kbind (get_proc p) (\<lambda>q.
     if addr \<ge> p_sz q then kret None
     else fetchstr_loop addr (unat (p_sz q) - unat addr)))"

definition argint :: "u32 \<Rightarrow> u32 option K" where
  "argint n =
     kbind curproc (\<lambda>p.
     kbind (get_proc p) (\<lambda>q.
     fetchint (tf_esp (p_tf q) + 4 + 4 * n)))"

definition argptr :: "u32 \<Rightarrow> u32 \<Rightarrow> u32 option K" where
  "argptr n sz =
     kbind curproc (\<lambda>p.
     kbind (argint n) (\<lambda>r.
     case r of
       None \<Rightarrow> kret None
     | Some i \<Rightarrow>
         kbind (get_proc p) (\<lambda>q.
         kret (if sz <s 0 \<or> i \<ge> p_sz q \<or> i + sz > p_sz q then None else Some i))))"

definition argstr :: "u32 \<Rightarrow> u8 list option K" where
  "argstr n =
     kbind (argint n) (\<lambda>r.
     case r of None \<Rightarrow> kret None | Some addr \<Rightarrow> fetchstr addr)"

end
