(* ===== verification/Sysfile.thy ===== *)
theory Sysfile
  imports Exec Sysargs
begin

text \<open>
  The file system calls (\<open>sysfile.c\<close>). A descriptor argument is returned with its
  file, \<open>None\<close> being the result -1. The bytes of a buffer of the process are read
  before \<open>filewrite\<close> is called and stored after \<open>fileread\<close> has returned.
\<close>

section \<open>Descriptors\<close>

definition argfd :: "u32 \<Rightarrow> (nat \<times> nat) option K" where
  "argfd n =
     kbind (argint n) (\<lambda>r.
     case r of
       None \<Rightarrow> kret None
     | Some fd \<Rightarrow>
         if fd <s 0 \<or> of_nat NOFILE \<le>s fd then kret None
         else
           kbind curproc (\<lambda>p.
           kbind (get_proc p) (\<lambda>q.
           kret (map_option (\<lambda>f. (unat fd, f)) (p_ofile q ! unat fd)))))"

definition fdalloc :: "nat \<Rightarrow> nat option K" where
  "fdalloc f =
     kbind curproc (\<lambda>p.
     kbind (kget (\<lambda>s. find_slot (\<lambda>x. x = None) (p_ofile (k_ptable s ! p)))) (\<lambda>r.
     case r of
       None \<Rightarrow> kret None
     | Some fd \<Rightarrow>
         kseq (upd_proc p (\<lambda>q. q\<lparr>p_ofile := (p_ofile q)[fd := Some f]\<rparr>)) (
         kret (Some fd))))"

definition clear_fd :: "nat \<Rightarrow> unit K" where
  "clear_fd fd =
     kbind curproc (\<lambda>p. upd_proc p (\<lambda>q. q\<lparr>p_ofile := (p_ofile q)[fd := None]\<rparr>))"

definition sys_dup :: "u32 K" where
  "sys_dup =
     kbind (argfd 0) (\<lambda>r.
     case r of
       None \<Rightarrow> kret (-1)
     | Some (_, f) \<Rightarrow>
         kbind (fdalloc f) (\<lambda>r.
         case r of
           None \<Rightarrow> kret (-1)
         | Some fd \<Rightarrow> kseq (filedup f) (kret (of_nat fd))))"

text \<open>The three arguments of \<open>sys_read\<close> and \<open>sys_write\<close>: file, address and length.\<close>

definition rw_args :: "(nat \<times> u32 \<times> u32) option K" where
  "rw_args =
     kbind (argfd 0) (\<lambda>r.
     case r of
       None \<Rightarrow> kret None
     | Some (_, f) \<Rightarrow>
         kbind (argint 2) (\<lambda>r.
         case r of
           None \<Rightarrow> kret None
         | Some n \<Rightarrow>
             kbind (argptr 1 n) (\<lambda>r.
             kret (map_option (\<lambda>p. (f, p, n)) r))))"

definition sys_read :: "u32 K" where
  "sys_read =
     kbind rw_args (\<lambda>r.
     case r of
       None \<Rightarrow> kret (-1)
     | Some (f, p, n) \<Rightarrow>
         kbind (fileread f (sint n)) (\<lambda>(r, bs).
         kseq (ustore_bytes p bs) (
         kret (of_int r))))"

definition sys_write :: "u32 K" where
  "sys_write =
     kbind rw_args (\<lambda>r.
     case r of
       None \<Rightarrow> kret (-1)
     | Some (f, p, n) \<Rightarrow>
         kbind (uload_bytes p (unat n)) (\<lambda>bs.
         kbind (filewrite f bs (sint n)) (\<lambda>r.
         kret (of_int r))))"

definition sys_close :: "u32 K" where
  "sys_close =
     kbind (argfd 0) (\<lambda>r.
     case r of
       None \<Rightarrow> kret (-1)
     | Some (fd, f) \<Rightarrow>
         kseq (clear_fd fd) (
         kseq (fileclose f) (
         kret 0)))"

text \<open>The stores of \<open>stati\<close>: the fields of \<open>struct stat\<close> at their offsets.\<close>

definition store_stat :: "u32 \<Rightarrow> stat \<Rightarrow> unit K" where
  "store_stat addr st =
     kseq (ustore_bytes (addr + 4) (le32 (st_dev st))) (
     kseq (ustore_bytes (addr + 8) (le32 (st_ino st))) (
     kseq (ustore_bytes addr (put16 [0, 0] 0 (st_type st))) (
     kseq (ustore_bytes (addr + 12) (put16 [0, 0] 0 (st_nlink st))) (
     ustore_bytes (addr + 16) (le32 (st_size st))))))"

definition sys_fstat :: "u32 K" where
  "sys_fstat =
     kbind (argfd 0) (\<lambda>r.
     case r of
       None \<Rightarrow> kret (-1)
     | Some (_, f) \<Rightarrow>
         kbind (argptr 1 20) (\<lambda>r.
         case r of
           None \<Rightarrow> kret (-1)
         | Some addr \<Rightarrow>
             kbind (filestat f) (\<lambda>r.
             case r of
               None \<Rightarrow> kret (-1)
             | Some st \<Rightarrow> kseq (store_stat addr st) (kret 0))))"

section \<open>Links and directories\<close>

definition add_nlink :: "nat \<Rightarrow> u16 \<Rightarrow> unit K" where
  "add_nlink ip d =
     kseq (upd_inode ip (\<lambda>q. q\<lparr>ip_nlink := ip_nlink q + d\<rparr>)) (iupdate ip)"

text \<open>The label \<open>bad\<close> of \<open>sys_link\<close>.\<close>

definition sys_link_bad :: "nat \<Rightarrow> u32 K" where
  "sys_link_bad ip =
     kseq (ilock ip) (
     kseq (add_nlink ip (-1)) (
     kseq (iunlockput ip) (
     kseq end_op (
     kret (-1)))))"

definition link_inode :: "nat \<Rightarrow> u8 list \<Rightarrow> u32 K" where
  "link_inode ip new =
     kbind (nameiparent new) (\<lambda>r.
     case r of
       None \<Rightarrow> sys_link_bad ip
     | Some (dp, name) \<Rightarrow>
         kseq (ilock dp) (
         kbind (get_inode dp) (\<lambda>d.
         kbind (get_inode ip) (\<lambda>i.
         kbind (if ip_dev d \<noteq> ip_dev i then kret (-1) else dirlink dp name (ip_inum i)) (\<lambda>r.
         if r < 0 then kseq (iunlockput dp) (sys_link_bad ip)
         else
           kseq (iunlockput dp) (
           kseq (iput ip) (
           kseq end_op (
           kret 0))))))))"

definition sys_link :: "u32 K" where
  "sys_link =
     kbind (argstr 0) (\<lambda>r.
     case r of
       None \<Rightarrow> kret (-1)
     | Some old \<Rightarrow>
         kbind (argstr 1) (\<lambda>r.
         case r of
           None \<Rightarrow> kret (-1)
         | Some new \<Rightarrow>
             kseq begin_op (
             kbind (namei old) (\<lambda>r.
             case r of
               None \<Rightarrow> kseq end_op (kret (-1))
             | Some ip \<Rightarrow>
                 kseq (ilock ip) (
                 kbind (get_inode ip) (\<lambda>q.
                 if ip_type q = T_DIR then kseq (iunlockput ip) (kseq end_op (kret (-1)))
                 else
                   kseq (add_nlink ip 1) (
                   kseq (iunlock ip) (
                   link_inode ip new))))))))"

fun isdirempty_loop :: "nat \<Rightarrow> u32 list \<Rightarrow> bool K" where
  "isdirempty_loop dp [] = kret True"
| "isdirempty_loop dp (off # offs) =
     kbind (readi dp off 16) (\<lambda>(n, bs).
     if n \<noteq> 16 then kpanic ''isdirempty: readi''
     else if de_inum (get_dirent bs) \<noteq> 0 then kret False
     else isdirempty_loop dp offs)"

text \<open>The first two entries are \<open>.\<close> and \<open>..\<close>.\<close>

definition isdirempty :: "nat \<Rightarrow> bool K" where
  "isdirempty dp =
     kbind (get_inode dp) (\<lambda>q. isdirempty_loop dp (drop 2 (dir_offsets (ip_size q))))"

definition unlink_bad :: "nat \<Rightarrow> u32 K" where
  "unlink_bad dp = kseq (iunlockput dp) (kseq end_op (kret (-1)))"

text \<open>The second half of \<open>sys_unlink\<close>: both inodes are locked and the entry may go.\<close>

definition unlink_entry :: "nat \<Rightarrow> nat \<Rightarrow> u32 \<Rightarrow> u32 K" where
  "unlink_entry dp ip off =
     kbind (writei dp (replicate 16 0) off 16) (\<lambda>n.
     if n \<noteq> 16 then kpanic ''unlink: writei''
     else
       kbind (get_inode ip) (\<lambda>q.
       kseq (kwhen (ip_type q = T_DIR) (add_nlink dp (-1))) (
       kseq (iunlockput dp) (
       kseq (add_nlink ip (-1)) (
       kseq (iunlockput ip) (
       kseq end_op (
       kret 0)))))))"

definition sys_unlink :: "u32 K" where
  "sys_unlink =
     kbind (argstr 0) (\<lambda>r.
     case r of
       None \<Rightarrow> kret (-1)
     | Some path \<Rightarrow>
         kseq begin_op (
         kbind (nameiparent path) (\<lambda>r.
         case r of
           None \<Rightarrow> kseq end_op (kret (-1))
         | Some (dp, name) \<Rightarrow>
             kseq (ilock dp) (
             if namecmp name (bytes ''.'') = 0 \<or> namecmp name (bytes ''..'') = 0 then unlink_bad dp
             else
               kbind (dirlookup dp name) (\<lambda>r.
               case r of
                 None \<Rightarrow> unlink_bad dp
               | Some (ip, off) \<Rightarrow>
                   kseq (ilock ip) (
                   kbind (get_inode ip) (\<lambda>q.
                   if ip_nlink q <s 1 then kpanic ''unlink: nlink < 1''
                   else
                     kbind (if ip_type q = T_DIR then isdirempty ip else kret True) (\<lambda>empty.
                     if \<not> empty then kseq (iunlockput ip) (unlink_bad dp)
                     else unlink_entry dp ip off))))))))"

text \<open>The part of \<open>create\<close> for a name that is not there: \<open>ialloc\<close> panics itself when
  there is no free inode.\<close>

definition create_new :: "nat \<Rightarrow> u8 list \<Rightarrow> u16 \<Rightarrow> u16 \<Rightarrow> u16 \<Rightarrow> nat option K" where
  "create_new dp name typ major minor =
     kbind (get_inode dp) (\<lambda>d.
     kbind (ialloc (ip_dev d) typ) (\<lambda>ip.
     kseq (ilock ip) (
     kseq (upd_inode ip (\<lambda>q. q\<lparr>ip_major := major, ip_minor := minor, ip_nlink := 1\<rparr>)) (
     kseq (iupdate ip) (
     kbind (get_inode ip) (\<lambda>i.
     kseq (kwhen (typ = T_DIR) (
       kseq (add_nlink dp 1) (
       kbind (dirlink ip (bytes ''.'') (ip_inum i)) (\<lambda>r.
       if r < 0 then kpanic ''create dots''
       else
         kbind (dirlink ip (bytes ''..'') (ip_inum d)) (\<lambda>r.
         kwhen (r < 0) (kpanic ''create dots'')))))) (
     kbind (dirlink dp name (ip_inum i)) (\<lambda>r.
     if r < 0 then kpanic ''create: dirlink''
     else kseq (iunlockput dp) (kret (Some ip))))))))))"

definition create :: "u8 list \<Rightarrow> u16 \<Rightarrow> u16 \<Rightarrow> u16 \<Rightarrow> nat option K" where
  "create path typ major minor =
     kbind (nameiparent path) (\<lambda>r.
     case r of
       None \<Rightarrow> kret None
     | Some (dp, name) \<Rightarrow>
         kseq (ilock dp) (
         kbind (dirlookup dp name) (\<lambda>r.
         case r of
           Some (ip, _) \<Rightarrow>
             kseq (iunlockput dp) (
             kseq (ilock ip) (
             kbind (get_inode ip) (\<lambda>q.
             if typ = T_FILE \<and> ip_type q = T_FILE then kret (Some ip)
             else kseq (iunlockput ip) (kret None))))
         | None \<Rightarrow> create_new dp name typ major minor)))"

section \<open>Opening files\<close>

abbreviation (input) O_RDONLY :: u32 where "O_RDONLY \<equiv> 0x000"
abbreviation (input) O_WRONLY :: u32 where "O_WRONLY \<equiv> 0x001"
abbreviation (input) O_RDWR :: u32 where "O_RDWR \<equiv> 0x002"
abbreviation (input) O_CREATE :: u32 where "O_CREATE \<equiv> 0x200"

text \<open>The inode \<open>sys_open\<close> opens, locked; \<open>None\<close> after closing the transaction.\<close>

definition open_inode :: "u8 list \<Rightarrow> u32 \<Rightarrow> nat option K" where
  "open_inode path omode =
     (if omode AND O_CREATE \<noteq> 0 then
        kbind (create path T_FILE 0 0) (\<lambda>r.
        case r of None \<Rightarrow> kseq end_op (kret None) | Some ip \<Rightarrow> kret (Some ip))
      else
        kbind (namei path) (\<lambda>r.
        case r of
          None \<Rightarrow> kseq end_op (kret None)
        | Some ip \<Rightarrow>
            kseq (ilock ip) (
            kbind (get_inode ip) (\<lambda>q.
            if ip_type q = T_DIR \<and> omode \<noteq> O_RDONLY then
              kseq (iunlockput ip) (kseq end_op (kret None))
            else kret (Some ip)))))"

definition open_file :: "nat \<Rightarrow> u32 \<Rightarrow> u32 K" where
  "open_file ip omode =
     kbind filealloc (\<lambda>f.
     case f of
       None \<Rightarrow> kseq (iunlockput ip) (kseq end_op (kret (-1)))
     | Some f \<Rightarrow>
         kbind (fdalloc f) (\<lambda>r.
         case r of
           None \<Rightarrow> kseq (fileclose f) (kseq (iunlockput ip) (kseq end_op (kret (-1))))
         | Some fd \<Rightarrow>
             kseq (iunlock ip) (
             kseq end_op (
             kseq (upd_file f (\<lambda>q. q\<lparr>f_type := FD_INODE, f_ip := Some ip, f_off := 0,
               f_readable := (omode AND O_WRONLY = 0),
               f_writable := (omode AND O_WRONLY \<noteq> 0 \<or> omode AND O_RDWR \<noteq> 0)\<rparr>)) (
             kret (of_nat fd))))))"

definition sys_open :: "u32 K" where
  "sys_open =
     kbind (argstr 0) (\<lambda>r.
     case r of
       None \<Rightarrow> kret (-1)
     | Some path \<Rightarrow>
         kbind (argint 1) (\<lambda>r.
         case r of
           None \<Rightarrow> kret (-1)
         | Some omode \<Rightarrow>
             kseq begin_op (
             kbind (open_inode path omode) (\<lambda>r.
             case r of None \<Rightarrow> kret (-1) | Some ip \<Rightarrow> open_file ip omode))))"

text \<open>The common end of \<open>sys_mkdir\<close> and \<open>sys_mknod\<close>.\<close>

definition close_created :: "nat option \<Rightarrow> u32 K" where
  "close_created r =
     (case r of
        None \<Rightarrow> kseq end_op (kret (-1))
      | Some ip \<Rightarrow> kseq (iunlockput ip) (kseq end_op (kret 0)))"

definition sys_mkdir :: "u32 K" where
  "sys_mkdir =
     kseq begin_op (
     kbind (argstr 0) (\<lambda>r.
     case r of
       None \<Rightarrow> close_created None
     | Some path \<Rightarrow> kbind (create path T_DIR 0 0) close_created))"

definition sys_mknod :: "u32 K" where
  "sys_mknod =
     kseq begin_op (
     kbind (argstr 0) (\<lambda>r.
     case r of
       None \<Rightarrow> close_created None
     | Some path \<Rightarrow>
         kbind (argint 1) (\<lambda>r.
         case r of
           None \<Rightarrow> close_created None
         | Some major \<Rightarrow>
             kbind (argint 2) (\<lambda>r.
             case r of
               None \<Rightarrow> close_created None
             | Some minor \<Rightarrow>
                 kbind (create path T_DEV (ucast major) (ucast minor)) close_created))))"

definition sys_chdir :: "u32 K" where
  "sys_chdir =
     kbind curproc (\<lambda>p.
     kseq begin_op (
     kbind (argstr 0) (\<lambda>r.
     kbind (case r of None \<Rightarrow> kret None | Some path \<Rightarrow> namei path) (\<lambda>r.
     case r of
       None \<Rightarrow> kseq end_op (kret (-1))
     | Some ip \<Rightarrow>
         kseq (ilock ip) (
         kbind (get_inode ip) (\<lambda>i.
         if ip_type i \<noteq> T_DIR then kseq (iunlockput ip) (kseq end_op (kret (-1)))
         else
           kseq (iunlock ip) (
           kbind (get_proc p) (\<lambda>q.
           kseq (case p_cwd q of None \<Rightarrow> kpanic ''trap'' | Some d \<Rightarrow> iput d) (
           kseq end_op (
           kseq (upd_proc p (\<lambda>q. q\<lparr>p_cwd := Some ip\<rparr>)) (
           kret 0)))))))))))"

section \<open>Exec and pipe\<close>

text \<open>The argument vector at \<open>uargv\<close>, read until the null pointer with at most
  \<open>n\<close> entries.\<close>

primrec fetch_argv :: "u32 \<Rightarrow> nat \<Rightarrow> u8 list list option K" where
  "fetch_argv uargv 0 = kret None"
| "fetch_argv uargv (Suc n) =
     kbind (fetchint uargv) (\<lambda>r.
     case r of
       None \<Rightarrow> kret None
     | Some uarg \<Rightarrow>
         if uarg = 0 then kret (Some [])
         else
           kbind (fetchstr uarg) (\<lambda>r.
           case r of
             None \<Rightarrow> kret None
           | Some arg \<Rightarrow>
               kbind (fetch_argv (uargv + 4) n) (\<lambda>r. kret (map_option ((#) arg) r))))"

definition sys_exec :: "u32 K" where
  "sys_exec =
     kbind (argstr 0) (\<lambda>r.
     case r of
       None \<Rightarrow> kret (-1)
     | Some path \<Rightarrow>
         kbind (argint 1) (\<lambda>r.
         case r of
           None \<Rightarrow> kret (-1)
         | Some uargv \<Rightarrow>
             kbind (fetch_argv uargv MAXARG) (\<lambda>r.
             case r of
               None \<Rightarrow> kret (-1)
             | Some argv \<Rightarrow> kbind (exec path argv) (\<lambda>v. kret (of_int v)))))"

definition sys_pipe :: "u32 K" where
  "sys_pipe =
     kbind (argptr 0 8) (\<lambda>r.
     case r of
       None \<Rightarrow> kret (-1)
     | Some fd \<Rightarrow>
         kbind pipealloc (\<lambda>r.
         case r of
           None \<Rightarrow> kret (-1)
         | Some (rfile, wfile) \<Rightarrow>
             kbind (fdalloc rfile) (\<lambda>r0.
             case r0 of
               None \<Rightarrow> kseq (fileclose rfile) (kseq (fileclose wfile) (kret (-1)))
             | Some fd0 \<Rightarrow>
                 kbind (fdalloc wfile) (\<lambda>r1.
                 case r1 of
                   None \<Rightarrow>
                     kseq (clear_fd fd0) (
                     kseq (fileclose rfile) (
                     kseq (fileclose wfile) (
                     kret (-1))))
                 | Some fd1 \<Rightarrow>
                     kseq (ustore_bytes fd (le32 (of_nat fd0))) (
                     kseq (ustore_bytes (fd + 4) (le32 (of_nat fd1))) (
                     kret 0))))))"

section \<open>Duplicating a descriptor\<close>

lemma unat_nonneg:
  fixes v :: u32
  assumes "0 \<le> sint v"
  shows "unat v = nat (sint v)"
proof -
  have "\<not> bit (uint v) 31" using assms by (simp add: sint_uint signed_take_bit_nonnegative_iff)
  then have "sint v = take_bit 31 (uint v)" by (simp add: sint_uint signed_take_bit_eq_if_positive)
  moreover have "take_bit (Suc 31) (uint v) = uint v"
    using uint_bounded [of v] by (simp add: take_bit_int_eq_self_iff)
  then have "take_bit 31 (uint v) = uint v"
    using \<open>\<not> bit (uint v) 31\<close> take_bit_Suc_from_most [of 31 "uint v"] by simp
  ultimately show ?thesis by simp
qed

lemma argfd_run:
  assumes "k_curproc s = Some p" "argint n s = Ok (Some v) s"
  shows "argfd n s = Ok (if sint v < 0 \<or> 16 \<le> sint v then None
     else map_option (\<lambda>f. (nat (sint v), f)) (p_ofile (k_ptable s ! p) ! nat (sint v))) s"
proof -
  have "unat v = nat (sint v)" if "0 \<le> sint v"
    using that unat_nonneg by blast
  then show ?thesis using assms
    by (simp add: argfd_def krun word_sless_alt word_sle_eq)
qed

lemma fdalloc_run:
  assumes "k_curproc s = Some p" "p < length (k_ptable s)"
  shows "fdalloc f s = (case find_slot (\<lambda>x. x = None) (p_ofile (k_ptable s ! p)) of
      None \<Rightarrow> Ok None s
    | Some fd \<Rightarrow> Ok (Some fd) (s\<lparr>k_ptable := (k_ptable s)[p := (k_ptable s ! p)
        \<lparr>p_ofile := (p_ofile (k_ptable s ! p))[fd := Some f]\<rparr>]\<rparr>))"
  using assms by (simp add: fdalloc_def krun split: option.split)

lemma filedup_run:
  assumes "FtableLock \<notin> set (k_held s)" "1 \<le> f_ref (k_ftable s ! f)"
  shows "filedup f s = Ok f (s\<lparr>k_ftable := (k_ftable s)[f := (k_ftable s ! f)\<lparr>f_ref := f_ref (k_ftable s ! f) + 1\<rparr>]\<rparr>)"
  using assms by (simp add: filedup_def get_file_def upd_file_def krun)

text \<open>C17 (sysfile.c:22-69, file.c:39-48): \<open>dup(v)\<close>, called with no lock on the file table held by a
  process whose descriptors refer to open files. If \<open>v\<close> is negative, 16 or more, or not an
  open descriptor, or if all 16 descriptors are in use, the result is -1 and nothing changes.
  Otherwise it is the lowest free descriptor, which now refers to the same file, and the
  reference count of that file is one more; nothing else changes.\<close>

theorem sys_dup_cases:
  assumes "k_curproc s = Some p" "p < length (k_ptable s)" "argint 0 s = Ok (Some v) s"
    and "FtableLock \<notin> set (k_held s)" "ofile = p_ofile (k_ptable s ! p)" "length ofile = NOFILE"
    and "\<forall>f. Some f \<in> set ofile \<longrightarrow> 1 \<le> f_ref (k_ftable s ! f)"
  shows "if sint v < 0 \<or> 16 \<le> sint v \<or> ofile ! nat (sint v) = None \<or> None \<notin> set ofile then sys_dup s = Ok (-1) s
    else \<exists>fd f. fd < 16 \<and> ofile ! fd = None \<and> (\<forall>j<fd. ofile ! j \<noteq> None) \<and> ofile ! nat (sint v) = Some f \<and>
      sys_dup s = Ok (of_nat fd) (s\<lparr>
        k_ptable := (k_ptable s)[p := (k_ptable s ! p)\<lparr>p_ofile := ofile[fd := Some f]\<rparr>],
        k_ftable := (k_ftable s)[f := (k_ftable s ! f)\<lparr>f_ref := f_ref (k_ftable s ! f) + 1\<rparr>]\<rparr>)"
proof (cases "sint v < 0 \<or> 16 \<le> sint v \<or> ofile ! nat (sint v) = None")
  case True
  then have "argfd 0 s = Ok None s" using argfd_run [OF assms(1,3)] assms(5) by auto
  then show ?thesis using True by (auto simp: sys_dup_def krun)
next
  case False
  then obtain f where f: "ofile ! nat (sint v) = Some f" by auto
  have arg: "argfd 0 s = Ok (Some (nat (sint v), f)) s" using argfd_run [OF assms(1,3)] assms(5) False f by simp
  have "nat (sint v) < length ofile" using False assms(6) by auto
  then have ref: "1 \<le> f_ref (k_ftable s ! f)" using assms(7) f nth_mem by metis
  note fd = fdalloc_run [OF assms(1,2), of f, folded assms(5)]
  show ?thesis
  proof (cases "find_slot (\<lambda>x. x = None) ofile")
    case None
    then have "None \<notin> set ofile" by (auto simp: find_from_None)
    then show ?thesis using None fd arg by (simp add: sys_dup_def krun)
  next
    case (Some k)
    note k = find_slot_SomeD [OF Some]
    then have "None \<in> set ofile" by (metis nth_mem)
    moreover have "sys_dup s = Ok (of_nat k) (s\<lparr>
        k_ptable := (k_ptable s)[p := (k_ptable s ! p)\<lparr>p_ofile := ofile[k := Some f]\<rparr>],
        k_ftable := (k_ftable s)[f := (k_ftable s ! f)\<lparr>f_ref := f_ref (k_ftable s ! f) + 1\<rparr>]\<rparr>)"
      using Some fd arg ref assms(4) by (simp add: sys_dup_def krun filedup_run)
    ultimately show ?thesis using False f k assms(6) by auto
  qed
qed


text \<open>A process with one open file, file 3, as descriptor 0, and \<open>v\<close> as first argument on its
  stack: one page of page table maps the stack at address 4 to 0x81010004.\<close>

definition dup_state :: "u8 \<Rightarrow> kernel" where
  "dup_state v = one_proc\<lparr>
     k_mem := (\<lambda>_. 1)(0x81010004 := v, 0x81010005 := 0, 0x81010006 := 0, 0x81010007 := 0),
     k_ptable := (k_ptable one_proc)[0 := (k_ptable one_proc ! 0)\<lparr>p_ofile := Some 3 # replicate 15 None\<rparr>],
     k_ftable := (k_ftable one_proc)[3 := (k_ftable one_proc ! 3)\<lparr>f_ref := 1\<rparr>]\<rparr>"

lemma dup_state_argint: "argint 0 (dup_state v) = Ok (Some (ucast v)) (dup_state v)"
  by (simp add: argint_def fetchint_def uload32_def uload_def vtop_def ld32_def PDX_def PTX_def PTE_ADDR_def
      P2V_def dup_state_def one_proc_def kernel0_def proc0_def trapframe0_def krun)

lemma dup_state_simps:
  "k_curproc (dup_state v) = Some 0" "k_held (dup_state v) = []" "length (k_ptable (dup_state v)) = 64"
  "p_ofile (k_ptable (dup_state v) ! 0) = Some 3 # replicate 15 None"
  "length (k_ftable (dup_state v)) = NFILE" "f_ref (k_ftable (dup_state v) ! 3) = 1"
  by (simp_all add: dup_state_def one_proc_def kernel0_def)

theorem sys_dup_cases_witness:
  "(\<exists>t. sys_dup (dup_state 0) = Ok 1 t \<and> f_ref (k_ftable t ! 3) = 2 \<and>
        p_ofile (k_ptable t ! 0) = [Some 3, Some 3] @ replicate 14 None) \<and>
   sys_dup (dup_state 16) = Ok (-1) (dup_state 16)"
proof
  let ?o = "Some 3 # replicate 15 None :: nat option list"
  obtain fd where fd: "fd < 16" "?o ! fd = None" "\<forall>j<fd. ?o ! j \<noteq> None"
    and t: "sys_dup (dup_state 0) = Ok (of_nat fd) ((dup_state 0)\<lparr>
        k_ptable := (k_ptable (dup_state 0))[0 := (k_ptable (dup_state 0) ! 0)\<lparr>p_ofile := ?o[fd := Some 3]\<rparr>],
        k_ftable := (k_ftable (dup_state 0))[3 := (k_ftable (dup_state 0) ! 3)\<lparr>f_ref := 2\<rparr>]\<rparr>)"
    using sys_dup_cases [OF dup_state_simps(1) _ dup_state_argint [of 0], of ?o]
    by (auto simp: dup_state_simps)
  have "fd = 1"
  proof (cases fd)
    case (Suc k)
    then show ?thesis using fd(3) [rule_format, of 1] by (cases k) auto
  qed (use fd(2) in simp)
  then show "\<exists>t. sys_dup (dup_state 0) = Ok 1 t \<and> f_ref (k_ftable t ! 3) = 2 \<and>
        p_ofile (k_ptable t ! 0) = [Some 3, Some 3] @ replicate 14 None"
    using t by (simp add: dup_state_simps numeral_eq_Suc)
  show "sys_dup (dup_state 16) = Ok (-1) (dup_state 16)"
    using sys_dup_cases [OF dup_state_simps(1) _ dup_state_argint [of 16], of ?o]
    by (simp add: dup_state_simps)
qed

end
