(* ===== verification/Sysproc.thy ===== *)
theory Sysproc
  imports Proc_Life Sysargs
begin

text \<open>
  The process system calls (\<open>sysproc.c\<close>), among them the ones this kernel adds:
  \<open>sys_add\<close>, \<open>sys_toggle\<close>, \<open>sys_ps\<close>, \<open>sys_setpriority\<close> and \<open>sys_getpriority\<close>. The
  result of a system call is the word it leaves in \<open>eax\<close>.
\<close>

definition sys_add :: "u32 K" where
  "sys_add =
     kbind (argint 0) (\<lambda>r.
     case r of
       None \<Rightarrow> kret (-1)
     | Some a \<Rightarrow>
         kbind (argint 1) (\<lambda>r.
         case r of None \<Rightarrow> kret (-1) | Some b \<Rightarrow> kret (a + b)))"

definition sys_setpriority :: "u32 K" where
  "sys_setpriority =
     kbind (argint 0) (\<lambda>r.
     case r of
       None \<Rightarrow> kret (-1)
     | Some a \<Rightarrow>
         kbind (argint 1) (\<lambda>r.
         case r of
           None \<Rightarrow> kret (-1)
         | Some b \<Rightarrow> kbind (set_priority a (sint b)) (\<lambda>v. kret (of_int v))))"

definition sys_getpriority :: "u32 K" where
  "sys_getpriority =
     kbind (argint 0) (\<lambda>r.
     case r of
       None \<Rightarrow> kret (-1)
     | Some a \<Rightarrow> kbind (get_priority a) (\<lambda>v. kret (of_int v)))"

definition sys_toggle :: "u32 K" where
  "sys_toggle = kseq (kmod (\<lambda>s. s\<lparr>k_v_toggle := 1 - k_v_toggle s\<rparr>)) (kret 0)"

definition sys_ps :: "u32 K" where
  "sys_ps = kbind ps (\<lambda>v. kret (of_int v))"

definition sys_fork :: "u32 K" where
  "sys_fork = fork"

definition sys_exit :: "u32 K" where
  "sys_exit = kseq exit (kret 0)"

definition sys_wait :: "u32 K" where
  "sys_wait = wait"

definition sys_kill :: "u32 K" where
  "sys_kill =
     kbind (argint 0) (\<lambda>r.
     case r of
       None \<Rightarrow> kret (-1)
     | Some pid \<Rightarrow> kbind (kill pid) (\<lambda>v. kret (of_int v)))"

definition sys_getpid :: "u32 K" where
  "sys_getpid = kbind curproc (\<lambda>p. kbind (get_proc p) (\<lambda>q. kret (p_pid q)))"

definition sys_sbrk :: "u32 K" where
  "sys_sbrk =
     kbind (argint 0) (\<lambda>r.
     case r of
       None \<Rightarrow> kret (-1)
     | Some n \<Rightarrow>
         kbind curproc (\<lambda>p.
         kbind (get_proc p) (\<lambda>q.
         kbind (growproc n) (\<lambda>v.
         kret (if v < 0 then -1 else p_sz q)))))"

text \<open>One test of the loop of \<open>sys_sleep\<close>; \<open>ticks - ticks0 < n\<close> compares an unsigned
  with a signed number, so it is an unsigned comparison.\<close>

definition sys_sleep_loop :: "u32 \<Rightarrow> u32 \<Rightarrow> u32 K" where
  "sys_sleep_loop ticks0 n =
     kbind (kget k_ticks) (\<lambda>t.
     if t - ticks0 < n then
       kbind curproc (\<lambda>p.
       kbind (get_proc p) (\<lambda>q.
       if p_killed q then kseq (release TicksLock) (kret (-1))
       else kseq (sleep ChanTicks TicksLock) (kret 0)))
     else kseq (release TicksLock) (kret 0))"

definition sys_sleep :: "u32 K" where
  "sys_sleep =
     kbind (argint 0) (\<lambda>r.
     case r of
       None \<Rightarrow> kret (-1)
     | Some n \<Rightarrow>
         kseq (acquire TicksLock) (
         kbind (kget k_ticks) (\<lambda>ticks0.
         sys_sleep_loop ticks0 n)))"

definition sys_sleep_resume :: "nat \<Rightarrow> u32 \<Rightarrow> u32 \<Rightarrow> u32 K" where
  "sys_sleep_resume p ticks0 n = kseq (sleep_resume p TicksLock) (sys_sleep_loop ticks0 n)"

definition sys_uptime :: "u32 K" where
  "sys_uptime =
     kseq (acquire TicksLock) (
     kbind (kget k_ticks) (\<lambda>xticks.
     kseq (release TicksLock) (kret xticks)))"

end
