(* ===== verification/Syscall.thy ===== *)
theory Syscall
  imports Sysfile Sysproc
begin

text \<open>
  System call dispatch (\<open>syscall.c\<close>): the table of system calls, the call counters
  this kernel adds and the trace switched by \<open>toggle\<close>.
\<close>

definition syscalls :: "(nat \<times> u32 K) list" where
  "syscalls =
     [(1, sys_fork), (2, sys_exit), (3, sys_wait), (4, sys_pipe), (5, sys_read), (6, sys_kill),
      (7, sys_exec), (8, sys_fstat), (9, sys_chdir), (10, sys_dup), (11, sys_getpid),
      (12, sys_sbrk), (13, sys_sleep), (14, sys_uptime), (15, sys_open), (16, sys_write),
      (17, sys_mknod), (18, sys_unlink), (19, sys_link), (20, sys_mkdir), (21, sys_close),
      (22, sys_toggle), (23, sys_add), (24, sys_ps), (25, sys_setpriority), (26, sys_getpriority)]"

definition syscall_name :: "string list" where
  "syscall_name = [''sys_fork'', ''sys_exit'', ''sys_wait'', ''sys_pipe'', ''sys_read'', ''sys_kill'',
     ''sys_exec'', ''sys_fstat'', ''sys_chdir'', ''sys_dup'', ''sys_getpid'', ''sys_sbrk'',
     '' sys_sleep'', ''sys_uptime'', ''sys_open'', '' sys_write'', '' sys_mknod'', ''sys_unlink'',
     ''sys_link'', ''sys_mkdir'', ''sys_close'', ''sys_toggle'', ''sys_add'', ''sys_ps'',
     ''sys_setpriority'', ''sys_getpriority'']"

text \<open>Count a call and print the count when the trace is on.\<close>

definition count_call :: "nat \<Rightarrow> unit K" where
  "count_call num =
     kseq (kmod (\<lambda>s. s\<lparr>k_syscount := (k_syscount s)[num - 1 := k_syscount s ! (num - 1) + 1]\<rparr>)) (
     kbind (kget (\<lambda>s. (k_v_toggle s, k_syscount s ! (num - 1)))) (\<lambda>(toggle, n).
     kwhen (toggle = 1)
       (cprintf (''%s %d'' @ [CHR 0x0A])
          [ArgStr (Some (bytes (syscall_name ! (num - 1)))), ArgInt n])))"

definition syscall :: "unit K" where
  "syscall =
     kbind curproc (\<lambda>p.
     kbind (get_proc p) (\<lambda>q.
     let num = tf_eax (p_tf q) in
     case (if 0 <s num then map_of syscalls (unat num) else None) of
       Some call \<Rightarrow>
         kseq (count_call (unat num)) (
         kbind call (\<lambda>r.
         upd_proc p (\<lambda>q. q\<lparr>p_tf := (p_tf q)\<lparr>tf_eax := r\<rparr>\<rparr>)))
     | None \<Rightarrow>
         kseq (cprintf (''%d %s: unknown sys call %d'' @ [CHR 0x0A])
           [ArgInt (p_pid q), ArgStr (Some (cstring (p_name q))), ArgInt num]) (
         upd_proc p (\<lambda>q. q\<lparr>p_tf := (p_tf q)\<lparr>tf_eax := -1\<rparr>\<rparr>))))"

end
