(* ===== verification/Trap.thy ===== *)
theory Trap
  imports Syscall
begin

text \<open>
  Traps (\<open>trap.c\<close>): system calls, the timer, the devices and the faults of user
  programs. What the devices deliver is an argument: the scan codes the keyboard has
  ready, the bytes the serial port has ready, the fault address in \<open>cr2\<close>, and the
  status and the data the disk controller returns. Acknowledging the
  interrupt controller (\<open>lapiceoi\<close>) does not change the state of the model.
\<close>

record trap_input =
  ti_scancodes :: "u32 list"
  ti_serial :: "u8 list"
  ti_cr2 :: u32
  ti_idestatus :: "u8 list"
  ti_idedata :: "u8 list"

abbreviation (input) T_SYSCALL :: u32 where "T_SYSCALL \<equiv> 64"
abbreviation (input) T_IRQ0 :: u32 where "T_IRQ0 \<equiv> 32"
abbreviation (input) IRQ_TIMER :: u32 where "IRQ_TIMER \<equiv> 0"
abbreviation (input) IRQ_KBD :: u32 where "IRQ_KBD \<equiv> 1"
abbreviation (input) IRQ_COM1 :: u32 where "IRQ_COM1 \<equiv> 4"
abbreviation (input) IRQ_IDE :: u32 where "IRQ_IDE \<equiv> 14"
abbreviation (input) IRQ_SPURIOUS :: u32 where "IRQ_SPURIOUS \<equiv> 31"

definition exit_if_killed :: "nat \<Rightarrow> unit K" where
  "exit_if_killed p = kbind (get_proc p) (\<lambda>q. kwhen (p_killed q) exit)"

definition trap_syscall :: "trapframe \<Rightarrow> unit K" where
  "trap_syscall tf =
     kbind curproc (\<lambda>p.
     kseq (exit_if_killed p) (
     kseq (upd_proc p (\<lambda>q. q\<lparr>p_tf := tf\<rparr>)) (
     kseq syscall (
     exit_if_killed p))))"

definition timer_tick :: "unit K" where
  "timer_tick =
     kbind (kget k_cpu) (\<lambda>c.
     kwhen (c = 0) (
       kseq (acquire TicksLock) (
       kseq (kmod (\<lambda>s. s\<lparr>k_ticks := k_ticks s + 1\<rparr>)) (
       kseq (wakeup ChanTicks) (
       release TicksLock)))))"

text \<open>The \<open>default\<close> case: a fault in the kernel is fatal, one in a process kills it.\<close>

definition trap_fault :: "trapframe \<Rightarrow> u32 \<Rightarrow> unit K" where
  "trap_fault tf cr2 =
     kbind (kget k_cpu) (\<lambda>c.
     kbind myproc (\<lambda>mp.
     case (if tf_cs tf AND 3 = 0 then None else mp) of
       None \<Rightarrow>
         kseq (cprintf (''unexpected trap %d from cpu %d eip %x (cr2=0x%x)'' @ [CHR 0x0A])
           [ArgInt (tf_trapno tf), ArgInt (of_nat c), ArgInt (tf_eip tf), ArgInt cr2]) (
         kpanic ''trap'')
     | Some p \<Rightarrow>
         kbind (get_proc p) (\<lambda>q.
         kseq (cprintf (''pid %d %s: trap %d err %d on cpu %d eip 0x%x addr 0x%x--kill proc'' @
             [CHR 0x0A])
           [ArgInt (p_pid q), ArgStr (Some (cstring (p_name q))), ArgInt (tf_trapno tf),
            ArgInt (tf_err tf), ArgInt (of_nat c), ArgInt (tf_eip tf), ArgInt cr2]) (
         upd_proc p (\<lambda>q. q\<lparr>p_killed := True\<rparr>)))))"

definition trap_device :: "trapframe \<Rightarrow> trap_input \<Rightarrow> unit K" where
  "trap_device tf inp =
     (let n = tf_trapno tf in
      if n = T_IRQ0 + IRQ_TIMER then timer_tick
      else if n = T_IRQ0 + IRQ_IDE then disk_intr (ti_idestatus inp) (ti_idedata inp)
      else if n = T_IRQ0 + IRQ_IDE + 1 then kret ()
      else if n = T_IRQ0 + IRQ_KBD then kbdintr (ti_scancodes inp)
      else if n = T_IRQ0 + IRQ_COM1 then uartintr (ti_serial inp)
      else if n = T_IRQ0 + 7 \<or> n = T_IRQ0 + IRQ_SPURIOUS then
        kbind (kget k_cpu) (\<lambda>c.
        cprintf (''cpu%d: spurious interrupt at %x:%x'' @ [CHR 0x0A])
          [ArgInt (of_nat c), ArgInt (ucast (tf_cs tf)), ArgInt (tf_eip tf)])
      else trap_fault tf (ti_cr2 inp))"

text \<open>The last test, also the continuation of a process that has yielded.\<close>

definition trap_killed :: "trapframe \<Rightarrow> unit K" where
  "trap_killed tf =
     kbind myproc (\<lambda>mp.
     case mp of
       None \<Rightarrow> kret ()
     | Some p \<Rightarrow>
         kbind (get_proc p) (\<lambda>q.
         kwhen (p_killed q \<and> tf_cs tf AND 3 = DPL_USER) exit))"

definition trap_yield :: "trapframe \<Rightarrow> unit K" where
  "trap_yield tf =
     kbind myproc (\<lambda>mp.
     case mp of
       None \<Rightarrow> kret ()
     | Some p \<Rightarrow>
         kbind (get_proc p) (\<lambda>q.
         kwhen (p_state q = RUNNING \<and> tf_trapno tf = T_IRQ0 + IRQ_TIMER) yield))"

definition trap :: "trapframe \<Rightarrow> trap_input \<Rightarrow> unit K" where
  "trap tf inp =
     (if tf_trapno tf = T_SYSCALL then trap_syscall tf
      else
        kseq (trap_device tf inp) (
        kseq (trap_killed tf) (
        kseq (trap_yield tf) (
        trap_killed tf))))"

definition trap_resume :: "trapframe \<Rightarrow> unit K" where
  "trap_resume tf = kseq (release PtableLock) (trap_killed tf)"

end
