(* ===== verification/Locking.thy ===== *)
theory Locking
  imports Trap
begin

text \<open>
  The discipline of spin-locks in the whole kernel. \<open>locks a b m\<close>: started with the
  locks \<open>a\<close> held, \<open>m\<close> returns with the locks \<open>b\<close> held, gives up the processor only with
  exactly \<open>ptable.lock\<close> held, and does not panic because of a lock. There is one
  lemma per operation; operations that may sleep are called with no lock held.
\<close>

section \<open>The judgement and its rules\<close>

definition lock_panics :: "string set" where
  "lock_panics = {''acquire'', ''release'', ''sched locks'', ''sched ptable.lock''}"

definition locks :: "lockid list \<Rightarrow> lockid list \<Rightarrow> 'a K \<Rightarrow> bool" where
  "locks a b m \<longleftrightarrow> (\<forall>s. k_held s = a \<longrightarrow>
     (case m s of Ok _ t \<Rightarrow> k_held t = b
      | Switch t \<Rightarrow> k_held t = [PtableLock]
      | Panic e \<Rightarrow> e \<notin> lock_panics))"

named_theorems locks_intros \<open>rules and operations of the lock discipline\<close>

lemma locksI:
  "(\<And>s. k_held s = a \<Longrightarrow> case m s of Ok _ t \<Rightarrow> k_held t = b
      | Switch t \<Rightarrow> k_held t = [PtableLock] | Panic e \<Rightarrow> e \<notin> lock_panics) \<Longrightarrow> locks a b m"
  by (simp add: locks_def)

lemma locksD:
  "locks a b m \<Longrightarrow> k_held s = a \<Longrightarrow> case m s of Ok _ t \<Rightarrow> k_held t = b
      | Switch t \<Rightarrow> k_held t = [PtableLock] | Panic e \<Rightarrow> e \<notin> lock_panics"
  by (simp add: locks_def)

lemma locks_kret [locks_intros]: "locks a a (kret x)"
  by (simp add: locks_def krun)

lemma locks_kget [locks_intros]: "locks a a (kget f)"
  by (simp add: locks_def krun)

lemma locks_kpanic [locks_intros]: "e \<notin> lock_panics \<Longrightarrow> locks a b (kpanic e)"
  by (simp add: locks_def krun)

lemma locks_kmod [locks_intros]: "(\<And>s. k_held (f s) = k_held s) \<Longrightarrow> locks a a (kmod f)"
  by (simp add: locks_def krun)

lemma locks_kbind [locks_intros]:
  assumes m: "locks a b m" and f: "\<And>x. locks b c (f x)"
  shows "locks a c (kbind m f)"
proof (rule locksI)
  fix s :: kernel
  assume s: "k_held s = a"
  show "case kbind m f s of Ok _ t \<Rightarrow> k_held t = c
      | Switch t \<Rightarrow> k_held t = [PtableLock] | Panic e \<Rightarrow> e \<notin> lock_panics"
  proof (cases "m s")
    case (Ok x t)
    with locksD [OF m s] have "k_held t = b" by simp
    with Ok locksD [OF f this, of x] show ?thesis by (simp add: kbind_def)
  qed (use locksD [OF m s] in \<open>simp_all add: kbind_def\<close>)
qed

lemma locks_kseq [locks_intros]: "locks a b m \<Longrightarrow> locks b c n \<Longrightarrow> locks a c (kseq m n)"
  unfolding kseq_def by (rule locks_kbind)

lemma locks_kwhen [locks_intros]: "locks a a m \<Longrightarrow> locks a a (kwhen c m)"
  by (simp add: kwhen_def locks_kret)

lemma locks_if [locks_intros]: "locks a b m \<Longrightarrow> locks a b n \<Longrightarrow> locks a b (if c then m else n)"
  by simp

lemma locks_let [locks_intros]: "locks a b (f x) \<Longrightarrow> locks a b (Let x f)"
  by (simp add: Let_def)

lemma locks_option [locks_intros]:
  "locks a b m \<Longrightarrow> (\<And>x. locks a b (f x)) \<Longrightarrow> locks a b (case r of None \<Rightarrow> m | Some x \<Rightarrow> f x)"
  by (cases r) auto

lemma locks_prod [locks_intros]: "(\<And>x y. locks a b (f x y)) \<Longrightarrow> locks a b (case p of (x, y) \<Rightarrow> f x y)"
  by (cases p) auto

lemma locks_nat [locks_intros]:
  "locks a b m \<Longrightarrow> (\<And>k. locks a b (f k)) \<Longrightarrow> locks a b (case n of 0 \<Rightarrow> m | Suc k \<Rightarrow> f k)"
  by (cases n) auto

lemma locks_kfor [locks_intros]: "(\<And>i. locks a a (f i)) \<Longrightarrow> locks a a (kfor xs f)"
  by (induction xs) (auto intro: locks_kret locks_kseq)

lemma locks_acquire [locks_intros]: "lk \<notin> set a \<Longrightarrow> locks a (lk # a) (acquire lk)"
  by (simp add: locks_def krun)

lemma locks_release [locks_intros]: "locks (lk # a) a (release lk)"
  by (simp add: locks_def krun)

lemma locks_curproc [locks_intros]: "locks a a curproc"
  unfolding curproc_def myproc_def
  by (rule locksI) (simp add: krun lock_panics_def split: option.splits)

lemma locks_simple [locks_intros]:
  "locks a a myproc" "locks a a (get_proc p)" "locks a a (upd_proc p f)"
  unfolding myproc_def get_proc_def upd_proc_def by (rule locks_intros | simp)+

lemma locks_cprintf [locks_intros]: "ConsLock \<notin> set a \<Longrightarrow> locks a a (cprintf fmt args)"
  by (rule locksI) (simp add: krun lock_panics_def split: option.splits)

section \<open>Memory\<close>

lemma locks_kalloc [locks_intros]: "KmemLock \<notin> set a \<Longrightarrow> locks a a kalloc"
  by (rule locksI) (simp add: kalloc_def krun)

lemma locks_kfree [locks_intros]: "KmemLock \<notin> set a \<Longrightarrow> locks a a (kfree v)"
  by (rule locksI) (simp add: kfree_def krun lock_panics_def)

lemma locks_mem [locks_intros]:
  "locks a a (load32 p)" "locks a a (store32 p v)" "locks a a (kmemset p c n)" "locks a a (kmemmove p q n)"
  unfolding load32_def store32_def kmemset_def kmemmove_def by (rule locks_intros | simp)+

lemma locks_walkpgdir [locks_intros]: "KmemLock \<notin> set a \<Longrightarrow> locks a a (walkpgdir d va alloc)"
  unfolding walkpgdir_def by (rule locks_intros | simp)+

lemma locks_mappages_loop: "KmemLock \<notin> set a \<Longrightarrow> locks a a (mappages_loop d va n pa perm)"
proof (induction n arbitrary: va pa)
  case 0
  show ?case by (subst mappages_loop.simps, simp only: nat.case, (rule locks_intros | simp add: 0 lock_panics_def)+)
next
  case (Suc n)
  show ?case
    by (subst mappages_loop.simps, simp only: nat.case, (rule locks_intros | simp add: Suc lock_panics_def)+)
qed

lemma locks_mappages [locks_intros]: "KmemLock \<notin> set a \<Longrightarrow> locks a a (mappages d va sz pa perm)"
  unfolding mappages_def Let_def by (rule locks_mappages_loop)

lemma locks_dealloc_step [locks_intros]: "KmemLock \<notin> set a \<Longrightarrow> locks a a (dealloc_step d x)"
  unfolding dealloc_step_def by (rule locks_intros | simp add: lock_panics_def)+

lemma locks_dealloc_loop [locks_intros]:
  assumes a: "KmemLock \<notin> set a"
  shows "locks a a (dealloc_loop d oldsz x)"
proof (rule locksI)
  fix s :: kernel
  assume "k_held s = a"
  then show "case dealloc_loop d oldsz x s of Ok _ t \<Rightarrow> k_held t = a
      | Switch t \<Rightarrow> k_held t = [PtableLock] | Panic e \<Rightarrow> e \<notin> lock_panics"
  proof (induction d oldsz x s rule: dealloc_loop.induct)
    case (1 d oldsz x s)
    note step = locksD [OF locks_dealloc_step [OF a] "1.prems", of d x]
    show ?case
    proof (cases "dealloc_step d x s")
      case (Ok x' t)
      with step have "k_held t = a" by simp
      with "1.IH" [OF _ Ok] Ok "1.prems" show ?thesis by (subst dealloc_loop.simps) simp
    qed (use step "1.prems" in \<open>subst dealloc_loop.simps, simp\<close>)+
  qed
qed

lemma locks_deallocuvm [locks_intros]: "KmemLock \<notin> set a \<Longrightarrow> locks a a (deallocuvm d old new)"
  unfolding deallocuvm_def by (rule locks_intros | simp)+

lemma locks_freevm [locks_intros]: "KmemLock \<notin> set a \<Longrightarrow> locks a a (freevm d)"
  unfolding freevm_def by (rule locks_intros | simp add: lock_panics_def)+

lemma locks_setupkvm_loop [locks_intros]: "KmemLock \<notin> set a \<Longrightarrow> locks a a (setupkvm_loop d ks)"
  by (induction ks) ((simp, (rule locks_intros | simp)+)+)

lemma locks_setupkvm [locks_intros]: "KmemLock \<notin> set a \<Longrightarrow> locks a a setupkvm"
  unfolding setupkvm_def by (rule locks_intros | simp add: lock_panics_def)+

lemma locks_switchuvm [locks_intros]: "locks a a (switchuvm p)"
  unfolding switchuvm_def by (rule locks_intros | simp add: lock_panics_def)+

lemma locks_allocuvm_loop [locks_intros]:
  "KmemLock \<notin> set a \<Longrightarrow> ConsLock \<notin> set a \<Longrightarrow> locks a a (allocuvm_loop d old new is)"
  by (induction "is") ((simp, (rule locks_intros | simp)+)+)

lemma locks_allocuvm [locks_intros]:
  "KmemLock \<notin> set a \<Longrightarrow> ConsLock \<notin> set a \<Longrightarrow> locks a a (allocuvm d old new)"
  unfolding allocuvm_def by (rule locks_intros | simp)+

lemma locks_clearpteu [locks_intros]: "KmemLock \<notin> set a \<Longrightarrow> locks a a (clearpteu d va)"
  unfolding clearpteu_def by (rule locks_intros | simp add: lock_panics_def)+

lemma locks_copyuvm_loop [locks_intros]: "KmemLock \<notin> set a \<Longrightarrow> locks a a (copyuvm_loop d e is)"
  by (induction "is") ((simp, (rule locks_intros | simp add: lock_panics_def)+)+)

lemma locks_copyuvm [locks_intros]: "KmemLock \<notin> set a \<Longrightarrow> locks a a (copyuvm d sz)"
  unfolding copyuvm_def by (rule locks_intros | simp)+

lemma locks_uva2ka: "KmemLock \<notin> set a \<Longrightarrow> locks a a (uva2ka d va)"
  unfolding uva2ka_def by (rule locks_intros | simp add: lock_panics_def)+

lemma locks_copyout [locks_intros]:
  assumes a: "KmemLock \<notin> set a"
  shows "locks a a (copyout d va bs)"
proof (rule locksI)
  fix s :: kernel
  assume "k_held s = a"
  then show "case copyout d va bs s of Ok _ t \<Rightarrow> k_held t = a
      | Switch t \<Rightarrow> k_held t = [PtableLock] | Panic e \<Rightarrow> e \<notin> lock_panics"
  proof (induction d va bs s rule: copyout.induct)
    case (1 d va bs s)
    note step = locksD [OF locks_uva2ka [OF a] "1.prems", of d "PGROUNDDOWN va"]
    show ?case
    proof (cases "uva2ka d (PGROUNDDOWN va) s")
      case (Ok pa t)
      with step have t: "k_held t = a" by simp
      show ?thesis
      proof (cases "bs = [] \<or> pa = 0")
        case True
        with Ok t "1.prems" show ?thesis by (subst copyout.simps) (auto simp: Let_def)
      next
        case False
        with "1.IH" [OF _ refl refl Ok] Ok t show ?thesis
          by (subst copyout.simps) (simp add: Let_def)
      qed
    qed (use step "1.prems" in \<open>subst copyout.simps, simp add: Let_def\<close>)+
  qed
qed

section \<open>Processes\<close>

lemma locks_sched: "locks [PtableLock] b sched"
  by (rule locksI) (simp add: sched_def curproc_def krun lock_panics_def split: option.splits)

lemma locks_sleep [locks_intros]: "locks [lk] b (sleep chan lk)"
  by (rule locksI)
    (simp add: sleep_def sched_def curproc_def krun lock_panics_def split: option.splits)

lemma locks_wakeup [locks_intros]: "PtableLock \<notin> set a \<Longrightarrow> locks a a (wakeup chan)"
  unfolding wakeup_def wakeup1_def by (rule locks_intros | simp)+

lemma locks_wakeup1 [locks_intros]: "locks a a (wakeup1 chan)"
  unfolding wakeup1_def by (rule locks_intros | simp)+

lemma locks_allocproc [locks_intros]:
  "PtableLock \<notin> set a \<Longrightarrow> KmemLock \<notin> set a \<Longrightarrow> locks a a allocproc"
  unfolding allocproc_def by (rule locks_intros | simp)+

lemma locks_priorities [locks_intros]:
  "PtableLock \<notin> set a \<Longrightarrow> locks a a (set_priority pid n)"
  "PtableLock \<notin> set a \<Longrightarrow> locks a a (get_priority pid)"
  unfolding set_priority_def get_priority_def by (rule locks_intros | simp)+

lemma locks_ps [locks_intros]:
  "PtableLock \<notin> set a \<Longrightarrow> ConsLock \<notin> set a \<Longrightarrow> locks a a ps"
  unfolding ps_def by (rule locks_intros | simp)+

lemma locks_yield [locks_intros]: "locks [] b yield"
  unfolding yield_def
  by (rule locksI) (simp add: sched_def curproc_def krun lock_panics_def split: option.splits)

lemma locks_kill [locks_intros]: "PtableLock \<notin> set a \<Longrightarrow> locks a a (kill pid)"
  unfolding kill_def by (rule locks_intros | simp)+

lemma locks_wait [locks_intros]: "locks [] [] wait"
  unfolding wait_def wait_pass_def reap_def by (rule locks_intros | simp)+

lemma locks_growproc [locks_intros]:
  "KmemLock \<notin> set a \<Longrightarrow> ConsLock \<notin> set a \<Longrightarrow> locks a a (growproc n)"
  unfolding growproc_def by (rule locks_intros | simp)+

lemma locks_procdump [locks_intros]: "ConsLock \<notin> set a \<Longrightarrow> locks a a procdump"
  unfolding procdump_def by (rule locks_intros | simp)+

section \<open>Sleep-locks, the disk and the block cache\<close>

lemma locks_set_slock [locks_intros]: "locks a a (set_slock sl l)"
  unfolding set_slock_def by (rule locks_kmod) (simp split: slockid.split)

lemma locks_acquiresleep [locks_intros]: "locks [] [] (acquiresleep sl)"
  unfolding acquiresleep_def acquiresleep_loop_def
  by (rule locks_intros | simp)+

lemma locks_initsleeplock [locks_intros]: "locks a a (initsleeplock sl)"
  unfolding initsleeplock_def
  by (rule locks_intros | simp)+

lemma locks_releasesleep [locks_intros]: "PtableLock \<notin> set a \<Longrightarrow> SleepLk sl \<notin> set a \<Longrightarrow> locks a a (releasesleep sl)"
  unfolding releasesleep_def
  by (rule locks_intros | simp)+

lemma locks_holdingsleep [locks_intros]: "SleepLk sl \<notin> set a \<Longrightarrow> locks a a (holdingsleep sl)"
  unfolding holdingsleep_def
  by (rule locks_intros | simp)+

lemma locks_bufs [locks_intros]: 
  "locks a a (get_buf b)"
  "locks a a (upd_buf b f)"
  "locks a a (disk_write n d)"
  "locks a a (set_next b c)"
  "locks a a (set_prev b c)"
  "locks a a (buf_data b)"
  "locks a a (set_data b d)"
  unfolding get_buf_def upd_buf_def disk_write_def set_next_def set_prev_def buf_data_def set_data_def
  by (rule locks_intros | simp)+

lemma locks_iderw [locks_intros]: "locks [] [] (iderw b)"
  unfolding iderw_def
  by (rule locks_intros | simp add: lock_panics_def)+

lemma locks_idestart [locks_intros]: "locks a a (idestart b)"
  unfolding idestart_def
  by (rule locks_intros | simp add: lock_panics_def)+

lemma locks_ide_append [locks_intros]: "locks a a (ide_append b)"
  unfolding ide_append_def
  by (rule locks_intros | simp add: lock_panics_def)+

lemma locks_ide_wait [locks_intros]: "locks [IdeLock] [] (ide_wait b)"
  unfolding ide_wait_def
  by (rule locks_intros | simp)+

lemma locks_ide_rw [locks_intros]: "locks [] [] (ide_rw b)"
  unfolding ide_rw_def
  by (rule locks_intros | simp add: lock_panics_def)+

lemma locks_disk_rw [locks_intros]: "locks [] [] (disk_rw b)"
  unfolding disk_rw_def
  by (rule locks_intros | simp)+

lemma locks_disk_intr [locks_intros]: "locks [] [] (disk_intr statuses data)"
  unfolding disk_intr_def ideintr_mem_def ideintr_def
  by (rule locks_intros | simp add: lock_panics_def)+

lemma locks_bget [locks_intros]: "locks [] [] (bget dev n)"
  unfolding bget_def
  by (rule locks_intros | simp add: lock_panics_def)+

lemma locks_bread [locks_intros]: "locks [] [] (bread dev n)"
  unfolding bread_def
  by (rule locks_intros | simp)+

lemma locks_bwrite [locks_intros]: "locks [] [] (bwrite b)"
  unfolding bwrite_def
  by (rule locks_intros | simp add: lock_panics_def)+

lemma locks_brelse [locks_intros]: "locks [] [] (brelse b)"
  unfolding brelse_def
  by (rule locks_intros | simp add: lock_panics_def)+

lemma locks_readsb [locks_intros]: "locks [] [] (readsb dev)"
  unfolding readsb_def
  by (rule locks_intros | simp)+

section \<open>The log\<close>

lemma locks_log_state [locks_intros]: 
  "locks a a (upd_log f)"
  "locks a a log_n"
  "locks a a (set_log_n n)"
  unfolding set_log_n_def upd_log_def log_n_def
  by (rule locks_intros | simp)+

lemma locks_install_trans [locks_intros]: "locks [] [] install_trans"
  unfolding install_trans_def
  by (rule locks_intros | simp)+

lemma locks_read_head [locks_intros]: "locks [] [] read_head"
  unfolding read_head_def
  by (rule locks_intros | simp add: lock_panics_def)+

lemma locks_write_head [locks_intros]: "locks [] [] write_head"
  unfolding write_head_def
  by (rule locks_intros | simp)+

lemma locks_recover_from_log [locks_intros]: "locks [] [] recover_from_log"
  unfolding recover_from_log_def
  by (rule locks_intros | simp)+

lemma locks_initlog [locks_intros]: "locks [] [] (initlog dev)"
  unfolding initlog_def
  by (rule locks_intros | simp)+

lemma locks_begin_op [locks_intros]: "locks [] [] begin_op"
  unfolding begin_op_def begin_op_loop_def
  by (rule locks_intros | simp)+

lemma locks_write_log [locks_intros]: "locks [] [] write_log"
  unfolding write_log_def
  by (rule locks_intros | simp)+

lemma locks_commit [locks_intros]: "locks [] [] commit"
  unfolding commit_def
  by (rule locks_intros | simp)+

lemma locks_end_op [locks_intros]: "locks [] [] end_op"
  unfolding end_op_def
  by (rule locks_intros | simp add: lock_panics_def)+

lemma locks_log_write [locks_intros]: "locks [] [] (log_write b)"
  unfolding log_write_def
  by (rule locks_intros | simp add: lock_panics_def)+

section \<open>Inodes\<close>

lemma locks_inodes [locks_intros]: 
  "locks a a (get_inode i)"
  "locks a a (upd_inode i f)"
  unfolding get_inode_def upd_inode_def
  by (rule locks_intros | simp)+

lemma locks_bzero [locks_intros]: "locks [] [] (bzero dev n)"
  unfolding bzero_def
  by (rule locks_intros | simp)+

lemma locks_balloc_loop [locks_intros]: "locks [] [] (balloc_loop dev sb bs)"
  by (induction bs) ((simp, (rule locks_intros | simp add: lock_panics_def)+)+)

lemma locks_balloc [locks_intros]: "locks [] [] (balloc dev)"
  unfolding balloc_def
  by (rule locks_intros | simp)+

lemma locks_bfree [locks_intros]: "locks [] [] (bfree dev b)"
  unfolding bfree_def
  by (rule locks_intros | simp add: lock_panics_def)+

lemma locks_iinit [locks_intros]: "locks [] [] (iinit dev)"
  unfolding iinit_def
  by (rule locks_intros | simp)+

lemma locks_iget [locks_intros]: "locks [] [] (iget dev inum)"
  unfolding iget_def
  by (rule locks_intros | simp add: lock_panics_def)+

lemma locks_idup [locks_intros]: "locks [] [] (idup ip)"
  unfolding idup_def
  by (rule locks_intros | simp)+

lemma locks_ialloc_loop [locks_intros]: "locks [] [] (ialloc_loop dev typ sb is)"
  by (induction "is") ((simp, (rule locks_intros | simp add: lock_panics_def)+)+)

lemma locks_ialloc [locks_intros]: "locks [] [] (ialloc dev typ)"
  unfolding ialloc_def
  by (rule locks_intros | simp)+

lemma locks_iupdate [locks_intros]: "locks [] [] (iupdate ip)"
  unfolding iupdate_def
  by (rule locks_intros | simp)+

lemma locks_ilock [locks_intros]: "locks [] [] (ilock ip)"
  unfolding ilock_def
  by (rule locks_intros | simp add: lock_panics_def)+

lemma locks_iunlock [locks_intros]: "locks [] [] (iunlock ip)"
  unfolding iunlock_def
  by (rule locks_intros | simp add: lock_panics_def)+

lemma locks_bmap [locks_intros]: "locks [] [] (bmap ip bn)"
  unfolding bmap_def
  by (rule locks_intros | simp add: lock_panics_def)+

lemma locks_itrunc [locks_intros]: "locks [] [] (itrunc ip)"
  unfolding itrunc_def
  by (rule locks_intros | simp)+

lemma locks_iput [locks_intros]: "locks [] [] (iput ip)"
  unfolding iput_def
  by (rule locks_intros | simp)+

lemma locks_iunlockput [locks_intros]: "locks [] [] (iunlockput ip)"
  unfolding iunlockput_def
  by (rule locks_intros | simp)+

section \<open>The console\<close>

lemma locks_console_state [locks_intros]: 
  "locks a a (consputc c)"
  "locks a a (upd_input g)"
  unfolding consputc_def upd_input_def
  by (rule locks_intros | simp)+

lemma locks_console_char [locks_intros]: "PtableLock \<notin> set a \<Longrightarrow> locks a a (console_char c)"
  unfolding console_char_def
  by (rule locks_intros | simp)+

lemma locks_consoleintr [locks_intros]: "locks [] [] (consoleintr cs)"
  unfolding consoleintr_def
  by (rule locks_intros | simp)+

lemma locks_kbdintr [locks_intros]: "locks [] [] (kbdintr scancodes)"
  unfolding kbdintr_def
  by (rule locks_intros | simp)+

lemma locks_uartintr [locks_intros]: "locks [] [] (uartintr cs)"
  unfolding uartintr_def
  by (rule locks_intros | simp)+

lemma locks_consoleread_loop [locks_intros]:
  "locks [ConsLock] [] (consoleread_loop ip target n got)"
  by (induction n arbitrary: got) ((simp, (rule locks_intros | simp)+)+)

lemma locks_consoleread [locks_intros]: "locks [] [] (consoleread ip n)"
  unfolding consoleread_def
  by (rule locks_intros | simp)+

lemma locks_consolewrite [locks_intros]: "locks [] [] (consolewrite ip cs n)"
  unfolding consolewrite_def
  by (rule locks_intros | simp)+

section \<open>File contents, directories and paths\<close>

lemma locks_readi_loop [locks_intros]: "locks [] [] (readi_loop ip cs)"
  by (induction ip cs rule: readi_loop.induct) ((simp, (rule locks_intros | simp)+)+)

lemma locks_readi [locks_intros]: "locks [] [] (readi ip off n)"
  unfolding readi_def
  by (rule locks_intros | simp)+

lemma locks_writei_loop [locks_intros]: "locks [] [] (writei_loop ip cs src)"
  by (induction ip cs src rule: writei_loop.induct) ((simp, (rule locks_intros | simp)+)+)

lemma locks_writei [locks_intros]: "locks [] [] (writei ip src off n)"
  unfolding writei_def
  by (rule locks_intros | simp)+

lemma locks_stati [locks_intros]: "locks [] [] (stati ip)"
  unfolding stati_def
  by (rule locks_intros | simp)+

lemma locks_dirlookup_loop [locks_intros]: "locks [] [] (dirlookup_loop dp name offs)"
  by (induction offs) ((simp, (rule locks_intros | simp add: lock_panics_def)+)+)

lemma locks_dirlookup [locks_intros]: "locks [] [] (dirlookup dp name)"
  unfolding dirlookup_def
  by (rule locks_intros | simp add: lock_panics_def)+

lemma locks_dirlink_loop [locks_intros]: "locks [] [] (dirlink_loop dp e offs)"
  by (induction offs arbitrary: e) ((simp, (rule locks_intros | simp add: lock_panics_def)+)+)

lemma locks_dirlink [locks_intros]: "locks [] [] (dirlink dp name inum)"
  unfolding dirlink_def
  by (rule locks_intros | simp add: lock_panics_def)+

lemma locks_namex_loop [locks_intros]: "locks [] [] (namex_loop ip parent name es)"
proof (induction es arbitrary: ip name)
  case Nil
  show ?case unfolding namex_loop.simps by (rule locks_intros | simp)+
next
  case (Cons e es)
  show ?case
    by (cases e, simp only: namex_loop.simps) (rule locks_intros Cons | simp)+
qed

lemma locks_namex [locks_intros]: "locks [] [] (namex path parent)"
  unfolding namex_def
  by (rule locks_intros | simp add: lock_panics_def)+

lemma locks_namei [locks_intros]: 
  "locks [] [] (namei path)"
  "locks [] [] (nameiparent path)"
  unfolding namei_def nameiparent_def
  by (rule locks_intros | simp)+

section \<open>Pipes and files\<close>

lemma locks_pipes [locks_intros]: 
  "locks a a (get_pipe p)"
  "locks a a (upd_pipe p f)"
  unfolding get_pipe_def upd_pipe_def
  by (rule locks_intros | simp)+

lemma locks_pipeclose [locks_intros]: "locks [] [] (pipeclose p w)"
  unfolding pipeclose_def
  by (rule locks_intros | simp)+

lemma locks_pipewrite_loop [locks_intros]: "locks [PipeLock p] [] (pipewrite_loop p n bs)"
  by (induction bs) ((simp, (rule locks_intros | simp)+)+)

lemma locks_pipewrite [locks_intros]: "locks [] [] (pipewrite p bs n)"
  unfolding pipewrite_def
  by (rule locks_intros | simp)+

lemma locks_piperead [locks_intros]: "locks [] [] (piperead p n)"
  unfolding piperead_def piperead_loop_def
  by (rule locks_intros | simp)+

lemma locks_files [locks_intros]: 
  "locks a a (get_file f)"
  "locks a a (upd_file f g)"
  unfolding get_file_def upd_file_def
  by (rule locks_intros | simp)+

lemma locks_filealloc [locks_intros]: "locks [] [] filealloc"
  unfolding filealloc_def
  by (rule locks_intros | simp)+

lemma locks_filedup [locks_intros]: "locks [] [] (filedup f)"
  unfolding filedup_def
  by (rule locks_intros | simp add: lock_panics_def)+

lemma locks_fileclose [locks_intros]: "locks [] [] (fileclose f)"
  unfolding fileclose_def
  by (rule locks_intros | simp add: lock_panics_def)+

lemma locks_filestat [locks_intros]: "locks [] [] (filestat f)"
  unfolding filestat_def
  by (rule locks_intros | simp add: lock_panics_def)+

lemma locks_fileread [locks_intros]: "locks [] [] (fileread f n)"
  unfolding fileread_def
  by (rule locks_intros | simp add: lock_panics_def)+

lemma locks_filewrite_loop [locks_intros]: "locks [] [] (filewrite_loop f ip cs i)"
  by (induction cs arbitrary: i) ((simp, (rule locks_intros | simp add: lock_panics_def)+)+)

lemma locks_filewrite [locks_intros]: "locks [] [] (filewrite f bs n)"
  unfolding filewrite_def
  by (rule locks_intros | simp add: lock_panics_def)+

lemma locks_pipealloc [locks_intros]: "locks [] [] pipealloc"
  unfolding pipealloc_def pipealloc_bad_def
  by (rule locks_intros | simp)+

section \<open>Processes and programs\<close>

lemma locks_set_name [locks_intros]: "locks a a (set_name p t)"
  unfolding set_name_def
  by (rule locks_intros | simp)+

lemma locks_fork [locks_intros]: "locks [] [] fork"
  unfolding fork_def
  by (rule locks_intros | simp add: lock_panics_def)+

lemma locks_exit_files [locks_intros]: "locks [] [] (exit_files p)"
  unfolding exit_files_def
  by (rule locks_intros | simp)+

lemma locks_exit_children [locks_intros]: "locks a a (exit_children p)"
  unfolding exit_children_def
  by (rule locks_intros | simp)+

lemma locks_exit [locks_intros]: "locks [] b exit"
  unfolding exit_def
  by (rule locks_intros locks_sched | simp add: lock_panics_def)+

lemma locks_forkret [locks_intros]: "locks [PtableLock] [] forkret"
  unfolding forkret_def
  by (rule locks_intros | simp)+

lemma locks_loaduvm_loop [locks_intros]: "locks [] [] (loaduvm_loop d addr ip offset sz is)"
proof (induction "is")
  case Nil
  show ?case by (simp add: locks_kret)
next
  case (Cons x xs)
  show ?case unfolding loaduvm_loop.simps by (rule locks_intros Cons | simp add: lock_panics_def)+
qed

lemma locks_loaduvm [locks_intros]: "locks [] [] (loaduvm d addr ip offset sz)"
  unfolding loaduvm_def
  by (rule locks_intros | simp add: lock_panics_def)+

lemma locks_exec_load [locks_intros]: "locks [] [] (exec_load d ip offs sz)"
  by (induction offs arbitrary: sz) ((simp, (rule locks_intros | simp)+)+)

lemma locks_exec_args [locks_intros]: "locks [] [] (exec_args d argv sp ustack)"
proof (induction argv arbitrary: sp ustack)
  case Nil
  show ?case by (simp add: locks_kret)
next
  case (Cons x xs)
  show ?case unfolding exec_args.simps by (rule locks_intros Cons | simp add: lock_panics_def)+
qed

lemma locks_exec_parts [locks_intros]: 
  "locks [] [] (exec_stack d argv sz)"
  "locks [] [] (exec_image d ip elf)"
  "locks [] [] (exec_commit path d sz entry sp)"
  "locks [] [] (exec_bad d r)"
  unfolding exec_stack_def exec_image_def exec_commit_def exec_bad_def
  by (rule locks_intros | simp)+

lemma locks_exec [locks_intros]: "locks [] [] (exec path argv)"
  unfolding exec_def
  by (rule locks_intros | simp)+

section \<open>System calls\<close>

lemma locks_uload [locks_intros]: 
  "locks a a (uload va)"
  "locks a a (ustore va b)"
  unfolding uload_def ustore_def
  by (rule locks_intros | simp add: lock_panics_def)+

lemma locks_uload_bytes [locks_intros]: "locks a a (uload_bytes va n)"
proof (induction n arbitrary: va)
  case 0
  show ?case by (simp add: locks_kret)
next
  case (Suc n)
  show ?case unfolding uload_bytes.simps by (rule locks_intros Suc | simp)+
qed

lemma locks_ustore_bytes [locks_intros]: "locks a a (ustore_bytes va bs)"
  by (induction bs arbitrary: va) ((simp, (rule locks_intros | simp)+)+)

lemma locks_uload32 [locks_intros]: "locks a a (uload32 va)"
  unfolding uload32_def
  by (rule locks_intros | simp)+

lemma locks_fetchint [locks_intros]: "locks a a (fetchint addr)"
  unfolding fetchint_def
  by (rule locks_intros | simp)+

lemma locks_fetchstr_loop [locks_intros]: "locks a a (fetchstr_loop va n)"
proof (induction n arbitrary: va)
  case 0
  show ?case by (simp add: locks_kret)
next
  case (Suc n)
  show ?case unfolding fetchstr_loop.simps by (rule locks_intros Suc | simp)+
qed

lemma locks_args [locks_intros]: 
  "locks a a (fetchstr addr)"
  "locks a a (argint n)"
  "locks a a (argptr n sz)"
  "locks a a (argstr n)"
  unfolding argptr_def argstr_def fetchstr_def argint_def
  by (rule locks_intros | simp)+

lemma locks_sysproc [locks_intros]: 
  "locks [] [] sys_add"
  "locks [] [] sys_setpriority"
  "locks [] [] sys_getpriority"
  "locks [] [] sys_toggle"
  "locks [] [] sys_ps"
  "locks [] [] sys_fork"
  "locks [] [] sys_exit"
  "locks [] [] sys_wait"
  "locks [] [] sys_kill"
  "locks [] [] sys_getpid"
  "locks [] [] sys_sbrk"
  "locks [] [] sys_sleep"
  "locks [] [] sys_uptime"
  unfolding sys_add_def sys_setpriority_def sys_getpriority_def sys_toggle_def sys_ps_def sys_fork_def sys_exit_def sys_wait_def sys_kill_def sys_getpid_def sys_sbrk_def sys_sleep_def sys_sleep_loop_def sys_uptime_def
  by (rule locks_intros | simp)+

lemma locks_descriptors [locks_intros]: 
  "locks a a (argfd n)"
  "locks a a (fdalloc f)"
  "locks a a (clear_fd fd)"
  "locks a a rw_args"
  unfolding rw_args_def argfd_def fdalloc_def clear_fd_def
  by (rule locks_intros | simp)+

lemma locks_store_stat [locks_intros]: "locks a a (store_stat addr st)"
  unfolding store_stat_def
  by (rule locks_intros | simp)+

lemma locks_sysfile_data [locks_intros]: 
  "locks [] [] sys_dup"
  "locks [] [] sys_read"
  "locks [] [] sys_write"
  "locks [] [] sys_close"
  "locks [] [] sys_fstat"
  unfolding sys_dup_def sys_read_def sys_write_def sys_close_def sys_fstat_def
  by (rule locks_intros | simp)+

lemma locks_add_nlink [locks_intros]: "locks [] [] (add_nlink ip d)"
  unfolding add_nlink_def
  by (rule locks_intros | simp)+

lemma locks_link_inode [locks_intros]: 
  "locks [] [] (link_inode ip new)"
  "locks [] [] (sys_link_bad ip)"
  unfolding link_inode_def sys_link_bad_def
  by (rule locks_intros | simp)+

lemma locks_sys_link [locks_intros]: "locks [] [] sys_link"
  unfolding sys_link_def
  by (rule locks_intros | simp)+

lemma locks_isdirempty_loop [locks_intros]: "locks [] [] (isdirempty_loop dp offs)"
  by (induction offs) ((simp, (rule locks_intros | simp add: lock_panics_def)+)+)

lemma locks_unlink [locks_intros]: 
  "locks [] [] (isdirempty dp)"
  "locks [] [] (unlink_bad dp)"
  "locks [] [] (unlink_entry dp ip off)"
  unfolding isdirempty_def unlink_bad_def unlink_entry_def
  by (rule locks_intros | simp add: lock_panics_def)+

lemma locks_sys_unlink [locks_intros]: "locks [] [] sys_unlink"
  unfolding sys_unlink_def
  by (rule locks_intros | simp add: lock_panics_def)+

lemma locks_create_new [locks_intros]: "locks [] [] (create_new dp name typ major minor)"
  unfolding create_new_def
  by (rule locks_intros | simp add: lock_panics_def)+

lemma locks_create [locks_intros]: "locks [] [] (create path typ major minor)"
  unfolding create_def
  by (rule locks_intros | simp)+

lemma locks_open [locks_intros]: 
  "locks [] [] (open_inode path omode)"
  "locks [] [] (open_file ip omode)"
  unfolding open_inode_def open_file_def
  by (rule locks_intros | simp)+

lemma locks_close_created [locks_intros]: "locks [] [] (close_created r)"
  unfolding close_created_def
  by (rule locks_intros | simp)+

lemma locks_fetch_argv [locks_intros]: "locks a a (fetch_argv uargv n)"
proof (induction n arbitrary: uargv)
  case 0
  show ?case by (simp add: locks_kret)
next
  case (Suc n)
  show ?case unfolding fetch_argv.simps by (rule locks_intros Suc | simp)+
qed

lemma locks_sysfile_paths [locks_intros]: 
  "locks [] [] sys_open"
  "locks [] [] sys_mkdir"
  "locks [] [] sys_mknod"
  "locks [] [] sys_chdir"
  "locks [] [] sys_exec"
  "locks [] [] sys_pipe"
  unfolding sys_open_def sys_mkdir_def sys_mknod_def sys_chdir_def sys_exec_def sys_pipe_def
  by (rule locks_intros | simp add: lock_panics_def)+

lemma locks_count_call [locks_intros]: "ConsLock \<notin> set a \<Longrightarrow> locks a a (count_call n)"
  unfolding count_call_def
  by (rule locks_intros | simp)+

lemma locks_syscalls: "map_of syscalls n = Some call \<Longrightarrow> locks [] [] call"
  unfolding syscalls_def
  by (auto split: if_splits intro: locks_sysproc locks_sysfile_data locks_sysfile_paths locks_sys_link locks_sys_unlink)

lemma locks_syscall [locks_intros]: "locks [] [] syscall"
proof -
  have "locks [] [] (case (if c then map_of syscalls n else None) of
      Some call \<Rightarrow> kseq (count_call n) (kbind call f) | None \<Rightarrow> m)"
    if "\<And>r. locks [] [] (f r)" "locks [] [] m" for c n f m
    using that locks_syscalls
    by (auto split: option.split intro!: locks_kseq locks_kbind locks_count_call)
  note dispatch = this
  show ?thesis
    unfolding syscall_def Let_def by (rule dispatch locks_intros | simp)+
qed

section \<open>Traps\<close>

lemma locks_trap_parts [locks_intros]: 
  "locks [] [] (trap_syscall tf)"
  "locks [] [] timer_tick"
  "locks [] [] (trap_fault tf cr2)"
  "locks [] [] (trap_killed tf)"
  "locks [] [] (trap_yield tf)"
  unfolding trap_syscall_def exit_if_killed_def timer_tick_def trap_fault_def trap_killed_def trap_yield_def
  by (rule locks_intros | simp add: lock_panics_def)+

lemma locks_trap [locks_intros]: "locks [] [] (trap tf inp)"
  unfolding trap_def trap_device_def
  by (rule locks_intros | simp)+

section \<open>Resuming after a context switch\<close>

text \<open>The scheduler runs a process with \<open>ptable.lock\<close> held.\<close>

lemma locks_sleep_resume [locks_intros]: "locks [PtableLock] [lk] (sleep_resume p lk)"
  unfolding sleep_resume_def
  by (rule locksI) (simp add: krun)

lemma locks_wait_resume: "locks [PtableLock] [] (wait_resume p)"
  unfolding wait_resume_def wait_pass_def reap_def by (rule locks_intros | simp)+

lemma locks_resumes:
  "locks [PtableLock] [] (acquiresleep_resume p sl)" "locks [PtableLock] [] (begin_op_resume p)"
  "locks [PtableLock] [] (pipewrite_resume p q n bs)" "locks [PtableLock] [] (piperead_resume p q n)"
  "locks [PtableLock] [] (consoleread_resume p ip target k got)"
  "locks [PtableLock] [] (ide_rw_resume p b)"
  "locks [PtableLock] [] (sys_sleep_resume p t u)" "locks [PtableLock] [] (trap_resume tf)"
  unfolding acquiresleep_resume_def acquiresleep_loop_def begin_op_resume_def begin_op_loop_def
    pipewrite_resume_def piperead_resume_def piperead_loop_def consoleread_resume_def
    sys_sleep_resume_def sys_sleep_loop_def trap_resume_def ide_rw_resume_def
  by (rule locks_intros | simp)+

section \<open>Properties\<close>

text \<open>C6 (trap.c, spinlock.c, all handlers): the lock discipline of the kernel. A trap
  taken with no spin-lock held either returns with none held, or gives up the processor
  holding exactly \<open>ptable.lock\<close>; it never panics because a lock is acquired twice,
  released without being held, or held across a context switch. This covers every system
  call, fault and device interrupt, with either disk driver: that of the memory disk and
  that of the IDE disk, whose requests sleep under \<open>idelock\<close> and whose interrupt handler
  takes it. A process that the scheduler runs again, which it does with \<open>ptable.lock\<close>
  held, leaves its wait with no lock held; the waits are those of \<open>wait\<close>, \<open>sys_sleep\<close>, sleep-locks,
  \<open>begin_op\<close>, pipes, the console and the IDE disk, and the \<open>yield\<close> of the timer.\<close>

theorem kernel_lock_discipline:
  "locks [] [] (trap tf inp) \<and> locks [PtableLock] [] forkret \<and>
   locks [PtableLock] [] (trap_resume tf) \<and> locks [PtableLock] [] (wait_resume p) \<and>
   locks [PtableLock] [] (acquiresleep_resume p sl) \<and> locks [PtableLock] [] (begin_op_resume p) \<and>
   locks [PtableLock] [] (pipewrite_resume p q n bs) \<and> locks [PtableLock] [] (piperead_resume p q n) \<and>
   locks [PtableLock] [] (consoleread_resume p ip target k got) \<and>
   locks [PtableLock] [] (sys_sleep_resume p t u) \<and> locks [PtableLock] [] (ide_rw_resume p b)"
  by (intro conjI locks_trap locks_forkret locks_wait_resume locks_resumes)

end
