(* ===== verification/Invariants.thy ===== *)
theory Invariants
  imports Trap
begin

text \<open>
  Invariants of the process table through the whole kernel: a property of table
  entries with the laws of \<open>entry_inv\<close> is kept by every operation, up to \<open>trap\<close>. The two
  instances are the range of the priorities and the shape of the entries.
\<close>

lemma length_safestrcpy_from: "length (safestrcpy_from t i n) \<le> Suc n"
  by (induction t i n rule: safestrcpy_from.induct) auto

lemma length_safestrcpy: "length (safestrcpy t 16) \<le> 16"
  using length_safestrcpy_from [of t 0 15] by (simp add: safestrcpy_def)

context entry_inv
begin

lemma keeps_set_slock [keep_intros]: "keeps (tab_all I) (set_slock sl l)"
  unfolding set_slock_def by (rule keeps_tab_other) (simp split: slockid.split)

lemma keeps_acquiresleep [keep_intros]: "keeps (tab_all I) (acquiresleep sl)"
  unfolding acquiresleep_def acquiresleep_loop_def
  by (rule keep_intros | simp add: harmless_def)+

lemma keeps_initsleeplock [keep_intros]: "keeps (tab_all I) (initsleeplock sl)"
  unfolding initsleeplock_def
  by (rule keep_intros | simp add: harmless_def)+

lemma keeps_releasesleep [keep_intros]: "keeps (tab_all I) (releasesleep sl)"
  unfolding releasesleep_def
  by (rule keep_intros | simp add: harmless_def)+

lemma keeps_holdingsleep [keep_intros]: "keeps (tab_all I) (holdingsleep sl)"
  unfolding holdingsleep_def
  by (rule keep_intros | simp add: harmless_def)+

lemma keeps_bufs [keep_intros]: 
  "keeps (tab_all I) (get_buf b)"
  "keeps (tab_all I) (upd_buf b f)"
  "keeps (tab_all I) (disk_write n d)"
  "keeps (tab_all I) (set_next b c)"
  "keeps (tab_all I) (set_prev b c)"
  "keeps (tab_all I) (buf_data b)"
  "keeps (tab_all I) (set_data b d)"
  unfolding get_buf_def upd_buf_def disk_write_def set_next_def set_prev_def buf_data_def set_data_def
  by (rule keep_intros | simp add: harmless_def)+

lemma keeps_iderw [keep_intros]: "keeps (tab_all I) (iderw b)"
  unfolding iderw_def
  by (rule keep_intros | simp add: harmless_def)+

lemma keeps_ide [keep_intros]:
  "keeps (tab_all I) (idestart h)"
  "keeps (tab_all I) (ide_append b)"
  "keeps (tab_all I) (ide_wait b)"
  "keeps (tab_all I) (ide_rw b)"
  "keeps (tab_all I) (ideintr statuses data)"
  unfolding ide_rw_def ideintr_def ide_append_def ide_wait_def idestart_def
  by (rule keep_intros | simp add: harmless_def)+

lemma keeps_disk [keep_intros]:
  "keeps (tab_all I) (disk_rw b)"
  "keeps (tab_all I) (disk_intr statuses data)"
  unfolding disk_rw_def disk_intr_def ideintr_mem_def
  by (rule keep_intros | simp add: harmless_def)+

lemma keeps_bget [keep_intros]: "keeps (tab_all I) (bget dev n)"
  unfolding bget_def
  by (rule keep_intros | simp add: harmless_def)+

lemma keeps_bread [keep_intros]: "keeps (tab_all I) (bread dev n)"
  unfolding bread_def
  by (rule keep_intros | simp add: harmless_def)+

lemma keeps_bwrite [keep_intros]: "keeps (tab_all I) (bwrite b)"
  unfolding bwrite_def
  by (rule keep_intros | simp add: harmless_def)+

lemma keeps_brelse [keep_intros]: "keeps (tab_all I) (brelse b)"
  unfolding brelse_def
  by (rule keep_intros | simp add: harmless_def)+

lemma keeps_readsb [keep_intros]: "keeps (tab_all I) (readsb dev)"
  unfolding readsb_def
  by (rule keep_intros | simp add: harmless_def)+

lemma keeps_log_state [keep_intros]: 
  "keeps (tab_all I) (upd_log f)"
  "keeps (tab_all I) log_n"
  "keeps (tab_all I) (set_log_n n)"
  unfolding set_log_n_def upd_log_def log_n_def
  by (rule keep_intros | simp add: harmless_def)+

lemma keeps_install_trans [keep_intros]: "keeps (tab_all I) install_trans"
  unfolding install_trans_def
  by (rule keep_intros | simp add: harmless_def)+

lemma keeps_read_head [keep_intros]: "keeps (tab_all I) read_head"
  unfolding read_head_def
  by (rule keep_intros | simp add: harmless_def)+

lemma keeps_write_head [keep_intros]: "keeps (tab_all I) write_head"
  unfolding write_head_def
  by (rule keep_intros | simp add: harmless_def)+

lemma keeps_recover_from_log [keep_intros]: "keeps (tab_all I) recover_from_log"
  unfolding recover_from_log_def
  by (rule keep_intros | simp add: harmless_def)+

lemma keeps_initlog [keep_intros]: "keeps (tab_all I) (initlog dev)"
  unfolding initlog_def
  by (rule keep_intros | simp add: harmless_def)+

lemma keeps_begin_op [keep_intros]: "keeps (tab_all I) begin_op"
  unfolding begin_op_def begin_op_loop_def
  by (rule keep_intros | simp add: harmless_def)+

lemma keeps_write_log [keep_intros]: "keeps (tab_all I) write_log"
  unfolding write_log_def
  by (rule keep_intros | simp add: harmless_def)+

lemma keeps_commit [keep_intros]: "keeps (tab_all I) commit"
  unfolding commit_def
  by (rule keep_intros | simp add: harmless_def)+

lemma keeps_end_op [keep_intros]: "keeps (tab_all I) end_op"
  unfolding end_op_def
  by (rule keep_intros | simp add: harmless_def)+

lemma keeps_log_write [keep_intros]: "keeps (tab_all I) (log_write b)"
  unfolding log_write_def
  by (rule keep_intros | simp add: harmless_def)+

lemma keeps_inodes [keep_intros]: 
  "keeps (tab_all I) (get_inode i)"
  "keeps (tab_all I) (upd_inode i f)"
  unfolding get_inode_def upd_inode_def
  by (rule keep_intros | simp add: harmless_def)+

lemma keeps_bzero [keep_intros]: "keeps (tab_all I) (bzero dev n)"
  unfolding bzero_def
  by (rule keep_intros | simp add: harmless_def)+

lemma keeps_balloc_loop [keep_intros]: "keeps (tab_all I) (balloc_loop dev sb bs)"
  by (induction bs) ((simp, (rule keep_intros | simp add: harmless_def)+)+)

lemma keeps_balloc [keep_intros]: "keeps (tab_all I) (balloc dev)"
  unfolding balloc_def
  by (rule keep_intros | simp add: harmless_def)+

lemma keeps_bfree [keep_intros]: "keeps (tab_all I) (bfree dev b)"
  unfolding bfree_def
  by (rule keep_intros | simp add: harmless_def)+

lemma keeps_iinit [keep_intros]: "keeps (tab_all I) (iinit dev)"
  unfolding iinit_def
  by (rule keep_intros | simp add: harmless_def)+

lemma keeps_iget [keep_intros]: "keeps (tab_all I) (iget dev inum)"
  unfolding iget_def
  by (rule keep_intros | simp add: harmless_def)+

lemma keeps_idup [keep_intros]: "keeps (tab_all I) (idup ip)"
  unfolding idup_def
  by (rule keep_intros | simp add: harmless_def)+

lemma keeps_ialloc_loop [keep_intros]: "keeps (tab_all I) (ialloc_loop dev typ sb is)"
  by (induction "is") ((simp, (rule keep_intros | simp add: harmless_def)+)+)

lemma keeps_ialloc [keep_intros]: "keeps (tab_all I) (ialloc dev typ)"
  unfolding ialloc_def
  by (rule keep_intros | simp add: harmless_def)+

lemma keeps_iupdate [keep_intros]: "keeps (tab_all I) (iupdate ip)"
  unfolding iupdate_def
  by (rule keep_intros | simp add: harmless_def)+

lemma keeps_ilock [keep_intros]: "keeps (tab_all I) (ilock ip)"
  unfolding ilock_def
  by (rule keep_intros | simp add: harmless_def)+

lemma keeps_iunlock [keep_intros]: "keeps (tab_all I) (iunlock ip)"
  unfolding iunlock_def
  by (rule keep_intros | simp add: harmless_def)+

lemma keeps_bmap [keep_intros]: "keeps (tab_all I) (bmap ip bn)"
  unfolding bmap_def
  by (rule keep_intros | simp add: harmless_def)+

lemma keeps_itrunc [keep_intros]: "keeps (tab_all I) (itrunc ip)"
  unfolding itrunc_def
  by (rule keep_intros | simp add: harmless_def)+

lemma keeps_iput [keep_intros]: "keeps (tab_all I) (iput ip)"
  unfolding iput_def
  by (rule keep_intros | simp add: harmless_def)+

lemma keeps_iunlockput [keep_intros]: "keeps (tab_all I) (iunlockput ip)"
  unfolding iunlockput_def
  by (rule keep_intros | simp add: harmless_def)+

lemma keeps_console_state [keep_intros]: 
  "keeps (tab_all I) (consputc c)"
  "keeps (tab_all I) (upd_input g)"
  unfolding consputc_def upd_input_def
  by (rule keep_intros | simp add: harmless_def)+

lemma keeps_console_char [keep_intros]: "keeps (tab_all I) (console_char c)"
  unfolding console_char_def
  by (rule keep_intros | simp add: harmless_def)+

lemma keeps_consoleintr [keep_intros]: "keeps (tab_all I) (consoleintr cs)"
  unfolding consoleintr_def
  by (rule keep_intros | simp add: harmless_def)+

lemma keeps_kbdintr [keep_intros]: "keeps (tab_all I) (kbdintr scancodes)"
  unfolding kbdintr_def
  by (rule keep_intros | simp add: harmless_def)+

lemma keeps_uartintr [keep_intros]: "keeps (tab_all I) (uartintr cs)"
  unfolding uartintr_def
  by (rule keep_intros | simp add: harmless_def)+

lemma keeps_consoleread_loop [keep_intros]:
  "keeps (tab_all I) (consoleread_loop ip target n got)"
  by (induction n arbitrary: got) ((simp, (rule keep_intros | simp add: harmless_def)+)+)

lemma keeps_consoleread [keep_intros]: "keeps (tab_all I) (consoleread ip n)"
  unfolding consoleread_def
  by (rule keep_intros | simp add: harmless_def)+

lemma keeps_consolewrite [keep_intros]: "keeps (tab_all I) (consolewrite ip cs n)"
  unfolding consolewrite_def
  by (rule keep_intros | simp add: harmless_def)+

lemma keeps_readi_loop [keep_intros]: "keeps (tab_all I) (readi_loop ip cs)"
  by (induction ip cs rule: readi_loop.induct) ((simp, (rule keep_intros | simp add: harmless_def)+)+)

lemma keeps_readi [keep_intros]: "keeps (tab_all I) (readi ip off n)"
  unfolding readi_def
  by (rule keep_intros | simp add: harmless_def)+

lemma keeps_writei_loop [keep_intros]: "keeps (tab_all I) (writei_loop ip cs src)"
  by (induction ip cs src rule: writei_loop.induct) ((simp, (rule keep_intros | simp add: harmless_def)+)+)

lemma keeps_writei [keep_intros]: "keeps (tab_all I) (writei ip src off n)"
  unfolding writei_def
  by (rule keep_intros | simp add: harmless_def)+

lemma keeps_stati [keep_intros]: "keeps (tab_all I) (stati ip)"
  unfolding stati_def
  by (rule keep_intros | simp add: harmless_def)+

lemma keeps_dirlookup_loop [keep_intros]: "keeps (tab_all I) (dirlookup_loop dp name offs)"
  by (induction offs) ((simp, (rule keep_intros | simp add: harmless_def)+)+)

lemma keeps_dirlookup [keep_intros]: "keeps (tab_all I) (dirlookup dp name)"
  unfolding dirlookup_def
  by (rule keep_intros | simp add: harmless_def)+

lemma keeps_dirlink_loop [keep_intros]: "keeps (tab_all I) (dirlink_loop dp e offs)"
  by (induction offs arbitrary: e) ((simp, (rule keep_intros | simp add: harmless_def)+)+)

lemma keeps_dirlink [keep_intros]: "keeps (tab_all I) (dirlink dp name inum)"
  unfolding dirlink_def
  by (rule keep_intros | simp add: harmless_def)+

lemma keeps_namex_loop [keep_intros]: "keeps (tab_all I) (namex_loop ip parent name es)"
proof (induction es arbitrary: ip name)
  case Nil
  show ?case unfolding namex_loop.simps by (rule keep_intros | simp add: harmless_def)+
next
  case (Cons e es)
  show ?case
    by (cases e, simp only: namex_loop.simps) (rule keep_intros Cons | simp add: harmless_def)+
qed

lemma keeps_namex [keep_intros]: "keeps (tab_all I) (namex path parent)"
  unfolding namex_def
  by (rule keep_intros | simp add: harmless_def)+

lemma keeps_namei [keep_intros]: 
  "keeps (tab_all I) (namei path)"
  "keeps (tab_all I) (nameiparent path)"
  unfolding namei_def nameiparent_def
  by (rule keep_intros | simp add: harmless_def)+

lemma keeps_pipes [keep_intros]: 
  "keeps (tab_all I) (get_pipe p)"
  "keeps (tab_all I) (upd_pipe p f)"
  unfolding get_pipe_def upd_pipe_def
  by (rule keep_intros | simp add: harmless_def)+

lemma keeps_pipeclose [keep_intros]: "keeps (tab_all I) (pipeclose p w)"
  unfolding pipeclose_def
  by (rule keep_intros | simp add: harmless_def)+

lemma keeps_pipewrite_loop [keep_intros]: "keeps (tab_all I) (pipewrite_loop p n bs)"
  by (induction bs) ((simp, (rule keep_intros | simp add: harmless_def)+)+)

lemma keeps_pipewrite [keep_intros]: "keeps (tab_all I) (pipewrite p bs n)"
  unfolding pipewrite_def
  by (rule keep_intros | simp add: harmless_def)+

lemma keeps_piperead [keep_intros]: "keeps (tab_all I) (piperead p n)"
  unfolding piperead_def piperead_loop_def
  by (rule keep_intros | simp add: harmless_def)+

lemma keeps_files [keep_intros]: 
  "keeps (tab_all I) (get_file f)"
  "keeps (tab_all I) (upd_file f g)"
  unfolding get_file_def upd_file_def
  by (rule keep_intros | simp add: harmless_def)+

lemma keeps_filealloc [keep_intros]: "keeps (tab_all I) filealloc"
  unfolding filealloc_def
  by (rule keep_intros | simp add: harmless_def)+

lemma keeps_filedup [keep_intros]: "keeps (tab_all I) (filedup f)"
  unfolding filedup_def
  by (rule keep_intros | simp add: harmless_def)+

lemma keeps_fileclose [keep_intros]: "keeps (tab_all I) (fileclose f)"
  unfolding fileclose_def
  by (rule keep_intros | simp add: harmless_def)+

lemma keeps_filestat [keep_intros]: "keeps (tab_all I) (filestat f)"
  unfolding filestat_def
  by (rule keep_intros | simp add: harmless_def)+

lemma keeps_fileread [keep_intros]: "keeps (tab_all I) (fileread f n)"
  unfolding fileread_def
  by (rule keep_intros | simp add: harmless_def)+

lemma keeps_filewrite_loop [keep_intros]: "keeps (tab_all I) (filewrite_loop f ip cs i)"
  by (induction cs arbitrary: i) ((simp, (rule keep_intros | simp add: harmless_def)+)+)

lemma keeps_filewrite [keep_intros]: "keeps (tab_all I) (filewrite f bs n)"
  unfolding filewrite_def
  by (rule keep_intros | simp add: harmless_def)+

lemma keeps_pipealloc [keep_intros]: "keeps (tab_all I) pipealloc"
  unfolding pipealloc_def pipealloc_bad_def
  by (rule keep_intros | simp add: harmless_def)+

lemma keeps_set_name [keep_intros]: "keeps (tab_all I) (set_name p t)"
  unfolding set_name_def
  by (rule keep_intros) (simp add: harmless_def put_bytes_def length_safestrcpy)

lemma keeps_fork [keep_intros]: "keeps (tab_all I) fork"
  unfolding fork_def
  by (rule keep_intros | simp add: harmless_def)+

lemma keeps_exit_files [keep_intros]: "keeps (tab_all I) (exit_files p)"
  unfolding exit_files_def
  by (rule keep_intros | simp add: harmless_def)+

lemma keeps_exit_children [keep_intros]: "keeps (tab_all I) (exit_children p)"
  unfolding exit_children_def
  by (rule keep_intros | simp add: harmless_def)+

lemma keeps_exit [keep_intros]: "keeps (tab_all I) exit"
  unfolding exit_def
  by (rule keep_intros | simp add: harmless_def)+

lemma keeps_forkret [keep_intros]: "keeps (tab_all I) forkret"
  unfolding forkret_def
  by (rule keep_intros | simp add: harmless_def)+

lemma keeps_loaduvm_loop [keep_intros]: "keeps (tab_all I) (loaduvm_loop d addr ip offset sz is)"
proof (induction "is")
  case Nil
  show ?case by (simp add: keeps_kret)
next
  case (Cons x xs)
  show ?case unfolding loaduvm_loop.simps by (rule keep_intros Cons | simp add: harmless_def)+
qed

lemma keeps_loaduvm [keep_intros]: "keeps (tab_all I) (loaduvm d addr ip offset sz)"
  unfolding loaduvm_def
  by (rule keep_intros | simp add: harmless_def)+

lemma keeps_exec_load [keep_intros]: "keeps (tab_all I) (exec_load d ip offs sz)"
  by (induction offs arbitrary: sz) ((simp, (rule keep_intros | simp add: harmless_def)+)+)

lemma keeps_exec_args [keep_intros]: "keeps (tab_all I) (exec_args d argv sp ustack)"
proof (induction argv arbitrary: sp ustack)
  case Nil
  show ?case by (simp add: keeps_kret)
next
  case (Cons x xs)
  show ?case unfolding exec_args.simps by (rule keep_intros Cons | simp add: harmless_def)+
qed

lemma keeps_exec_parts [keep_intros]: 
  "keeps (tab_all I) (exec_stack d argv sz)"
  "keeps (tab_all I) (exec_image d ip elf)"
  "keeps (tab_all I) (exec_commit path d sz entry sp)"
  "keeps (tab_all I) (exec_bad d r)"
  unfolding exec_stack_def exec_image_def exec_commit_def exec_bad_def
  by (rule keep_intros | simp add: harmless_def)+

lemma keeps_exec [keep_intros]: "keeps (tab_all I) (exec path argv)"
  unfolding exec_def
  by (rule keep_intros | simp add: harmless_def)+

lemma keeps_uload [keep_intros]: 
  "keeps (tab_all I) (uload va)"
  "keeps (tab_all I) (ustore va b)"
  unfolding uload_def ustore_def
  by (rule keep_intros | simp add: harmless_def)+

lemma keeps_uload_bytes [keep_intros]: "keeps (tab_all I) (uload_bytes va n)"
proof (induction n arbitrary: va)
  case 0
  show ?case by (simp add: keeps_kret)
next
  case (Suc n)
  show ?case unfolding uload_bytes.simps by (rule keep_intros Suc | simp add: harmless_def)+
qed

lemma keeps_ustore_bytes [keep_intros]: "keeps (tab_all I) (ustore_bytes va bs)"
  by (induction bs arbitrary: va) ((simp, (rule keep_intros | simp add: harmless_def)+)+)

lemma keeps_uload32 [keep_intros]: "keeps (tab_all I) (uload32 va)"
  unfolding uload32_def
  by (rule keep_intros | simp add: harmless_def)+

lemma keeps_fetchint [keep_intros]: "keeps (tab_all I) (fetchint addr)"
  unfolding fetchint_def
  by (rule keep_intros | simp add: harmless_def)+

lemma keeps_fetchstr_loop [keep_intros]: "keeps (tab_all I) (fetchstr_loop va n)"
proof (induction n arbitrary: va)
  case 0
  show ?case by (simp add: keeps_kret)
next
  case (Suc n)
  show ?case unfolding fetchstr_loop.simps by (rule keep_intros Suc | simp add: harmless_def)+
qed

lemma keeps_args [keep_intros]: 
  "keeps (tab_all I) (fetchstr addr)"
  "keeps (tab_all I) (argint n)"
  "keeps (tab_all I) (argptr n sz)"
  "keeps (tab_all I) (argstr n)"
  unfolding argptr_def argstr_def fetchstr_def argint_def
  by (rule keep_intros | simp add: harmless_def)+

lemma keeps_sysproc [keep_intros]: 
  "keeps (tab_all I) sys_add"
  "keeps (tab_all I) sys_setpriority"
  "keeps (tab_all I) sys_getpriority"
  "keeps (tab_all I) sys_toggle"
  "keeps (tab_all I) sys_ps"
  "keeps (tab_all I) sys_fork"
  "keeps (tab_all I) sys_exit"
  "keeps (tab_all I) sys_wait"
  "keeps (tab_all I) sys_kill"
  "keeps (tab_all I) sys_getpid"
  "keeps (tab_all I) sys_sbrk"
  "keeps (tab_all I) sys_sleep"
  "keeps (tab_all I) sys_uptime"
  unfolding sys_add_def sys_setpriority_def sys_getpriority_def sys_toggle_def sys_ps_def sys_fork_def sys_exit_def sys_wait_def sys_kill_def sys_getpid_def sys_sbrk_def sys_sleep_def sys_sleep_loop_def sys_uptime_def
  by (rule keep_intros | simp add: harmless_def)+

lemma keeps_descriptors [keep_intros]: 
  "keeps (tab_all I) (argfd n)"
  "keeps (tab_all I) (fdalloc f)"
  "keeps (tab_all I) (clear_fd fd)"
  "keeps (tab_all I) rw_args"
  unfolding rw_args_def argfd_def fdalloc_def clear_fd_def
  by (rule keep_intros | simp add: harmless_def)+

lemma keeps_store_stat [keep_intros]: "keeps (tab_all I) (store_stat addr st)"
  unfolding store_stat_def
  by (rule keep_intros | simp add: harmless_def)+

lemma keeps_sysfile_data [keep_intros]: 
  "keeps (tab_all I) sys_dup"
  "keeps (tab_all I) sys_read"
  "keeps (tab_all I) sys_write"
  "keeps (tab_all I) sys_close"
  "keeps (tab_all I) sys_fstat"
  unfolding sys_dup_def sys_read_def sys_write_def sys_close_def sys_fstat_def
  by (rule keep_intros | simp add: harmless_def)+

lemma keeps_add_nlink [keep_intros]: "keeps (tab_all I) (add_nlink ip d)"
  unfolding add_nlink_def
  by (rule keep_intros | simp add: harmless_def)+

lemma keeps_link_inode [keep_intros]: 
  "keeps (tab_all I) (link_inode ip new)"
  "keeps (tab_all I) (sys_link_bad ip)"
  unfolding link_inode_def sys_link_bad_def
  by (rule keep_intros | simp add: harmless_def)+

lemma keeps_sys_link [keep_intros]: "keeps (tab_all I) sys_link"
  unfolding sys_link_def
  by (rule keep_intros | simp add: harmless_def)+

lemma keeps_isdirempty_loop [keep_intros]: "keeps (tab_all I) (isdirempty_loop dp offs)"
  by (induction offs) ((simp, (rule keep_intros | simp add: harmless_def)+)+)

lemma keeps_unlink [keep_intros]: 
  "keeps (tab_all I) (isdirempty dp)"
  "keeps (tab_all I) (unlink_bad dp)"
  "keeps (tab_all I) (unlink_entry dp ip off)"
  unfolding isdirempty_def unlink_bad_def unlink_entry_def
  by (rule keep_intros | simp add: harmless_def)+

lemma keeps_sys_unlink [keep_intros]: "keeps (tab_all I) sys_unlink"
  unfolding sys_unlink_def
  by (rule keep_intros | simp add: harmless_def)+

lemma keeps_create_new [keep_intros]: "keeps (tab_all I) (create_new dp name typ major minor)"
  unfolding create_new_def
  by (rule keep_intros | simp add: harmless_def)+

lemma keeps_create [keep_intros]: "keeps (tab_all I) (create path typ major minor)"
  unfolding create_def
  by (rule keep_intros | simp add: harmless_def)+

lemma keeps_open [keep_intros]: 
  "keeps (tab_all I) (open_inode path omode)"
  "keeps (tab_all I) (open_file ip omode)"
  unfolding open_inode_def open_file_def
  by (rule keep_intros | simp add: harmless_def)+

lemma keeps_close_created [keep_intros]: "keeps (tab_all I) (close_created r)"
  unfolding close_created_def
  by (rule keep_intros | simp add: harmless_def)+

lemma keeps_fetch_argv [keep_intros]: "keeps (tab_all I) (fetch_argv uargv n)"
proof (induction n arbitrary: uargv)
  case 0
  show ?case by (simp add: keeps_kret)
next
  case (Suc n)
  show ?case unfolding fetch_argv.simps by (rule keep_intros Suc | simp add: harmless_def)+
qed

lemma keeps_sysfile_paths [keep_intros]: 
  "keeps (tab_all I) sys_open"
  "keeps (tab_all I) sys_mkdir"
  "keeps (tab_all I) sys_mknod"
  "keeps (tab_all I) sys_chdir"
  "keeps (tab_all I) sys_exec"
  "keeps (tab_all I) sys_pipe"
  unfolding sys_open_def sys_mkdir_def sys_mknod_def sys_chdir_def sys_exec_def sys_pipe_def
  by (rule keep_intros | simp add: harmless_def)+

lemma keeps_count_call [keep_intros]: "keeps (tab_all I) (count_call n)"
  unfolding count_call_def
  by (rule keep_intros | simp add: harmless_def)+

lemma keeps_syscalls: "map_of syscalls n = Some call \<Longrightarrow> keeps (tab_all I) call"
  unfolding syscalls_def
  by (auto split: if_splits intro: keeps_sysproc keeps_sysfile_data keeps_sysfile_paths keeps_sys_link keeps_sys_unlink)

lemma keeps_syscall [keep_intros]: "keeps (tab_all I) syscall"
proof -
  have "keeps (tab_all I) (case (if c then map_of syscalls n else None) of
      Some call \<Rightarrow> kseq (count_call n) (kbind call f) | None \<Rightarrow> m)"
    if "\<And>r. keeps (tab_all I) (f r)" "keeps (tab_all I) m" for c n f m
    using that keeps_syscalls
    by (auto split: option.split intro!: keeps_kseq keeps_kbind keeps_count_call)
  note dispatch = this
  show ?thesis
    unfolding syscall_def Let_def by (rule dispatch keep_intros | simp add: harmless_def)+
qed

lemma keeps_trap_parts [keep_intros]: 
  "keeps (tab_all I) (trap_syscall tf)"
  "keeps (tab_all I) timer_tick"
  "keeps (tab_all I) (trap_fault tf cr2)"
  "keeps (tab_all I) (trap_killed tf)"
  "keeps (tab_all I) (trap_yield tf)"
  unfolding trap_syscall_def exit_if_killed_def timer_tick_def trap_fault_def trap_killed_def trap_yield_def
  by (rule keep_intros | simp add: harmless_def)+

lemma keeps_trap [keep_intros]: "keeps (tab_all I) (trap tf inp)"
  unfolding trap_def trap_device_def
  by (rule keep_intros | simp add: harmless_def)+


lemma keeps_resumes [keep_intros]:
  "keeps (tab_all I) (acquiresleep_resume p sl)" "keeps (tab_all I) (begin_op_resume p)"
  "keeps (tab_all I) (pipewrite_resume p q n bs)" "keeps (tab_all I) (piperead_resume p q n)"
  "keeps (tab_all I) (consoleread_resume p ip target k got)"
  "keeps (tab_all I) (ide_rw_resume p b)"
  "keeps (tab_all I) (sys_sleep_resume p t u)" "keeps (tab_all I) (trap_resume tf)"
  unfolding acquiresleep_resume_def acquiresleep_loop_def begin_op_resume_def begin_op_loop_def
    pipewrite_resume_def piperead_resume_def piperead_loop_def consoleread_resume_def
    sys_sleep_resume_def sys_sleep_loop_def trap_resume_def ide_rw_resume_def
  by (rule keep_intros | simp add: harmless_def)+

end

section \<open>Properties\<close>

lemma tab_all_kernel0: "I proc0 \<Longrightarrow> tab_all I (kernel0 m e d dk)"
  by (simp add: tab_all_def kernel0_def list_all_length)

text \<open>C7 (proc.c, proc_3.c, trap.c): priorities stay in range. In the initial state, and
  after every trap (system calls, timer, devices, faults), every first run of a child,
  every step of either scheduler, and every resumption of a process that slept in
  \<open>wait\<close>, \<open>sys_sleep\<close>, on a sleep-lock, in \<open>begin_op\<close>, on a pipe, the console or the IDE disk, or
  that had yielded, each slot with a process id has a priority from 1 to 20 and an aging
  counter below 50.\<close>

theorem priorities_in_range:
  "tab_all prio_ok (kernel0 m e d dk) \<and>
   keeps (tab_all prio_ok) (trap tf inp) \<and> keeps (tab_all prio_ok) forkret \<and>
   keeps (tab_all prio_ok) (scheduler c) \<and> keeps (tab_all prio_ok) scheduler_back \<and>
   keeps (tab_all prio_ok) scheduler_back_3 \<and> keeps (tab_all prio_ok) (wait_resume p) \<and>
   keeps (tab_all prio_ok) (sys_sleep_resume p t u) \<and> keeps (tab_all prio_ok) (trap_resume tf) \<and>
   keeps (tab_all prio_ok) (acquiresleep_resume p sl) \<and> keeps (tab_all prio_ok) (begin_op_resume p) \<and>
   keeps (tab_all prio_ok) (pipewrite_resume p q n bs) \<and> keeps (tab_all prio_ok) (piperead_resume p q n) \<and>
   keeps (tab_all prio_ok) (consoleread_resume p ip target k got) \<and>
   keeps (tab_all prio_ok) (ide_rw_resume p b)"
  by (intro conjI tab_all_kernel0 keep_intros) (simp add: prio_ok_def proc0_def)

text \<open>The arrays in the entries of the process table, file descriptors and name, keep their
  16 elements, the hypothesis of the properties of the descriptor functions.\<close>

lemma entries_keep_shape:
  "tab_all proc_shape (kernel0 m e d dk)" "keeps (tab_all proc_shape) (trap tf inp)"
  "keeps (tab_all proc_shape) forkret" "keeps (tab_all proc_shape) (scheduler c)"
  "keeps (tab_all proc_shape) scheduler_back" "keeps (tab_all proc_shape) scheduler_back_3"
  by (intro tab_all_kernel0 keep_intros; simp add: proc_shape_def proc0_def)+

end
