(* ===== verification/Cache.thy ===== *)
theory Cache
  imports Bio
begin

text \<open>
  The block cache (\<open>bio.c\<close>) over the memory disk. The buffers form a doubly linked
  list in order of use; a block is in at most one buffer; a clean buffer holds what
  the disk holds. The \<^emph>\<open>view\<close> of a block is what a reader of the cache sees. \<open>bread\<close> hands
  out the view and changes nothing of it, \<open>bwrite\<close> makes the disk follow.
\<close>

section \<open>Linked lists\<close>

primrec linked :: "(nat \<Rightarrow> nat) \<Rightarrow> nat \<Rightarrow> nat list \<Rightarrow> nat \<Rightarrow> bool" where
  "linked f a [] b \<longleftrightarrow> f a = b"
| "linked f a (x # xs) b \<longleftrightarrow> f a = x \<and> linked f x xs b"

lemma linked_append:
  "linked f a (xs @ y # ys) b \<longleftrightarrow> linked f a xs y \<and> linked f y ys b"
  by (induction xs arbitrary: a) auto

lemma linked_cong:
  "(\<And>j. j \<in> set (a # xs) \<Longrightarrow> f j = g j) \<Longrightarrow> linked f a xs b \<longleftrightarrow> linked g a xs b"
  by (induction xs arbitrary: a) auto

lemma linked_first: "linked f a xs b \<Longrightarrow> f a = hd (xs @ [b])"
  by (cases xs) auto

lemma linked_upd: "c \<notin> set (a # xs) \<Longrightarrow> linked (f(c := d)) a xs b \<longleftrightarrow> linked f a xs b"
  by (rule linked_cong) auto

text \<open>The last node can be linked to another one.\<close>

lemma linked_relink:
  "distinct (a # xs) \<Longrightarrow> linked f a xs b \<Longrightarrow> linked (f(last (a # xs) := c)) a xs c"
proof (induction xs arbitrary: a)
  case (Cons x xs)
  have "linked (f(last (x # xs) := c)) x xs c"
    by (rule Cons.IH) (use Cons.prems in simp_all)
  moreover have "a \<noteq> last (x # xs)" using Cons.prems(1) last_in_set [of "x # xs"] by auto
  moreover have e: "last (a # x # xs) = last (x # xs)" by simp
  ultimately show ?case
    unfolding e linked.simps using Cons.prems(2) by (simp only: fun_upd_other linked.simps simp_thms)
qed simp

text \<open>A circular doubly linked list through \<open>h\<close>.\<close>

definition circular :: "(nat \<Rightarrow> nat) \<Rightarrow> (nat \<Rightarrow> nat) \<Rightarrow> nat \<Rightarrow> nat list \<Rightarrow> bool" where
  "circular n p h xs \<longleftrightarrow> distinct (h # xs) \<and> linked n h xs h \<and> linked p h (rev xs) h"

lemma circular_unlink:
  assumes c: "circular n p h (as @ b # bs)"
  shows "circular (n(p b := n b)) (p(n b := p b)) h (as @ bs)"
    and "p b = last (h # as)" and "n b = hd (bs @ [h])"
proof -
  from c have d: "distinct (h # as @ b # bs)"
    and n: "linked n h as b" "linked n b bs h"
    and p: "linked p h (rev bs) b" "linked p b (rev as) h"
    by (simp_all add: circular_def linked_append)
  show nb: "n b = hd (bs @ [h])" by (rule linked_first [OF n(2)])
  show pb: "p b = last (h # as)"
    using linked_first [OF p(2)] by (simp add: hd_append hd_rev)
  have l: "last (h # rev bs) = hd (bs @ [h])"
    by (cases bs) simp_all
  have "linked (n(p b := n b)) h (as @ bs) h"
  proof (cases bs)
    case Nil
    with linked_relink [OF _ n(1), of "n b"] d nb pb show ?thesis by simp
  next
    case (Cons x xs)
    with linked_relink [OF _ n(1), of "n b"] d nb pb have "linked (n(p b := n b)) h as x" by simp
    moreover have "p b \<notin> set bs"
      unfolding pb using d last_in_set [of "h # as"] by auto
    then have "linked (n(p b := n b)) x xs h"
      using n(2) Cons linked_upd [of "p b" x xs n "n b" h] by simp
    ultimately show ?thesis by (simp add: Cons linked_append)
  qed
  moreover have "linked (p(n b := p b)) h (rev (as @ bs)) h"
  proof (cases as rule: rev_cases)
    case Nil
    with linked_relink [OF _ p(1), of "p b"] d nb pb l show ?thesis by simp
  next
    case (snoc xs x)
    with linked_relink [OF _ p(1), of "p b"] d nb pb l
    have "linked (p(n b := p b)) h (rev bs) x" by simp
    moreover have "n b \<notin> set as"
      unfolding nb using d by (cases bs) auto
    then have "linked (p(n b := p b)) x (rev xs) h"
      using p(2) snoc linked_upd [of "n b" x "rev xs" p "p b" h] by simp
    ultimately show ?thesis by (simp add: snoc linked_append)
  qed
  ultimately show "circular (n(p b := n b)) (p(n b := p b)) h (as @ bs)"
    using d by (simp add: circular_def)
qed

lemma circular_push:
  assumes c: "circular n p h xs" and b: "b \<notin> set (h # xs)"
  shows "circular (n(b := n h, h := b)) (p(b := h, n h := b)) h (b # xs)"
proof -
  from c have d: "distinct (h # xs)" and n: "linked n h xs h" and p: "linked p h (rev xs) h"
    by (simp_all add: circular_def)
  have nh: "n h = hd (xs @ [h])" by (rule linked_first [OF n])
  have "linked (n(b := n h, h := b)) h (b # xs) h"
  proof (cases xs)
    case Nil
    with n b show ?thesis by auto
  next
    case (Cons x ys)
    with d b have "linked (n(b := n h, h := b)) x ys h \<longleftrightarrow> linked n x ys h"
      by (intro linked_cong) auto
    with n Cons b show ?thesis by auto
  qed
  moreover have "linked (p(b := h, n h := b)) h (rev (b # xs)) h"
  proof -
    have "last (h # rev xs) = n h" using nh by (cases xs) simp_all
    then have "linked (p(n h := b)) h (rev xs) b"
      using linked_relink [OF _ p, of b] d by simp
    moreover have "linked (p(b := h, n h := b)) h (rev xs) b \<longleftrightarrow> linked (p(n h := b)) h (rev xs) b"
      using b by (intro linked_cong) auto
    ultimately have "linked (p(b := h, n h := b)) h (rev xs) b" by simp
    moreover have "n h \<noteq> b" using nh b by (cases xs) auto
    ultimately show ?thesis by (simp add: linked_append)
  qed
  ultimately show ?thesis using d b by (simp add: circular_def)
qed

section \<open>Running the buffer operations\<close>

lemma buf_runs [krun]:
  "get_buf b s = Ok (k_bcache s ! b) s"
  "upd_buf b f s = Ok () (s\<lparr>k_bcache := (k_bcache s)[b := f (k_bcache s ! b)]\<rparr>)"
  "buf_data b s = Ok (b_data (k_bcache s ! b)) s"
  by (simp_all add: get_buf_def upd_buf_def buf_data_def krun)

abbreviation blocked :: "buf \<Rightarrow> bool" where
  "blocked q \<equiv> sl_locked (b_lock q)"

lemma acquiresleep_run:
  assumes "SleepLk (BufSleep b) \<notin> set (k_held s)" "k_curproc s = Some p" "\<not> blocked (k_bcache s ! b)"
  shows "acquiresleep (BufSleep b) s =
    Ok () (s\<lparr>k_bcache := (k_bcache s)[b := (k_bcache s ! b)\<lparr>b_lock := \<lparr>sl_locked = True, sl_pid = p_pid (k_ptable s ! p)\<rparr>\<rparr>]\<rparr>)"
  using assms
  by (simp add: acquiresleep_def acquiresleep_loop_def get_slock_def set_slock_def curproc_def krun)

lemma holdingsleep_run:
  assumes "SleepLk (BufSleep b) \<notin> set (k_held s)"
  shows "holdingsleep (BufSleep b) s = Ok (blocked (k_bcache s ! b)) s"
  using assms by (simp add: holdingsleep_def get_slock_def krun)

lemma releasesleep_run:
  assumes "SleepLk (BufSleep b) \<notin> set (k_held s)" "PtableLock \<notin> set (k_held s)"
  shows "releasesleep (BufSleep b) s =
    Ok () (s\<lparr>k_bcache := (k_bcache s)[b := (k_bcache s ! b)\<lparr>b_lock := \<lparr>sl_locked = False, sl_pid = 0\<rparr>\<rparr>],
      k_ptable := map (wake (Some (ChanSleep (BufSleep b)))) (k_ptable s)\<rparr>)"
  using assms by (simp add: releasesleep_def set_slock_def wakeup_def wakeup1_def krun)

text \<open>The flags of a buffer.\<close>

definition valid :: "buf \<Rightarrow> bool" where
  "valid q \<longleftrightarrow> b_flags q AND B_VALID \<noteq> 0"

definition dirty :: "buf \<Rightarrow> bool" where
  "dirty q \<longleftrightarrow> b_flags q AND B_DIRTY \<noteq> 0"

lemma valid_bit: "valid q \<longleftrightarrow> bit (b_flags q) 1"
  using and_exp_eq_0_iff_not_bit [of "b_flags q" 1] by (simp add: valid_def)

lemma dirty_bit: "dirty q \<longleftrightarrow> bit (b_flags q) 2"
  using and_exp_eq_0_iff_not_bit [of "b_flags q" 2] by (simp add: dirty_def)

lemma and_two_bits:
  fixes a :: u32
  assumes "m < 32" "k < 32" "m \<noteq> k"
  shows "a AND (2 ^ m OR 2 ^ k) = 2 ^ m \<longleftrightarrow> bit a m \<and> \<not> bit a k"
proof
  assume e: "a AND (2 ^ m OR 2 ^ k) = 2 ^ m"
  have "bit (a AND (2 ^ m OR 2 ^ k)) m" "\<not> bit (a AND (2 ^ m OR 2 ^ k)) k"
    unfolding e using assms by (simp_all add: bit_exp_iff)
  with assms show "bit a m \<and> \<not> bit a k" by (simp add: bit_and_iff bit_or_iff bit_exp_iff)
next
  assume h: "bit a m \<and> \<not> bit a k"
  show "a AND (2 ^ m OR 2 ^ k) = 2 ^ m"
  proof (rule bit_word_eqI)
    fix n
    show "bit (a AND (2 ^ m OR 2 ^ k)) n \<longleftrightarrow> bit ((2 :: u32) ^ m) n"
      using h by (cases "n = m"; cases "n = k") (simp_all add: bit_and_iff bit_or_iff bit_exp_iff)
  qed
qed

lemma clean_flags: "b_flags q AND (B_VALID OR B_DIRTY) = B_VALID \<longleftrightarrow> valid q \<and> \<not> dirty q"
  using and_two_bits [of 1 2 "b_flags q"] by (simp add: valid_bit dirty_bit)

lemma flag_updates [simp]:
  "valid (q\<lparr>b_flags := b_flags q OR B_VALID\<rparr>)"
  "dirty (q\<lparr>b_flags := b_flags q OR B_VALID\<rparr>) \<longleftrightarrow> dirty q"
  "valid (q\<lparr>b_flags := b_flags q OR B_DIRTY\<rparr>) \<longleftrightarrow> valid q"
  "dirty (q\<lparr>b_flags := b_flags q OR B_DIRTY\<rparr>)"
  "valid (q\<lparr>b_flags := b_flags q AND NOT B_DIRTY\<rparr>) \<longleftrightarrow> valid q"
  "\<not> dirty (q\<lparr>b_flags := b_flags q AND NOT B_DIRTY\<rparr>)"
  "\<not> valid (q\<lparr>b_flags := 0\<rparr>)" "\<not> dirty (q\<lparr>b_flags := 0\<rparr>)"
  by (simp_all add: valid_bit dirty_bit bit_or_iff bit_and_iff bit_not_iff)

section \<open>The invariant of the cache\<close>

text \<open>The buffers in order of use, most recent first.\<close>

definition lru :: "buf list \<Rightarrow> nat list \<Rightarrow> bool" where
  "lru B xs \<longleftrightarrow> set xs = {0..<NBUF} \<and>
     circular (\<lambda>j. b_next (B ! j)) (\<lambda>j. b_prev (B ! j)) bhead xs"

text \<open>A buffer that holds block \<open>n\<close> of the disk.\<close>

definition has_block :: "buf \<Rightarrow> u32 \<Rightarrow> bool" where
  "has_block q n \<longleftrightarrow> b_dev q = 1 \<and> b_blockno q = n"

text \<open>A dirty buffer holds a valid block of the disk; a buffer is in use when it is
  locked, and nobody waits for it.\<close>

definition entry_ok :: "buf \<Rightarrow> bool" where
  "entry_ok q \<longleftrightarrow> (dirty q \<longrightarrow> valid q \<and> b_dev q = 1) \<and>
     b_refcnt q = (if blocked q then 1 else 0)"

definition cache_ok :: "kernel \<Rightarrow> bool" where
  "cache_ok s \<longleftrightarrow> length (k_bcache s) = Suc NBUF \<and> (\<exists>xs. lru (k_bcache s) xs) \<and>
     (\<forall>i<NBUF. entry_ok (k_bcache s ! i)) \<and>
     (\<forall>i<NBUF. \<forall>j<NBUF. \<forall>n. has_block (k_bcache s ! i) n \<and> has_block (k_bcache s ! j) n \<longrightarrow> i = j) \<and>
     (\<forall>i<NBUF. \<forall>n. has_block (k_bcache s ! i) n \<and> valid (k_bcache s ! i) \<and> \<not> dirty (k_bcache s ! i) \<longrightarrow>
        b_data (k_bcache s ! i) = k_disk s n)"

definition view :: "kernel \<Rightarrow> u32 \<Rightarrow> u8 list" where
  "view s n =
     (case find (\<lambda>i. has_block (k_bcache s ! i) n \<and> valid (k_bcache s ! i)) [0..<NBUF] of
        Some i \<Rightarrow> b_data (k_bcache s ! i) | None \<Rightarrow> k_disk s n)"

lemma cache_okD:
  assumes "cache_ok s"
  shows "length (k_bcache s) = Suc NBUF" "\<exists>xs. lru (k_bcache s) xs"
    "i < NBUF \<Longrightarrow> entry_ok (k_bcache s ! i)"
    "i < NBUF \<Longrightarrow> j < NBUF \<Longrightarrow> has_block (k_bcache s ! i) n \<Longrightarrow> has_block (k_bcache s ! j) n \<Longrightarrow> i = j"
    "i < NBUF \<Longrightarrow> has_block (k_bcache s ! i) n \<Longrightarrow> valid (k_bcache s ! i) \<Longrightarrow> \<not> dirty (k_bcache s ! i) \<Longrightarrow>
       b_data (k_bcache s ! i) = k_disk s n"
  using assms unfolding cache_ok_def by blast+

lemma view_hit:
  assumes ok: "cache_ok s" and i: "i < NBUF" "has_block (k_bcache s ! i) n" "valid (k_bcache s ! i)"
  shows "view s n = b_data (k_bcache s ! i)"
proof -
  let ?P = "\<lambda>i. has_block (k_bcache s ! i) n \<and> valid (k_bcache s ! i)"
  obtain j where j: "find ?P [0..<NBUF] = Some j"
    using i by (cases "find ?P [0..<NBUF]") (auto simp: find_None_iff)
  then have "j < NBUF" "has_block (k_bcache s ! j) n"
    by (auto simp: find_Some_iff)
  with cache_okD(4) [OF ok i(1) _ i(2)] have "j = i" by simp
  with j show ?thesis by (simp add: view_def)
qed

lemma view_miss:
  assumes "\<And>i. i < NBUF \<Longrightarrow> \<not> (has_block (k_bcache s ! i) n \<and> valid (k_bcache s ! i))"
  shows "view s n = k_disk s n"
proof -
  have "find (\<lambda>i. has_block (k_bcache s ! i) n \<and> valid (k_bcache s ! i)) [0..<NBUF] = None"
    using assms by (auto simp: find_None_iff)
  then show ?thesis by (simp add: view_def)
qed

text \<open>What a buffer contributes to the view of a block with content \<open>d\<close> on the disk.\<close>

definition sees :: "buf \<Rightarrow> u8 list \<Rightarrow> u32 \<Rightarrow> u8 list" where
  "sees q d n = (if has_block q n \<and> valid q then b_data q else d)"

lemma view_sees:
  assumes ok: "cache_ok s" and i: "i < NBUF"
    and other: "\<And>j. j < NBUF \<Longrightarrow> j \<noteq> i \<Longrightarrow> \<not> (has_block (k_bcache s ! j) n \<and> valid (k_bcache s ! j))"
  shows "view s n = sees (k_bcache s ! i) (k_disk s n) n"
proof (cases "has_block (k_bcache s ! i) n \<and> valid (k_bcache s ! i)")
  case True
  with view_hit [OF ok i, of n] show ?thesis by (simp add: sees_def)
next
  case False
  have "view s n = k_disk s n"
  proof (rule view_miss)
    fix j
    assume "j < NBUF"
    with False other [of j] show "\<not> (has_block (k_bcache s ! j) n \<and> valid (k_bcache s ! j))"
      by (cases "j = i") auto
  qed
  with False show ?thesis by (auto simp: sees_def)
qed

text \<open>A change of one buffer that does not change what it contributes.\<close>

lemma view_same:
  assumes s: "cache_ok s" and t: "cache_ok t" and i: "i < NBUF"
    and B: "k_bcache t = (k_bcache s)[i := q]" and D: "k_disk t n = k_disk s n"
    and q: "sees q (k_disk s n) n = sees (k_bcache s ! i) (k_disk s n) n"
  shows "view t n = view s n"
proof (cases "\<exists>j<NBUF. j \<noteq> i \<and> has_block (k_bcache s ! j) n \<and> valid (k_bcache s ! j)")
  case True
  then obtain j where j: "j < NBUF" "j \<noteq> i" "has_block (k_bcache s ! j) n" "valid (k_bcache s ! j)" by auto
  then have "view t n = b_data (k_bcache t ! j)"
    by (intro view_hit [OF t]) (simp_all add: B)
  with view_hit [OF s j(1,3,4)] j(2) show ?thesis by (simp add: B)
next
  case False
  then have "view t n = sees (k_bcache t ! i) (k_disk t n) n"
    by (intro view_sees [OF t i]) (auto simp: B)
  moreover from False have "view s n = sees (k_bcache s ! i) (k_disk s n) n"
    by (intro view_sees [OF s i]) auto
  ultimately show ?thesis using q cache_okD(1) [OF s] i D by (simp add: B)
qed

lemma lru_cong:
  "(\<And>j. j \<le> NBUF \<Longrightarrow> b_next (B ! j) = b_next (C ! j) \<and> b_prev (B ! j) = b_prev (C ! j)) \<Longrightarrow>
     lru B xs \<Longrightarrow> lru C xs"
proof -
  assume same: "\<And>j. j \<le> NBUF \<Longrightarrow> b_next (B ! j) = b_next (C ! j) \<and> b_prev (B ! j) = b_prev (C ! j)"
    and B: "lru B xs"
  have "linked (\<lambda>j. b_next (B ! j)) bhead xs bhead \<longleftrightarrow> linked (\<lambda>j. b_next (C ! j)) bhead xs bhead"
       "linked (\<lambda>j. b_prev (B ! j)) bhead (rev xs) bhead \<longleftrightarrow> linked (\<lambda>j. b_prev (C ! j)) bhead (rev xs) bhead"
    using B same by (intro linked_cong; auto simp: lru_def)+
  with B show ?thesis by (simp add: lru_def circular_def)
qed

lemma cache_ok_upd:
  assumes s: "cache_ok s" and i: "i < NBUF"
    and B: "k_bcache t = (k_bcache s)[i := q]"
    and q: "b_next q = b_next (k_bcache s ! i)" "b_prev q = b_prev (k_bcache s ! i)" "entry_ok q"
    and uniq: "\<And>j n. has_block q n \<Longrightarrow> j < NBUF \<Longrightarrow> j \<noteq> i \<Longrightarrow> \<not> has_block (k_bcache s ! j) n"
    and coh: "\<And>n. has_block q n \<Longrightarrow> valid q \<Longrightarrow> \<not> dirty q \<Longrightarrow> b_data q = k_disk t n"
    and disk: "\<And>n. k_disk t n \<noteq> k_disk s n \<Longrightarrow> has_block q n"
  shows "cache_ok t"
proof -
  note len = cache_okD(1) [OF s]
  obtain xs where "lru (k_bcache s) xs" using cache_okD(2) [OF s] ..
  then have "lru (k_bcache t) xs"
    by (rule lru_cong [rotated]) (use i q len in \<open>auto simp: B nth_list_update\<close>)
  moreover have "entry_ok (k_bcache t ! j)" if "j < NBUF" for j
    using cache_okD(3) [OF s that] q(3) i len by (cases "j = i") (simp_all add: B)
  moreover have "j = k" if "j < NBUF" "k < NBUF" "has_block (k_bcache t ! j) n" "has_block (k_bcache t ! k) n"
    for j k n
    using that uniq [of n] cache_okD(4) [OF s that(1,2), of n] i len
    by (cases "j = i"; cases "k = i") (auto simp: B)
  moreover have "b_data (k_bcache t ! j) = k_disk t n"
    if "j < NBUF" "has_block (k_bcache t ! j) n" "valid (k_bcache t ! j)" "\<not> dirty (k_bcache t ! j)" for j n
  proof (cases "j = i")
    case True
    with that coh [of n] i len show ?thesis by (simp add: B)
  next
    case False
    with that have "b_data (k_bcache s ! j) = k_disk s n"
      by (intro cache_okD(5) [OF s]) (simp_all add: B)
    moreover have "k_disk t n = k_disk s n"
      using disk [of n] uniq [of n j] that False by (auto simp: B)
    ultimately show ?thesis using False by (simp add: B)
  qed
  ultimately show ?thesis using len by (auto simp: cache_ok_def B)
qed

section \<open>Reading a block\<close>

lemma bscan_linked:
  "linked (\<lambda>j. nx (B ! j)) a xs bhead \<Longrightarrow> bhead \<notin> set xs \<Longrightarrow> length xs \<le> m \<Longrightarrow>
     bscan nx test B m (nx (B ! a)) = find (\<lambda>j. test (B ! j)) xs"
proof (induction xs arbitrary: a m)
  case Nil
  then show ?case by (cases m) simp_all
next
  case (Cons x xs)
  then obtain k where "m = Suc k" by (cases m) simp_all
  with Cons show ?case by auto
qed

lemma lru_length: "lru B xs \<Longrightarrow> length xs = NBUF"
  using distinct_card [of xs] by (simp add: lru_def circular_def)

lemma bscan_next:
  assumes "lru B xs"
  shows "bscan b_next test B NBUF (b_next (B ! bhead)) = find (\<lambda>j. test (B ! j)) xs"
  using assms lru_length [OF assms] by (intro bscan_linked) (auto simp: lru_def circular_def)

lemma bscan_prev:
  assumes "lru B xs"
  shows "bscan b_prev test B NBUF (b_prev (B ! bhead)) = find (\<lambda>j. test (B ! j)) (rev xs)"
  using assms lru_length [OF assms] by (intro bscan_linked) (auto simp: lru_def circular_def)

lemma find_in:
  assumes "x \<in> set xs" "P x"
  obtains y where "find P xs = Some y" "y \<in> set xs" "P y"
proof (cases "find P xs")
  case None
  with assms show thesis by (auto simp: find_None_iff)
next
  case (Some y)
  then have "y \<in> set xs" "P y" by (auto simp: find_Some_iff)
  with Some that show thesis by blast
qed

text \<open>A state in which a process can use the cache, over the memory disk.\<close>

definition ready :: "kernel \<Rightarrow> bool" where
  "ready s \<longleftrightarrow> cache_ok s \<and> k_held s = [] \<and> (\<exists>p. k_curproc s = Some p) \<and> k_memdisk s"

text \<open>The lock \<open>acquiresleep\<close> leaves in the buffer.\<close>

definition lock_of :: "kernel \<Rightarrow> sleeplock" where
  "lock_of s = \<lparr>sl_locked = True, sl_pid = p_pid (k_ptable s ! the (k_curproc s))\<rparr>"

lemma bget_hit:
  assumes s: "ready s" and i: "i < NBUF" "has_block (k_bcache s ! i) n" "\<not> blocked (k_bcache s ! i)"
  shows "bget 1 n s = Ok i (s\<lparr>k_bcache := (k_bcache s)[i := (k_bcache s ! i)\<lparr>b_refcnt := 1, b_lock := lock_of s\<rparr>]\<rparr>)"
proof -
  from s have ok: "cache_ok s" by (simp add: ready_def)
  obtain xs where xs: "lru (k_bcache s) xs" using cache_okD(2) [OF ok] ..
  let ?P = "\<lambda>j. b_dev (k_bcache s ! j) = 1 \<and> b_blockno (k_bcache s ! j) = n"
  have "i \<in> set xs" "?P i" using xs i by (simp_all add: lru_def has_block_def)
  then obtain j where j: "find ?P xs = Some j" "j \<in> set xs" "?P j" by (rule find_in)
  then have "j = i" using cache_okD(4) [OF ok, of j i n] xs i by (simp add: lru_def has_block_def)
  with j have "find ?P xs = Some i" by simp
  moreover have "b_refcnt (k_bcache s ! i) = 0"
    using cache_okD(3) [OF ok i(1)] i(3) by (simp add: entry_ok_def)
  ultimately show ?thesis
    using s i cache_okD(1) [OF ok]
    by (auto simp: bget_def bscan_next [OF xs] krun ready_def lock_of_def acquiresleep_run)
qed

lemma bget_miss:
  assumes s: "ready s" and no: "\<And>j. j < NBUF \<Longrightarrow> \<not> has_block (k_bcache s ! j) n"
    and free: "j < NBUF" "\<not> blocked (k_bcache s ! j)" "\<not> dirty (k_bcache s ! j)"
  obtains i where "i < NBUF" "\<not> blocked (k_bcache s ! i)" "\<not> dirty (k_bcache s ! i)"
    "bget 1 n s = Ok i (s\<lparr>k_bcache := (k_bcache s)[i := (k_bcache s ! i)\<lparr>b_dev := 1, b_blockno := n,
       b_flags := 0, b_refcnt := 1, b_lock := lock_of s\<rparr>]\<rparr>)"
proof -
  from s have ok: "cache_ok s" by (simp add: ready_def)
  obtain xs where xs: "lru (k_bcache s) xs" using cache_okD(2) [OF ok] ..
  then have set: "set xs = {0..<NBUF}" by (simp add: lru_def)
  let ?P = "\<lambda>j. b_refcnt (k_bcache s ! j) = 0 \<and> b_flags (k_bcache s ! j) AND B_DIRTY = 0"
  have none: "find (\<lambda>j. b_dev (k_bcache s ! j) = 1 \<and> b_blockno (k_bcache s ! j) = n) xs = None"
    using no set by (auto simp: find_None_iff has_block_def)
  have "?P j" using cache_okD(3) [OF ok free(1)] free by (simp add: entry_ok_def dirty_def)
  then obtain i where i: "find ?P (rev xs) = Some i" "i \<in> set (rev xs)" "?P i"
    using find_in [of j "rev xs" ?P] free(1) set by auto
  then have "i < NBUF" using set by simp
  moreover have "\<not> blocked (k_bcache s ! i)"
    using cache_okD(3) [OF ok \<open>i < NBUF\<close>] i(3) by (auto simp: entry_ok_def split: if_splits)
  moreover have "\<not> dirty (k_bcache s ! i)" using i(3) by (simp add: dirty_def)
  moreover have "bget 1 n s = Ok i (s\<lparr>k_bcache := (k_bcache s)[i := (k_bcache s ! i)\<lparr>b_dev := 1,
      b_blockno := n, b_flags := 0, b_refcnt := 1, b_lock := lock_of s\<rparr>]\<rparr>)"
    using s i none \<open>i < NBUF\<close> \<open>\<not> blocked (k_bcache s ! i)\<close> cache_okD(1) [OF ok]
    by (auto simp: bget_def bscan_next [OF xs] bscan_prev [OF xs] krun ready_def lock_of_def acquiresleep_run)
  ultimately show thesis by (rule that)
qed

lemma disk_rw_read:
  assumes "k_memdisk s" "k_held s = []" "b < length (k_bcache s)" "blocked (k_bcache s ! b)" "b_dev (k_bcache s ! b) = 1"
    "b_blockno (k_bcache s ! b) < k_disksize s" "\<not> valid (k_bcache s ! b)" "\<not> dirty (k_bcache s ! b)"
  shows "disk_rw b s = Ok () (s\<lparr>k_bcache := (k_bcache s)[b := (k_bcache s ! b)
    \<lparr>b_data := k_disk s (b_blockno (k_bcache s ! b)), b_flags := b_flags (k_bcache s ! b) OR B_VALID\<rparr>]\<rparr>)"
  using assms clean_flags [of "k_bcache s ! b"]
  by (simp add: disk_rw_def iderw_def krun holdingsleep_run dirty_def)

lemma disk_rw_write:
  assumes "k_memdisk s" "k_held s = []" "b < length (k_bcache s)" "blocked (k_bcache s ! b)" "b_dev (k_bcache s ! b) = 1"
    "b_blockno (k_bcache s ! b) < k_disksize s" "dirty (k_bcache s ! b)"
  shows "disk_rw b s = Ok () (s\<lparr>k_bcache := (k_bcache s)[b := (k_bcache s ! b)
      \<lparr>b_flags := (b_flags (k_bcache s ! b) AND NOT B_DIRTY) OR B_VALID\<rparr>],
    k_disk := (k_disk s)(b_blockno (k_bcache s ! b) := b_data (k_bcache s ! b)),
    k_dtrace := k_dtrace s @ [(b_blockno (k_bcache s ! b), b_data (k_bcache s ! b))]\<rparr>)"
  using assms clean_flags [of "k_bcache s ! b"]
  by (simp add: disk_rw_def iderw_def disk_write_def krun holdingsleep_run dirty_def)

text \<open>\<open>opens s n i t\<close>: from \<open>s\<close>, the buffer \<open>i\<close> was handed out for block \<open>n\<close>.\<close>

definition opens :: "kernel \<Rightarrow> u32 \<Rightarrow> nat \<Rightarrow> kernel \<Rightarrow> bool" where
  "opens s n i t \<longleftrightarrow> i < NBUF \<and> \<not> blocked (k_bcache s ! i) \<and>
     (dirty (k_bcache s ! i) \<longrightarrow> has_block (k_bcache s ! i) n) \<and>
     (\<forall>j<NBUF. j \<noteq> i \<longrightarrow> \<not> has_block (k_bcache s ! j) n) \<and>
     (\<exists>q. t = s\<lparr>k_bcache := (k_bcache s)[i := q]\<rparr> \<and> has_block q n \<and> valid q \<and> blocked q \<and>
        b_refcnt q = 1 \<and> b_data q = view s n \<and> (dirty q \<longleftrightarrow> dirty (k_bcache s ! i)) \<and>
        b_next q = b_next (k_bcache s ! i) \<and> b_prev q = b_prev (k_bcache s ! i))"

lemma opensI:
  assumes "i < NBUF" "\<not> blocked (k_bcache s ! i)"
    "dirty (k_bcache s ! i) \<Longrightarrow> has_block (k_bcache s ! i) n"
    "\<And>j. j < NBUF \<Longrightarrow> j \<noteq> i \<Longrightarrow> \<not> has_block (k_bcache s ! j) n"
    "has_block q n" "valid q" "blocked q" "b_refcnt q = 1" "b_data q = view s n"
    "dirty q \<longleftrightarrow> dirty (k_bcache s ! i)" "b_next q = b_next (k_bcache s ! i)"
    "b_prev q = b_prev (k_bcache s ! i)"
  shows "opens s n i (s\<lparr>k_bcache := (k_bcache s)[i := q]\<rparr>)"
  unfolding opens_def using assms by blast

lemma bread_opens:
  assumes s: "ready s" and n: "n < k_disksize s"
    and free: "\<And>j. j < NBUF \<Longrightarrow> has_block (k_bcache s ! j) n \<Longrightarrow> \<not> blocked (k_bcache s ! j)"
      "(\<exists>j<NBUF. has_block (k_bcache s ! j) n) \<or>
       (\<exists>j<NBUF. \<not> blocked (k_bcache s ! j) \<and> \<not> dirty (k_bcache s ! j))"
  shows "\<exists>i t. bread 1 n s = Ok i t \<and> opens s n i t"
proof -
  from s have ok: "cache_ok s" and held: "k_held s = []" "k_memdisk s" by (simp_all add: ready_def)
  note len = cache_okD(1) [OF ok]
  have lock: "sl_locked (lock_of s)" by (simp add: lock_of_def)
  show ?thesis
  proof (cases "\<exists>i<NBUF. has_block (k_bcache s ! i) n")
    case True
    then obtain i where i: "i < NBUF" "has_block (k_bcache s ! i) n" by auto
    note nb = free(1) [OF i]
    let ?q = "(k_bcache s ! i)\<lparr>b_refcnt := 1, b_lock := lock_of s\<rparr>"
    let ?t = "s\<lparr>k_bcache := (k_bcache s)[i := ?q]\<rparr>"
    have others: "\<forall>j<NBUF. j \<noteq> i \<longrightarrow> \<not> has_block (k_bcache s ! j) n"
      using cache_okD(4) [OF ok _ i(1) _ i(2)] by blast
    show ?thesis
    proof (cases "valid (k_bcache s ! i)")
      case True
      then have "bread 1 n s = Ok i ?t"
        using bget_hit [OF s i nb] i len by (simp add: bread_def krun valid_def)
      moreover have "opens s n i ?t"
        by (rule opensI)
          (use i nb others True lock view_hit [OF ok i True] in \<open>simp_all add: has_block_def valid_def dirty_def\<close>)
      ultimately show ?thesis by blast
    next
      case False
      let ?r = "?q\<lparr>b_data := k_disk s n, b_flags := b_flags ?q OR B_VALID\<rparr>"
      have nd: "\<not> dirty (k_bcache s ! i)"
        using cache_okD(3) [OF ok i(1)] False by (auto simp: entry_ok_def)
      have "disk_rw i ?t = Ok () (?t\<lparr>k_bcache := (k_bcache ?t)[i := ?r]\<rparr>)"
        by (subst disk_rw_read) (use i len held lock n False nd in \<open>auto simp: has_block_def valid_def dirty_def\<close>)
      then have "bread 1 n s = Ok i (s\<lparr>k_bcache := (k_bcache s)[i := ?r]\<rparr>)"
        using bget_hit [OF s i nb] i len False by (simp add: bread_def krun valid_def)
      moreover have "view s n = k_disk s n"
        using view_sees [OF ok i(1), of n] others False by (auto simp: sees_def)
      then have "opens s n i (s\<lparr>k_bcache := (k_bcache s)[i := ?r]\<rparr>)"
        by (intro opensI)
          (use i nb others nd lock flag_updates(1,2) [of ?q] in \<open>simp_all add: has_block_def valid_def dirty_def\<close>)
      ultimately show ?thesis by blast
    qed
  next
    case False
    then obtain j where j: "j < NBUF" "\<not> blocked (k_bcache s ! j)" "\<not> dirty (k_bcache s ! j)"
      using free(2) by blast
    obtain i where i: "i < NBUF" "\<not> blocked (k_bcache s ! i)" "\<not> dirty (k_bcache s ! i)"
      and run: "bget 1 n s = Ok i (s\<lparr>k_bcache := (k_bcache s)[i := (k_bcache s ! i)\<lparr>b_dev := 1,
        b_blockno := n, b_flags := 0, b_refcnt := 1, b_lock := lock_of s\<rparr>]\<rparr>)"
      by (rule bget_miss [OF s _ j]) (use False in auto)
    let ?q = "(k_bcache s ! i)\<lparr>b_dev := 1, b_blockno := n, b_flags := 0, b_refcnt := 1, b_lock := lock_of s\<rparr>"
    let ?t = "s\<lparr>k_bcache := (k_bcache s)[i := ?q]\<rparr>"
    let ?r = "?q\<lparr>b_data := k_disk s n, b_flags := b_flags ?q OR B_VALID\<rparr>"
    have "disk_rw i ?t = Ok () (?t\<lparr>k_bcache := (k_bcache ?t)[i := ?r]\<rparr>)"
      by (subst disk_rw_read) (use i len held lock n in \<open>auto simp: valid_def dirty_def\<close>)
    with run i len have "bread 1 n s = Ok i (s\<lparr>k_bcache := (k_bcache s)[i := ?r]\<rparr>)"
      by (simp add: bread_def krun)
    moreover have "view s n = k_disk s n"
      using False by (intro view_miss) auto
    then have "opens s n i (s\<lparr>k_bcache := (k_bcache s)[i := ?r]\<rparr>)"
      by (intro opensI)
        (use i lock False in \<open>simp_all add: has_block_def valid_def dirty_def\<close>)
    ultimately show ?thesis by blast
  qed
qed

lemma opens_ready:
  assumes s: "ready s" and o: "opens s n i t"
  shows "ready t" "view t m = view s m"
proof -
  from s have ok: "cache_ok s" by (simp add: ready_def)
  from o obtain q where i: "i < NBUF" and t: "t = s\<lparr>k_bcache := (k_bcache s)[i := q]\<rparr>"
    and q: "has_block q n" "valid q" "blocked q" "b_refcnt q = 1" "b_data q = view s n"
      "dirty q \<longleftrightarrow> dirty (k_bcache s ! i)" "b_next q = b_next (k_bcache s ! i)" "b_prev q = b_prev (k_bcache s ! i)"
    and others: "\<And>j. j < NBUF \<Longrightarrow> j \<noteq> i \<Longrightarrow> \<not> has_block (k_bcache s ! j) n"
    and dn: "dirty (k_bcache s ! i) \<Longrightarrow> has_block (k_bcache s ! i) n"
    unfolding opens_def by blast
  have n_only: "k = n" if "has_block q k" for k using that q(1) by (simp add: has_block_def)
  have seen: "view s n = sees (k_bcache s ! i) (k_disk s n) n"
    by (rule view_sees [OF ok i]) (use others in blast)
  have okt: "cache_ok t"
  proof (rule cache_ok_upd [OF ok i, of t q])
    show "entry_ok q" using q by (simp add: entry_ok_def has_block_def)
    show "\<not> has_block (k_bcache s ! j) k" if "has_block q k" "j < NBUF" "j \<noteq> i" for j k
      using that others n_only by blast
    show "b_data q = k_disk t k" if k: "has_block q k" "valid q" "\<not> dirty q" for k
    proof -
      have "sees (k_bcache s ! i) (k_disk s n) n = k_disk s n"
        using cache_okD(5) [OF ok i, of n] q(6) k(3) by (auto simp: sees_def)
      with seen n_only [OF k(1)] q(5) show ?thesis by (simp add: t)
    qed
  qed (use q t in simp_all)
  then show "ready t" using s by (simp add: ready_def t)
  have "sees q (k_disk s m) m = sees (k_bcache s ! i) (k_disk s m) m"
  proof (cases "m = n")
    case True
    with q seen show ?thesis by (simp add: sees_def)
  next
    case False
    have "sees (k_bcache s ! i) (k_disk s m) m = k_disk s m"
    proof (cases "has_block (k_bcache s ! i) m \<and> valid (k_bcache s ! i)")
      case True
      with dn False have "\<not> dirty (k_bcache s ! i)" by (auto simp: has_block_def)
      with True cache_okD(5) [OF ok i, of m] show ?thesis by (simp add: sees_def)
    qed (auto simp: sees_def)
    with False n_only show ?thesis by (auto simp: sees_def)
  qed
  then show "view t m = view s m"
    by (intro view_same [OF ok okt i, where q = q]) (simp_all add: t)
qed

section \<open>Writing a block\<close>

text \<open>The state after a buffer has been filled with \<open>d\<close> and written.\<close>

definition written :: "kernel \<Rightarrow> nat \<Rightarrow> u8 list \<Rightarrow> kernel" where
  "written s i d = s\<lparr>k_bcache := (k_bcache s)[i := (k_bcache s ! i)\<lparr>b_data := d,
       b_flags := ((b_flags (k_bcache s ! i) OR B_DIRTY) AND NOT B_DIRTY) OR B_VALID\<rparr>],
     k_disk := (k_disk s)(b_blockno (k_bcache s ! i) := d),
     k_dtrace := k_dtrace s @ [(b_blockno (k_bcache s ! i), d)]\<rparr>"

lemma written_flags:
  "valid (q\<lparr>b_data := d, b_flags := ((b_flags q OR B_DIRTY) AND NOT B_DIRTY) OR B_VALID\<rparr>)"
  "\<not> dirty (q\<lparr>b_data := d, b_flags := ((b_flags q OR B_DIRTY) AND NOT B_DIRTY) OR B_VALID\<rparr>)"
  by (simp_all add: valid_bit dirty_bit bit_or_iff bit_and_iff bit_not_iff)

lemma bwrite_written:
  assumes s: "ready s" and i: "i < NBUF" "has_block (k_bcache s ! i) n" "blocked (k_bcache s ! i)"
    and n: "n < k_disksize s"
  shows "kseq (set_data i d) (bwrite i) s = Ok () (written s i d)"
proof -
  from s have held: "k_held s = []" "k_memdisk s" and len: "length (k_bcache s) = Suc NBUF"
    using cache_okD(1) by (simp_all add: ready_def)
  let ?q = "(k_bcache s ! i)\<lparr>b_data := d, b_flags := b_flags (k_bcache s ! i) OR B_DIRTY\<rparr>"
  have "dirty ?q" by (simp add: dirty_bit bit_or_iff)
  then show ?thesis
    using i n held len disk_rw_write [of "s\<lparr>k_bcache := (k_bcache s)[i := ?q]\<rparr>" i]
    by (simp add: set_data_def bwrite_def krun holdingsleep_run has_block_def written_def)
qed

lemma written_ready:
  assumes s: "ready s" and i: "i < NBUF" "has_block (k_bcache s ! i) n" "blocked (k_bcache s ! i)"
  shows "ready (written s i d)" "view (written s i d) m = (if m = n then d else view s m)"
    "k_disk (written s i d) = (k_disk s)(n := d)" "k_dtrace (written s i d) = k_dtrace s @ [(n, d)]"
proof -
  from s have ok: "cache_ok s" by (simp add: ready_def)
  have bn: "b_blockno (k_bcache s ! i) = n" using i(2) by (simp add: has_block_def)
  show "k_disk (written s i d) = (k_disk s)(n := d)" "k_dtrace (written s i d) = k_dtrace s @ [(n, d)]"
    using bn by (simp_all add: written_def)
  let ?q = "(k_bcache s ! i)\<lparr>b_data := d, b_flags := ((b_flags (k_bcache s ! i) OR B_DIRTY) AND NOT B_DIRTY) OR B_VALID\<rparr>"
  have n_only: "has_block ?q k \<longleftrightarrow> k = n" for k using i(2) by (auto simp: has_block_def)
  have others: "\<not> has_block (k_bcache s ! j) n" if "j < NBUF" "j \<noteq> i" for j
    using cache_okD(4) [OF ok that(1) i(1) _ i(2)] that by blast
  have okt: "cache_ok (written s i d)"
  proof (rule cache_ok_upd [OF ok i(1), where q = ?q])
    show "entry_ok ?q"
      using cache_okD(3) [OF ok i(1)] written_flags(2) [of "k_bcache s ! i" d] by (simp add: entry_ok_def)
    show "\<not> has_block (k_bcache s ! j) k" if "has_block ?q k" "j < NBUF" "j \<noteq> i" for j k
      using n_only [of k] that(1) others [OF that(2,3)] by simp
  qed (use bn n_only in \<open>auto simp: written_def split: if_splits\<close>)
  then show "ready (written s i d)" using s by (simp add: ready_def written_def)
  show "view (written s i d) m = (if m = n then d else view s m)"
  proof (cases "m = n")
    case True
    have "view (written s i d) n = b_data (k_bcache (written s i d) ! i)"
      by (rule view_hit [OF okt i(1)])
        (use i cache_okD(1) [OF ok] n_only written_flags(1) in \<open>simp_all add: written_def\<close>)
    with True i cache_okD(1) [OF ok] show ?thesis by (simp add: written_def)
  next
    case False
    have "view (written s i d) m = view s m"
      by (rule view_same [OF ok okt i(1), where q = ?q])
        (use False n_only i(2) in \<open>auto simp: written_def sees_def has_block_def\<close>)
    with False show ?thesis by simp
  qed
qed

section \<open>Releasing a buffer\<close>

text \<open>\<open>closes s i t\<close>: the buffer \<open>i\<close> was given back; nothing is lost.\<close>

definition closes :: "kernel \<Rightarrow> nat \<Rightarrow> kernel \<Rightarrow> bool" where
  "closes s i t \<longleftrightarrow> k_disk t = k_disk s \<and> k_dtrace t = k_dtrace s \<and> k_log t = k_log s \<and>
     k_held t = k_held s \<and> k_curproc t = k_curproc s \<and> k_memdisk t = k_memdisk s \<and> k_disksize t = k_disksize s \<and>
     length (k_bcache t) = length (k_bcache s) \<and>
     (\<forall>j. b_dev (k_bcache t ! j) = b_dev (k_bcache s ! j) \<and> b_blockno (k_bcache t ! j) = b_blockno (k_bcache s ! j) \<and>
        b_flags (k_bcache t ! j) = b_flags (k_bcache s ! j) \<and> b_data (k_bcache t ! j) = b_data (k_bcache s ! j) \<and>
        (j \<noteq> i \<longrightarrow> b_lock (k_bcache t ! j) = b_lock (k_bcache s ! j) \<and> b_refcnt (k_bcache t ! j) = b_refcnt (k_bcache s ! j))) \<and>
     \<not> blocked (k_bcache t ! i) \<and> b_refcnt (k_bcache t ! i) = 0"

lemma closes_same:
  assumes "closes s i t"
  shows "has_block (k_bcache t ! j) n \<longleftrightarrow> has_block (k_bcache s ! j) n"
    "valid (k_bcache t ! j) \<longleftrightarrow> valid (k_bcache s ! j)" "dirty (k_bcache t ! j) \<longleftrightarrow> dirty (k_bcache s ! j)"
    "b_data (k_bcache t ! j) = b_data (k_bcache s ! j)"
    "blocked (k_bcache t ! j) \<longleftrightarrow> j \<noteq> i \<and> blocked (k_bcache s ! j)"
  using assms unfolding closes_def has_block_def valid_def dirty_def by (simp_all, metis)

lemma closes_ready:
  assumes s: "ready s" and c: "closes s i t" and xs: "lru (k_bcache t) xs"
  shows "ready t" "view t m = view s m"
proof -
  from s have ok: "cache_ok s" by (simp add: ready_def)
  note same = closes_same [OF c]
  have D: "k_disk t = k_disk s" and len: "length (k_bcache t) = Suc NBUF"
    using c cache_okD(1) [OF ok] by (simp_all add: closes_def)
  have "entry_ok (k_bcache t ! j)" if "j < NBUF" for j
    using cache_okD(3) [OF ok that] c same(2,3,5) [of j]
    by (cases "j = i") (simp_all add: entry_ok_def closes_def)
  then have "cache_ok t"
    unfolding cache_ok_def using len xs cache_okD(4,5) [OF ok] by (auto simp: same D)
  then show "ready t" using s c by (simp add: ready_def closes_def)
  show "view t m = view s m" by (auto simp: view_def same D split: option.split)
qed

text \<open>The stores that move a buffer to the front of the list.\<close>

definition next_upd :: "buf list \<Rightarrow> nat \<Rightarrow> nat \<Rightarrow> buf list" where
  "next_upd B k v = B[k := (B ! k)\<lparr>b_next := v\<rparr>]"

definition prev_upd :: "buf list \<Rightarrow> nat \<Rightarrow> nat \<Rightarrow> buf list" where
  "prev_upd B k v = B[k := (B ! k)\<lparr>b_prev := v\<rparr>]"

lemma link_runs [krun]:
  "set_next b x s = Ok () (s\<lparr>k_bcache := next_upd (k_bcache s) b x\<rparr>)"
  "set_prev b x s = Ok () (s\<lparr>k_bcache := prev_upd (k_bcache s) b x\<rparr>)"
  by (simp_all add: set_next_def set_prev_def next_upd_def prev_upd_def krun)

lemma link_upd_length [simp]:
  "length (next_upd B k v) = length B" "length (prev_upd B k v) = length B"
  by (simp_all add: next_upd_def prev_upd_def)

lemma nth_upd_proj: "f x = f (B ! k) \<Longrightarrow> f (B[k := x] ! j) = f (B ! j)"
  by (cases "k < length B"; cases "j = k") (simp_all add: list_update_beyond)

lemma link_upd_same [simp]:
  "b_dev (next_upd B k v ! j) = b_dev (B ! j)" "b_dev (prev_upd B k v ! j) = b_dev (B ! j)"
  "b_blockno (next_upd B k v ! j) = b_blockno (B ! j)" "b_blockno (prev_upd B k v ! j) = b_blockno (B ! j)"
  "b_flags (next_upd B k v ! j) = b_flags (B ! j)" "b_flags (prev_upd B k v ! j) = b_flags (B ! j)"
  "b_data (next_upd B k v ! j) = b_data (B ! j)" "b_data (prev_upd B k v ! j) = b_data (B ! j)"
  "b_lock (next_upd B k v ! j) = b_lock (B ! j)" "b_lock (prev_upd B k v ! j) = b_lock (B ! j)"
  "b_refcnt (next_upd B k v ! j) = b_refcnt (B ! j)" "b_refcnt (prev_upd B k v ! j) = b_refcnt (B ! j)"
  unfolding next_upd_def prev_upd_def by (rule nth_upd_proj, simp)+

lemma link_upd_other [simp]:
  "b_prev (next_upd B k v ! j) = b_prev (B ! j)" "b_next (prev_upd B k v ! j) = b_next (B ! j)"
  unfolding next_upd_def prev_upd_def by (rule nth_upd_proj, simp)+

lemma link_upd_fun:
  "k < length B \<Longrightarrow> (\<lambda>j. b_next (next_upd B k v ! j)) = (\<lambda>j. b_next (B ! j))(k := v)"
  "k < length B \<Longrightarrow> (\<lambda>j. b_prev (prev_upd B k v ! j)) = (\<lambda>j. b_prev (B ! j))(k := v)"
  by (auto simp: next_upd_def prev_upd_def)

definition to_front :: "buf list \<Rightarrow> nat \<Rightarrow> buf list" where
  "to_front B b =
     (let q = B ! b;
          B = next_upd (prev_upd B (b_next q) (b_prev q)) (b_prev q) (b_next q);
          h = b_next (B ! bhead)
      in next_upd (prev_upd (prev_upd (next_upd B b h) b bhead) h b) bhead b)"

lemma to_front_same [simp]:
  "length (to_front B b) = length B" "b_dev (to_front B b ! j) = b_dev (B ! j)"
  "b_blockno (to_front B b ! j) = b_blockno (B ! j)" "b_flags (to_front B b ! j) = b_flags (B ! j)"
  "b_data (to_front B b ! j) = b_data (B ! j)" "b_lock (to_front B b ! j) = b_lock (B ! j)"
  "b_refcnt (to_front B b ! j) = b_refcnt (B ! j)"
  by (simp_all add: to_front_def Let_def)

lemma to_front_lru:
  assumes xs: "lru B xs" and b: "b < NBUF" and len: "length B = Suc NBUF"
  shows "lru (to_front B b) (b # remove1 b xs)"
proof -
  from xs b obtain as bs where ab: "xs = as @ b # bs"
    by (metis lru_def split_list atLeastLessThan_iff zero_le)
  from xs have set: "set xs = {0..<NBUF}" and c: "circular (\<lambda>j. b_next (B ! j)) (\<lambda>j. b_prev (B ! j)) bhead (as @ b # bs)"
    by (simp_all add: lru_def ab)
  note unlink = circular_unlink [OF c]
  have dist: "distinct (bhead # as @ b # bs)" using c by (simp add: circular_def)
  have members: "x < Suc NBUF" if "x \<in> set (bhead # xs)" for x using that set by auto
  have "hd (bs @ [bhead]) \<in> set (bhead # xs)" "last (bhead # as) \<in> set (bhead # xs)"
    using hd_in_set [of "bs @ [bhead]"] last_in_set [of "bhead # as"] by (auto simp: ab)
  then have nb: "b_next (B ! b) < Suc NBUF" and pb: "b_prev (B ! b) < Suc NBUF"
    using unlink(2,3) members by metis+
  let ?C = "next_upd (prev_upd B (b_next (B ! b)) (b_prev (B ! b))) (b_prev (B ! b)) (b_next (B ! b))"
  have C: "circular (\<lambda>j. b_next (?C ! j)) (\<lambda>j. b_prev (?C ! j)) bhead (as @ bs)"
    using unlink(1) nb pb len by (simp add: link_upd_fun)
  then have "b_next (?C ! bhead) = hd ((as @ bs) @ [bhead])"
    unfolding circular_def by (intro linked_first) blast
  moreover have "hd ((as @ bs) @ [bhead]) \<in> set (bhead # xs)"
    using hd_in_set [of "(as @ bs) @ [bhead]"] by (auto simp: ab)
  ultimately have h: "b_next (?C ! bhead) < Suc NBUF" using members by metis
  have "b \<notin> set (bhead # as @ bs)" using dist by auto
  from circular_push [OF C this] h len b
  have "circular (\<lambda>j. b_next (to_front B b ! j)) (\<lambda>j. b_prev (to_front B b ! j)) bhead (b # as @ bs)"
    by (simp add: to_front_def Let_def link_upd_fun fun_upd_def)
  moreover have "remove1 b xs = as @ bs" using dist by (simp add: ab remove1_append)
  moreover have "set (b # as @ bs) = {0..<NBUF}" using set by (auto simp: ab)
  ultimately show ?thesis by (simp add: lru_def)
qed

lemma brelse_closes:
  assumes s: "ready s" and i: "i < NBUF" "blocked (k_bcache s ! i)" and xs: "lru (k_bcache s) xs"
  shows "\<exists>t. brelse i s = Ok () t \<and> closes s i t \<and> lru (k_bcache t) (i # remove1 i xs)"
proof -
  from s have held: "k_held s = []" and ok: "cache_ok s" by (simp_all add: ready_def)
  note len = cache_okD(1) [OF ok]
  have ref: "b_refcnt (k_bcache s ! i) = 1"
    using cache_okD(3) [OF ok i(1)] i(2) by (simp add: entry_ok_def)
  let ?B = "(k_bcache s)[i := (k_bcache s ! i)\<lparr>b_lock := \<lparr>sl_locked = False, sl_pid = 0\<rparr>, b_refcnt := 0\<rparr>]"
  let ?t = "s\<lparr>k_bcache := to_front ?B i,
    k_ptable := map (wake (Some (ChanSleep (BufSleep i)))) (k_ptable s)\<rparr>"
  have "brelse i s = Ok () ?t"
    using i held len ref
    by (simp add: brelse_def krun holdingsleep_run releasesleep_run to_front_def Let_def)
  moreover have "closes s i ?t"
    using i len by (auto simp: closes_def nth_upd_proj)
  moreover have "lru ?B xs"
    by (rule lru_cong [OF _ xs]) (simp add: nth_upd_proj)
  then have "lru (k_bcache ?t) (i # remove1 i xs)"
    using to_front_lru [of ?B xs i] i len by simp
  ultimately show ?thesis by blast
qed

section \<open>Initialisation\<close>

definition unlocked_buf :: "buf list \<Rightarrow> nat \<Rightarrow> buf list" where
  "unlocked_buf B b = B[b := (B ! b)\<lparr>b_lock := \<lparr>sl_locked = False, sl_pid = 0\<rparr>\<rparr>]"

lemma unlocked_buf_simps [simp]:
  "length (unlocked_buf B b) = length B"
  "b_next (unlocked_buf B b ! j) = b_next (B ! j)" "b_prev (unlocked_buf B b ! j) = b_prev (B ! j)"
  "b_flags (unlocked_buf B b ! j) = b_flags (B ! j)" "b_dev (unlocked_buf B b ! j) = b_dev (B ! j)"
  "b_refcnt (unlocked_buf B b ! j) = b_refcnt (B ! j)"
  by (simp_all add: unlocked_buf_def nth_upd_proj)

text \<open>One step of \<open>binit\<close>.\<close>

definition pushed :: "buf list \<Rightarrow> nat \<Rightarrow> buf list" where
  "pushed B b = (let n = b_next (B ! bhead) in
     next_upd (prev_upd (unlocked_buf (prev_upd (next_upd B b n) b bhead) b) n b) bhead b)"

lemma pushed_circular:
  assumes c: "circular (\<lambda>j. b_next (B ! j)) (\<lambda>j. b_prev (B ! j)) bhead xs" and b: "b < NBUF" "b \<notin> set xs"
    and len: "length B = Suc NBUF" and xs: "set xs \<subseteq> {0..<NBUF}"
  shows "circular (\<lambda>j. b_next (pushed B b ! j)) (\<lambda>j. b_prev (pushed B b ! j)) bhead (b # xs)"
proof -
  let ?n = "b_next (B ! bhead)"
  have "linked (\<lambda>j. b_next (B ! j)) bhead xs bhead" using c by (simp add: circular_def)
  from linked_first [OF this] have "?n \<in> set (bhead # xs)" by (cases xs) auto
  then have "?n < Suc NBUF" using xs by auto
  with circular_push [OF c, of b] b len show ?thesis
    by (simp add: pushed_def Let_def link_upd_fun fun_upd_def)
qed

lemma pushed_simps [simp]:
  "length (pushed B b) = length B" "b_flags (pushed B b ! j) = b_flags (B ! j)"
  "b_dev (pushed B b ! j) = b_dev (B ! j)" "b_refcnt (pushed B b ! j) = b_refcnt (B ! j)"
  by (simp_all add: pushed_def Let_def)

lemma pushed_lock:
  "b < length B \<Longrightarrow> blocked (pushed B b ! j) \<longleftrightarrow> j \<noteq> b \<and> blocked (B ! j)"
  by (simp add: pushed_def Let_def unlocked_buf_def nth_list_update)

lemma binit_loop:
  assumes "m \<le> NBUF" "length (k_bcache s) = Suc NBUF"
    and "b_next (k_bcache s ! bhead) = bhead" "b_prev (k_bcache s ! bhead) = bhead"
  shows "\<exists>B. kfor [0..<m] (\<lambda>b. kbind (get_buf bhead) (\<lambda>h.
       kseq (set_next b (b_next h)) (kseq (set_prev b bhead) (kseq (initsleeplock (BufSleep b)) (
       kseq (set_prev (b_next h) b) (set_next bhead b)))))) s = Ok () (s\<lparr>k_bcache := B\<rparr>) \<and>
    length B = Suc NBUF \<and> circular (\<lambda>j. b_next (B ! j)) (\<lambda>j. b_prev (B ! j)) bhead (rev [0..<m]) \<and>
    (\<forall>j. b_flags (B ! j) = b_flags (k_bcache s ! j) \<and> b_dev (B ! j) = b_dev (k_bcache s ! j) \<and>
       b_refcnt (B ! j) = b_refcnt (k_bcache s ! j) \<and> (j < m \<longrightarrow> \<not> blocked (B ! j)))"
  using assms(1)
proof (induction m)
  case 0
  show ?case using assms by (intro exI [of _ "k_bcache s"]) (simp add: krun circular_def)
next
  case (Suc m)
  let ?body = "\<lambda>b. kbind (get_buf bhead) (\<lambda>h.
       kseq (set_next b (b_next h)) (kseq (set_prev b bhead) (kseq (initsleeplock (BufSleep b)) (
       kseq (set_prev (b_next h) b) (set_next bhead b)))))"
  obtain B where B: "kfor [0..<m] ?body s = Ok () (s\<lparr>k_bcache := B\<rparr>)" "length B = Suc NBUF"
      "circular (\<lambda>j. b_next (B ! j)) (\<lambda>j. b_prev (B ! j)) bhead (rev [0..<m])"
      "\<And>j. b_flags (B ! j) = b_flags (k_bcache s ! j) \<and> b_dev (B ! j) = b_dev (k_bcache s ! j) \<and>
         b_refcnt (B ! j) = b_refcnt (k_bcache s ! j) \<and> (j < m \<longrightarrow> \<not> blocked (B ! j))"
    using Suc.IH Suc.prems by auto
  have "kfor [0..<Suc m] ?body s = Ok () (s\<lparr>k_bcache := pushed B m\<rparr>)"
    using B(1) by (simp add: kfor_append krun initsleeplock_def set_slock_def pushed_def Let_def unlocked_buf_def)
  moreover have "circular (\<lambda>j. b_next (pushed B m ! j)) (\<lambda>j. b_prev (pushed B m ! j)) bhead (rev [0..<Suc m])"
    using pushed_circular [OF B(3), of m] B(2) Suc.prems by auto
  moreover have "m < length B" using B(2) Suc.prems by simp
  ultimately show ?case
    using B(2,4) by (intro exI [of _ "pushed B m"]) (auto simp: pushed_lock less_Suc_eq)
qed

lemma binit_runs:
  assumes "length (k_bcache s) = Suc NBUF"
  shows "\<exists>B. binit s = Ok () (s\<lparr>k_bcache := B\<rparr>) \<and> length B = Suc NBUF \<and> lru B (rev [0..<NBUF]) \<and>
    (\<forall>j. b_flags (B ! j) = b_flags (k_bcache s ! j) \<and> b_dev (B ! j) = b_dev (k_bcache s ! j) \<and>
       b_refcnt (B ! j) = b_refcnt (k_bcache s ! j) \<and> (j < NBUF \<longrightarrow> \<not> blocked (B ! j)))"
proof -
  let ?B = "next_upd (prev_upd (k_bcache s) bhead bhead) bhead bhead"
  have "b_next (?B ! bhead) = bhead" "b_prev (?B ! bhead) = bhead"
    using assms by (simp_all add: next_upd_def prev_upd_def)
  then show ?thesis
    using binit_loop [of NBUF "s\<lparr>k_bcache := ?B\<rparr>"] assms
    by (auto simp: binit_def krun lru_def)
qed

text \<open>A cache of zeroed buffers is ready for use after \<open>binit\<close>.\<close>

lemma binit_cache_ok:
  assumes "length (k_bcache s) = Suc NBUF"
    and "\<forall>j<NBUF. b_flags (k_bcache s ! j) = 0 \<and> b_dev (k_bcache s ! j) = 0 \<and> b_refcnt (k_bcache s ! j) = 0"
  shows "\<exists>B. binit s = Ok () (s\<lparr>k_bcache := B\<rparr>) \<and> cache_ok (s\<lparr>k_bcache := B\<rparr>) \<and>
    (\<forall>j<NBUF. \<not> blocked (B ! j) \<and> \<not> dirty (B ! j))"
proof -
  obtain B where B: "binit s = Ok () (s\<lparr>k_bcache := B\<rparr>)" "length B = Suc NBUF" "lru B (rev [0..<NBUF])"
      "\<And>j. j < NBUF \<Longrightarrow> b_flags (B ! j) = 0 \<and> b_dev (B ! j) = 0 \<and> b_refcnt (B ! j) = 0 \<and> \<not> blocked (B ! j)"
    using binit_runs [OF assms(1)] assms(2) by auto
  have "\<not> dirty (B ! j)" "\<not> has_block (B ! j) n" if "j < NBUF" for j n
    using B(4) [OF that] by (simp_all add: dirty_def has_block_def)
  with B show ?thesis by (auto simp: cache_ok_def entry_ok_def)
qed

section \<open>The cache as seen by its clients\<close>

lemma view_undirty:
  assumes ok: "cache_ok s" and n: "\<And>j. j < NBUF \<Longrightarrow> has_block (k_bcache s ! j) n \<Longrightarrow> \<not> dirty (k_bcache s ! j)"
  shows "view s n = k_disk s n"
proof (cases "\<exists>i<NBUF. has_block (k_bcache s ! i) n \<and> valid (k_bcache s ! i)")
  case True
  then obtain i where i: "i < NBUF" "has_block (k_bcache s ! i) n" "valid (k_bcache s ! i)" by blast
  with cache_okD(5) [OF ok i n [OF i(1,2)]] view_hit [OF ok i] show ?thesis by simp
next
  case False
  then show ?thesis by (intro view_miss) blast
qed

text \<open>C9: The block cache is transparent, in the kernel with the memory disk, whose
  transfers complete at once. If no one holds the block and a clean buffer is free, \<open>bread\<close> returns a buffer that holds the current content of the block,
  and changes nothing that a reader of any block can see. Giving the buffer back with
  \<open>brelse\<close> makes it the most recently used one of the list and again changes no block.
  A \<open>bwrite\<close> of new content in between puts it on the disk and in the view of later
  readers, and touches no other block.\<close>

theorem cache_transparent:
  assumes s: "ready s" and n: "n < k_disksize s" and xs: "lru (k_bcache s) xs"
    and free: "\<forall>j<NBUF. has_block (k_bcache s ! j) n \<longrightarrow> \<not> blocked (k_bcache s ! j)"
      "\<exists>j<NBUF. \<not> blocked (k_bcache s ! j) \<and> \<not> dirty (k_bcache s ! j)"
  shows "\<exists>i t. bread 1 n s = Ok i t \<and> b_data (k_bcache t ! i) = view s n \<and> view t = view s \<and>
    (\<exists>u. brelse i t = Ok () u \<and> ready u \<and> view u = view s \<and> k_disk u = k_disk s \<and>
       lru (k_bcache u) (i # remove1 i xs)) \<and>
    (\<forall>d. \<exists>u. kseq (set_data i d) (kseq (bwrite i) (brelse i)) t = Ok () u \<and> ready u \<and>
       view u = (view s)(n := d) \<and> k_disk u = (k_disk s)(n := d) \<and> lru (k_bcache u) (i # remove1 i xs))"
proof -
  obtain i t where i: "bread 1 n s = Ok i t" "opens s n i t"
    using bread_opens [OF s n] free by blast
  note t = opens_ready [OF s i(2)]
  from i(2) obtain q where q: "i < NBUF" "t = s\<lparr>k_bcache := (k_bcache s)[i := q]\<rparr>" "has_block q n" "blocked q"
      "b_data q = view s n" "b_next q = b_next (k_bcache s ! i)" "b_prev q = b_prev (k_bcache s ! i)"
    unfolding opens_def by blast
  have len: "length (k_bcache s) = Suc NBUF" using s cache_okD(1) by (simp add: ready_def)
  have at: "k_bcache t ! i = q" using q(1,2) len by simp
  have lt: "lru (k_bcache t) xs"
    by (rule lru_cong [OF _ xs]) (simp add: q(2,6,7) nth_upd_proj)
  obtain u where u: "brelse i t = Ok () u" "closes t i u" "lru (k_bcache u) (i # remove1 i xs)"
    using brelse_closes [OF t(1) q(1) _ lt] q(4) at by auto
  have U: "ready u" "view u = view s" "k_disk u = k_disk s"
    using closes_ready [OF t(1) u(2,3)] t(2) u(2) q(2) by (auto simp: closes_def)
  have "\<exists>u. kseq (set_data i d) (kseq (bwrite i) (brelse i)) t = Ok () u \<and> ready u \<and>
       view u = (view s)(n := d) \<and> k_disk u = (k_disk s)(n := d) \<and> lru (k_bcache u) (i # remove1 i xs)" for d
  proof -
    let ?w = "written t i d"
    have nt: "n < k_disksize t" using n q(2) by simp
    have b: "has_block (k_bcache t ! i) n" "blocked (k_bcache t ! i)" using at q by simp_all
    note run = bwrite_written [OF t(1) q(1) b nt] and w = written_ready [OF t(1) q(1) b]
    have "lru (k_bcache ?w) xs" by (rule lru_cong [OF _ lt]) (simp add: written_def nth_upd_proj)
    moreover have "blocked (k_bcache ?w ! i)" using b(2) by (simp add: written_def nth_upd_proj [of b_lock])
    ultimately obtain v where v: "brelse i ?w = Ok () v" "closes ?w i v" "lru (k_bcache v) (i # remove1 i xs)"
      using brelse_closes [OF w(1) q(1)] by blast
    have "ready v" "view v = (view s)(n := d)" "k_disk v = (k_disk s)(n := d)"
      using closes_ready [OF w(1) v(2,3)] w(2,3) t(2) v(2) q(2) by (auto simp: closes_def)
    moreover have "kseq (set_data i d) (kseq (bwrite i) (brelse i)) t = Ok () v"
      using run v(1) by (metis kseq_then)
    ultimately show ?thesis using v(3) by blast
  qed
  with i(1) at q(5) t(2) u(1,3) U show ?thesis by blast
qed

definition cached_disk :: kernel where
  "cached_disk = (kernel0 (\<lambda>_. 0) 0 0 (\<lambda>_. replicate BSIZE 0))\<lparr>k_curproc := Some 0\<rparr>"

theorem cache_transparent_witness:
  "\<exists>s i t. binit cached_disk = Ok () s \<and> bread 1 7 s = Ok i t \<and> b_data (k_bcache t ! i) = replicate BSIZE 0"
proof -
  obtain B where B: "binit cached_disk = Ok () (cached_disk\<lparr>k_bcache := B\<rparr>)"
      "cache_ok (cached_disk\<lparr>k_bcache := B\<rparr>)" "\<forall>j<NBUF. \<not> blocked (B ! j) \<and> \<not> dirty (B ! j)"
    using binit_cache_ok [of cached_disk] by (auto simp: cached_disk_def kernel0_def buf0_def nth_append)
  let ?s = "cached_disk\<lparr>k_bcache := B\<rparr>"
  obtain xs where xs: "lru (k_bcache ?s) xs" using cache_okD(2) [OF B(2)] by blast
  have "ready ?s" using B(2) by (simp add: ready_def cached_disk_def kernel0_def)
  moreover have "(7 :: u32) < k_disksize ?s" by (simp add: cached_disk_def kernel0_def)
  moreover have "\<exists>j<NBUF. \<not> blocked (k_bcache ?s ! j) \<and> \<not> dirty (k_bcache ?s ! j)"
    using B(3) by (intro exI [of _ 0]) simp
  moreover have "\<forall>j<NBUF. has_block (k_bcache ?s ! j) 7 \<longrightarrow> \<not> blocked (k_bcache ?s ! j)" using B(3) by simp
  ultimately obtain i t where "bread 1 7 ?s = Ok i t" "b_data (k_bcache t ! i) = view ?s 7"
    using cache_transparent [OF _ _ xs, of 7] by blast
  moreover have "view ?s 7 = replicate BSIZE 0"
    using view_undirty [OF B(2), of 7] B(3) by (simp add: cached_disk_def kernel0_def)
  ultimately show ?thesis using B(1) by auto
qed

end
