(* ===== verification/Log_Writes.thy ===== *)
theory Log_Writes
  imports Log Cache
begin

text \<open>
  What the loops of the log (\<open>log.c\<close>) do to the disk: a step of \<open>write_log\<close>,
  \<open>install_trans\<close> or \<open>write_head\<close>, with an otherwise idle cache, writes one block
  and gives all buffers back, so the loops write a known sequence of blocks.
\<close>

section \<open>Idle caches\<close>

text \<open>No buffer is in use.\<close>

definition calm :: "kernel \<Rightarrow> bool" where
  "calm s \<longleftrightarrow> ready s \<and> (\<forall>j<NBUF. \<not> blocked (k_bcache s ! j))"

text \<open>The blocks whose only up-to-date copy is in the cache.\<close>

definition dirty_blocks :: "kernel \<Rightarrow> u32 set" where
  "dirty_blocks s = {n. \<exists>j<NBUF. has_block (k_bcache s ! j) n \<and> dirty (k_bcache s ! j)}"

lemma dirty_blocks_card:
  assumes "cache_ok s"
  shows "card {j. j < NBUF \<and> dirty (k_bcache s ! j)} = card (dirty_blocks s)"
proof -
  let ?J = "{j. j < NBUF \<and> dirty (k_bcache s ! j)}" and ?b = "\<lambda>j. b_blockno (k_bcache s ! j)"
  have dev: "has_block (k_bcache s ! j) (?b j)" if "j \<in> ?J" for j
    using cache_okD(3) [OF assms, of j] that by (simp add: entry_ok_def has_block_def)
  have "inj_on ?b ?J"
    using dev cache_okD(4) [OF assms] unfolding inj_on_def by (metis (no_types, lifting) mem_Collect_eq)
  moreover have "?b ` ?J = dirty_blocks s"
    using dev unfolding dirty_blocks_def image_def by (auto simp: has_block_def)
  ultimately show ?thesis by (metis card_image)
qed

lemma clean_buffers:
  assumes ok: "cache_ok s" and A: "finite A" "card A + card (dirty_blocks s) < NBUF"
  shows "\<exists>j<NBUF. j \<notin> A \<and> \<not> dirty (k_bcache s ! j)"
proof (rule ccontr)
  assume "\<not> ?thesis"
  then have "{0..<NBUF} \<subseteq> A \<union> {j. j < NBUF \<and> dirty (k_bcache s ! j)}" by auto
  then have "card {0..<NBUF} \<le> card (A \<union> {j. j < NBUF \<and> dirty (k_bcache s ! j)})"
    using A(1) by (intro card_mono) auto
  also have "\<dots> \<le> card A + card {j. j < NBUF \<and> dirty (k_bcache s ! j)}" by (rule card_Un_le)
  finally show False using A(2) by (simp add: dirty_blocks_card [OF ok])
qed

section \<open>Two blocks at a time\<close>

lemma opens_other: "opens s n i t \<Longrightarrow> j \<noteq> i \<Longrightarrow> k_bcache t ! j = k_bcache s ! j"
  by (auto simp: opens_def)

lemma opens_rest:
  assumes "opens s n i t"
  shows "k_disk t = k_disk s" "k_dtrace t = k_dtrace s" "k_log t = k_log s" "k_disksize t = k_disksize s"
  using assms by (auto simp: opens_def)

lemma opens_buffer:
  assumes "opens s n i t" "length (k_bcache s) = Suc NBUF"
  shows "i < NBUF" "has_block (k_bcache t ! i) n" "blocked (k_bcache t ! i)"
    "b_data (k_bcache t ! i) = view s n" "dirty (k_bcache t ! i) \<longleftrightarrow> dirty (k_bcache s ! i)"
  using assms by (auto simp: opens_def)

lemma opens_dirty_blocks:
  assumes s: "ready s" and o: "opens s n i t"
  shows "dirty_blocks t = dirty_blocks s"
proof -
  have len: "length (k_bcache s) = Suc NBUF" using s cache_okD(1) by (simp add: ready_def)
  have "has_block (k_bcache t ! j) m \<and> dirty (k_bcache t ! j) \<longleftrightarrow>
      has_block (k_bcache s ! j) m \<and> dirty (k_bcache s ! j)" for j m
  proof (cases "j = i")
    case True
    have "dirty (k_bcache s ! i) \<Longrightarrow> has_block (k_bcache s ! i) n" using o by (simp add: opens_def)
    with True opens_buffer [OF o len] show ?thesis by (auto simp: has_block_def)
  qed (simp add: opens_other [OF o])
  then show ?thesis by (simp add: dirty_blocks_def)
qed

lemma two_open:
  assumes s: "calm s" and ac: "a \<noteq> c" "a < k_disksize s" "c < k_disksize s"
    and d: "card (dirty_blocks s) < NBUF" "c \<in> dirty_blocks s \<or> Suc (card (dirty_blocks s)) < NBUF"
  obtains x t y u where "bread 1 a s = Ok x t" "opens s a x t" "bread 1 c t = Ok y u" "opens t c y u" "x \<noteq> y"
proof -
  from s have r: "ready s" and free: "\<And>j. j < NBUF \<Longrightarrow> \<not> blocked (k_bcache s ! j)" by (simp_all add: calm_def)
  from r have ok: "cache_ok s" by (simp add: ready_def)
  obtain j0 where "j0 < NBUF" "\<not> dirty (k_bcache s ! j0)"
    using clean_buffers [OF ok, of "{}"] d(1) by auto
  then obtain x t where x: "bread 1 a s = Ok x t" "opens s a x t"
    using bread_opens [OF r ac(2)] free by blast
  have rt: "ready t" by (rule opens_ready [OF r x(2)])
  note bx = opens_buffer [OF x(2) cache_okD(1) [OF ok]]
  have ot: "k_bcache t ! j = k_bcache s ! j" if "j \<noteq> x" for j by (rule opens_other [OF x(2) that])
  have "\<exists>y u. bread 1 c t = Ok y u \<and> opens t c y u"
  proof (rule bread_opens [OF rt])
    show "c < k_disksize t" using ac(3) opens_rest(4) [OF x(2)] by simp
    show "\<not> blocked (k_bcache t ! j)" if "j < NBUF" "has_block (k_bcache t ! j) c" for j
      using that bx(2) ac(1) free [of j] ot [of j] by (cases "j = x") (auto simp: has_block_def)
    show "(\<exists>j<NBUF. has_block (k_bcache t ! j) c) \<or> (\<exists>j<NBUF. \<not> blocked (k_bcache t ! j) \<and> \<not> dirty (k_bcache t ! j))"
    proof (cases "c \<in> dirty_blocks s")
      case True
      then have "c \<in> dirty_blocks t" using opens_dirty_blocks [OF r x(2)] by simp
      then show ?thesis by (auto simp: dirty_blocks_def)
    next
      case False
      with d(2) have "card {x} + card (dirty_blocks t) < NBUF"
        using opens_dirty_blocks [OF r x(2)] by simp
      then obtain j where "j < NBUF" "j \<noteq> x" "\<not> dirty (k_bcache t ! j)"
        using clean_buffers [of t "{x}"] rt by (auto simp: ready_def)
      with free [of j] ot [of j] show ?thesis by auto
    qed
  qed
  then obtain y u where y: "bread 1 c t = Ok y u" "opens t c y u" by blast
  have "x \<noteq> y" using y(2) bx(3) by (auto simp: opens_def)
  with x y show thesis by (rule that)
qed

text \<open>What is the same before and after buffers are given back.\<close>

definition same_blocks :: "kernel \<Rightarrow> kernel \<Rightarrow> bool" where
  "same_blocks w v \<longleftrightarrow> k_disk v = k_disk w \<and> k_dtrace v = k_dtrace w \<and> k_log v = k_log w \<and>
     k_disksize v = k_disksize w \<and> (\<forall>m. view v m = view w m) \<and> dirty_blocks v = dirty_blocks w"

lemma brelse_same:
  assumes w: "ready w" and i: "i < NBUF" "blocked (k_bcache w ! i)"
  shows "\<exists>v. brelse i w = Ok () v \<and> ready v \<and> same_blocks w v \<and>
    (\<forall>j. blocked (k_bcache v ! j) \<longleftrightarrow> j \<noteq> i \<and> blocked (k_bcache w ! j))"
proof -
  from w obtain xs where xs: "lru (k_bcache w) xs" using cache_okD(2) by (auto simp: ready_def)
  obtain v where v: "brelse i w = Ok () v" "closes w i v" "lru (k_bcache v) (i # remove1 i xs)"
    using brelse_closes [OF w i xs] by auto
  note same = closes_same [OF v(2)] and rv = closes_ready [OF w v(2,3)]
  have "same_blocks w v"
    using v(2) rv(2) by (simp add: same_blocks_def dirty_blocks_def closes_def same(1,3))
  with v(1) rv(1) same(5) show ?thesis by blast
qed

lemma release_two:
  assumes w: "ready w" and p: "p < NBUF" "blocked (k_bcache w ! p)" and q: "q < NBUF" "blocked (k_bcache w ! q)"
    and pq: "p \<noteq> q" and free: "\<And>j. j < NBUF \<Longrightarrow> j \<noteq> p \<Longrightarrow> j \<noteq> q \<Longrightarrow> \<not> blocked (k_bcache w ! j)"
  shows "\<exists>v. kseq (brelse p) (brelse q) w = Ok () v \<and> calm v \<and> same_blocks w v"
proof -
  obtain v where v: "brelse p w = Ok () v" "ready v" "same_blocks w v"
      "\<And>j. blocked (k_bcache v ! j) \<longleftrightarrow> j \<noteq> p \<and> blocked (k_bcache w ! j)"
    using brelse_same [OF w p] by blast
  obtain z where z: "brelse q v = Ok () z" "ready z" "same_blocks v z"
      "\<And>j. blocked (k_bcache z ! j) \<longleftrightarrow> j \<noteq> q \<and> blocked (k_bcache v ! j)"
    using brelse_same [OF v(2) q(1)] v(4) q pq by auto
  have "calm z" using z v free by (auto simp: calm_def)
  moreover have "same_blocks w z" using v(3) z(3) by (simp add: same_blocks_def)
  ultimately show ?thesis using v(1) z(1) by (auto simp: krun)
qed

text \<open>\<open>moved s n d v\<close>: \<open>d\<close> was written to block \<open>n\<close>, and all buffers are free again.\<close>

definition moved :: "kernel \<Rightarrow> u32 \<Rightarrow> u8 list \<Rightarrow> kernel \<Rightarrow> bool" where
  "moved s n d v \<longleftrightarrow> calm v \<and> k_disk v = (k_disk s)(n := d) \<and> k_dtrace v = k_dtrace s @ [(n, d)] \<and>
     (\<forall>m. view v m = (if m = n then d else view s m)) \<and> dirty_blocks v = dirty_blocks s - {n} \<and>
     k_log v = k_log s \<and> k_disksize v = k_disksize s"

lemma written_other [simp]: "j \<noteq> i \<Longrightarrow> k_bcache (written s i d) ! j = k_bcache s ! j"
  by (simp add: written_def)

lemma written_blocked:
  "blocked (k_bcache (written s i d) ! j) \<longleftrightarrow> blocked (k_bcache s ! j)"
  by (simp add: written_def nth_upd_proj [of b_lock])

lemma written_dirty_blocks:
  assumes s: "ready s" and i: "i < NBUF" "has_block (k_bcache s ! i) n"
  shows "dirty_blocks (written s i d) = dirty_blocks s - {n}"
proof -
  from s have ok: "cache_ok s" by (simp add: ready_def)
  note len = cache_okD(1) [OF ok]
  have i_clean: "\<not> dirty (k_bcache (written s i d) ! i)"
    using written_flags(2) [of "k_bcache s ! i" d] i len by (simp add: written_def)
  have "(has_block (k_bcache (written s i d) ! j) m \<and> dirty (k_bcache (written s i d) ! j)) \<longleftrightarrow>
      m \<noteq> n \<and> has_block (k_bcache s ! j) m \<and> dirty (k_bcache s ! j)" if "j < NBUF" for j m
  proof (cases "j = i")
    case True
    with i_clean i(2) show ?thesis by (auto simp: has_block_def)
  next
    case False
    with cache_okD(4) [OF ok that i(1) _ i(2)] show ?thesis by auto
  qed
  then show ?thesis unfolding dirty_blocks_def by blast
qed

lemma write_and_release:
  assumes s: "calm s" and x: "opens s a x t" and y: "opens t c y u" and xy: "x \<noteq> y"
    and z: "z = x \<and> n = a \<or> z = y \<and> n = c" and n: "n < k_disksize s"
    and pq: "p = x \<and> q = y \<or> p = y \<and> q = x"
  shows "\<exists>v. kseq (set_data z d) (kseq (bwrite z) (kseq (brelse p) (brelse q))) u = Ok () v \<and> moved s n d v"
proof -
  from s have rs: "ready s" and free: "\<And>j. j < NBUF \<Longrightarrow> \<not> blocked (k_bcache s ! j)" by (simp_all add: calm_def)
  note rt = opens_ready [OF rs x] note ru = opens_ready [OF rt(1) y]
  have ls: "length (k_bcache s) = Suc NBUF" "length (k_bcache t) = Suc NBUF"
    using rs rt(1) cache_okD(1) by (auto simp: ready_def)
  note bx = opens_buffer [OF x ls(1)] and yb = opens_buffer [OF y ls(2)]
  have ux: "k_bcache u ! x = k_bcache t ! x" by (rule opens_other [OF y xy])
  have zb: "z < NBUF" "has_block (k_bcache u ! z) n" "blocked (k_bcache u ! z)"
    using z bx yb ux by auto
  let ?w = "written u z d"
  have nu: "n < k_disksize u" using n opens_rest(4) [OF x] opens_rest(4) [OF y] by simp
  note run = bwrite_written [OF ru(1) zb nu] and w = written_ready [OF ru(1) zb]
  have "\<exists>v. kseq (brelse p) (brelse q) ?w = Ok () v \<and> calm v \<and> same_blocks ?w v"
  proof (rule release_two [OF w(1)])
    show "p < NBUF" "q < NBUF" "p \<noteq> q" "blocked (k_bcache ?w ! p)" "blocked (k_bcache ?w ! q)"
      using pq xy bx yb ux by (auto simp: written_blocked)
    show "\<not> blocked (k_bcache ?w ! j)" if "j < NBUF" "j \<noteq> p" "j \<noteq> q" for j
      using that free [of j] pq opens_other [OF x, of j] opens_other [OF y, of j] by (auto simp: written_blocked)
  qed
  then obtain v where v: "kseq (brelse p) (brelse q) ?w = Ok () v" "calm v" "same_blocks ?w v" by blast
  have "kseq (set_data z d) (kseq (bwrite z) (kseq (brelse p) (brelse q))) u = Ok () v"
    by (subst kseq_then [OF run]) (rule v(1))
  moreover have "moved s n d v"
    unfolding moved_def
    using v(2,3) w(2-4) rt(2) ru(2) opens_rest [OF x] opens_rest [OF y]
      written_dirty_blocks [OF ru(1) zb(1,2)] opens_dirty_blocks [OF rs x] opens_dirty_blocks [OF rt(1) y]
    by (simp add: same_blocks_def) (simp add: written_def)
  ultimately show ?thesis by blast
qed

lemma write_log_step:
  assumes s: "calm s" and ac: "a \<noteq> c" "a < k_disksize s" "c < k_disksize s"
    and d: "card (dirty_blocks s) < NBUF" "c \<in> dirty_blocks s"
  shows "\<exists>v. kbind (bread 1 a) (\<lambda>to. kbind (bread 1 c) (\<lambda>from. kbind (buf_data from) (\<lambda>d.
     kseq (set_data to d) (kseq (bwrite to) (kseq (brelse from) (brelse to)))))) s = Ok () v \<and>
     moved s a (view s c) v"
proof -
  obtain x t y u where o: "bread 1 a s = Ok x t" "opens s a x t" "bread 1 c t = Ok y u" "opens t c y u" "x \<noteq> y"
    by (rule two_open [OF s ac d(1)]) (use d(2) in blast)
  have rs: "ready s" using s by (simp add: calm_def)
  have "b_data (k_bcache u ! y) = view s c"
    using opens_buffer(4) [OF o(4)] opens_ready [OF rs o(2)] cache_okD(1) by (simp add: ready_def)
  with o write_and_release [OF s o(2,4,5), of x a y x] ac(2) show ?thesis by (simp add: krun)
qed

lemma install_step:
  assumes s: "calm s" and ac: "a \<noteq> c" "a < k_disksize s" "c < k_disksize s"
    and d: "card (dirty_blocks s) < NBUF" "c \<in> dirty_blocks s \<or> Suc (card (dirty_blocks s)) < NBUF"
  shows "\<exists>v. kbind (bread 1 a) (\<lambda>lbuf. kbind (bread 1 c) (\<lambda>dbuf. kbind (buf_data lbuf) (\<lambda>d.
     kseq (set_data dbuf d) (kseq (bwrite dbuf) (kseq (brelse lbuf) (brelse dbuf)))))) s = Ok () v \<and>
     moved s c (view s a) v"
proof -
  obtain x t y u where o: "bread 1 a s = Ok x t" "opens s a x t" "bread 1 c t = Ok y u" "opens t c y u" "x \<noteq> y"
    by (rule two_open [OF s ac d])
  have "length (k_bcache s) = Suc NBUF" using s cache_okD(1) by (simp add: calm_def ready_def)
  then have "b_data (k_bcache u ! x) = view s a"
    using opens_buffer(4) [OF o(2)] opens_other [OF o(4,5)] by simp
  with o write_and_release [OF s o(2,4,5), of y c x y] ac(3) show ?thesis by (simp add: krun)
qed

lemma head_step:
  assumes s: "calm s" and n: "n < k_disksize s" and d: "card (dirty_blocks s) < NBUF"
  shows "\<exists>v. kbind (bread 1 n) (\<lambda>b. kbind (buf_data b) (\<lambda>d.
     kseq (set_data b (f d)) (kseq (bwrite b) (brelse b)))) s = Ok () v \<and> moved s n (f (view s n)) v"
proof -
  from s have rs: "ready s" and free: "\<And>j. j < NBUF \<Longrightarrow> \<not> blocked (k_bcache s ! j)" by (simp_all add: calm_def)
  have ls: "length (k_bcache s) = Suc NBUF" and ok: "cache_ok s" using rs cache_okD(1) by (simp_all add: ready_def)
  obtain j0 where "j0 < NBUF" "\<not> dirty (k_bcache s ! j0)"
    using clean_buffers [OF ok, of "{}"] d by auto
  then obtain x t where x: "bread 1 n s = Ok x t" "opens s n x t"
    using bread_opens [OF rs n] free by blast
  note rt = opens_ready [OF rs x(2)] and bx = opens_buffer [OF x(2) ls]
  let ?d = "f (view s n)" let ?w = "written t x ?d"
  have "n < k_disksize t" using n opens_rest(4) [OF x(2)] by simp
  note run = bwrite_written [OF rt(1) bx(1-3) this] and w = written_ready [OF rt(1) bx(1-3)]
  obtain v where v: "brelse x ?w = Ok () v" "ready v" "same_blocks ?w v"
      "\<And>j. blocked (k_bcache v ! j) \<longleftrightarrow> j \<noteq> x \<and> blocked (k_bcache ?w ! j)"
    using brelse_same [OF w(1) bx(1)] bx(3) by (auto simp: written_blocked)
  have "calm v" using v(2,4) free opens_other [OF x(2)] by (auto simp: calm_def written_blocked)
  moreover have "kseq (set_data x ?d) (kseq (bwrite x) (brelse x)) t = Ok () v"
    by (subst kseq_then [OF run]) (rule v(1))
  ultimately show ?thesis
    using x(1) bx(4) v(3) w(2-4) rt(2) opens_rest [OF x(2)]
      written_dirty_blocks [OF rt(1) bx(1,2)] opens_dirty_blocks [OF rs x(2)]
    by (simp add: krun moved_def same_blocks_def) (simp add: written_def)
qed

section \<open>Sequences of block writes\<close>

definition apply_writes :: "(u32 \<times> u8 list) list \<Rightarrow> (u32 \<Rightarrow> u8 list) \<Rightarrow> u32 \<Rightarrow> u8 list" where
  "apply_writes W D = fold (\<lambda>(b, d) D. D(b := d)) W D"

lemma apply_writes_simps [simp]:
  "apply_writes [] D = D" "apply_writes (W @ V) D = apply_writes V (apply_writes W D)"
  "apply_writes ((b, d) # W) D = apply_writes W (D(b := d))"
  by (simp_all add: apply_writes_def)

lemma apply_writes_other: "b \<notin> fst ` set W \<Longrightarrow> apply_writes W D b = D b"
  by (induction W arbitrary: D) (auto simp: apply_writes_def)

lemma apply_writes_same:
  "b \<in> fst ` set W \<Longrightarrow> (\<And>d. (b, d) \<in> set W \<Longrightarrow> d = e) \<Longrightarrow> apply_writes W D b = e"
proof (induction W arbitrary: D)
  case (Cons w W)
  obtain c d where w: "w = (c, d)" by (cases w)
  show ?case
  proof (cases "b \<in> fst ` set W")
    case True
    with Cons w show ?thesis by (simp add: apply_writes_def)
  next
    case False
    with Cons.prems w have "c = b" "d = e" by auto
    with apply_writes_other [OF False, of "D(c := d)"] w show ?thesis by (simp add: apply_writes_def)
  qed
qed simp

text \<open>\<open>runs s W v\<close>: from \<open>s\<close>, the blocks \<open>W\<close> were written in this order.\<close>

definition runs :: "kernel \<Rightarrow> (u32 \<times> u8 list) list \<Rightarrow> kernel \<Rightarrow> bool" where
  "runs s W v \<longleftrightarrow> calm v \<and> k_disk v = apply_writes W (k_disk s) \<and> k_dtrace v = k_dtrace s @ W \<and>
     (\<forall>m. view v m = apply_writes W (view s) m) \<and> dirty_blocks v = dirty_blocks s - fst ` set W \<and>
     k_log v = k_log s \<and> k_disksize v = k_disksize s"

lemma runs_Nil: "calm s \<Longrightarrow> runs s [] s"
  by (simp add: runs_def)

lemma runs_moved: "runs s W v \<Longrightarrow> moved v n d u \<Longrightarrow> runs s (W @ [(n, d)]) u"
  by (auto simp: runs_def moved_def)

lemma runs_append: "runs s W v \<Longrightarrow> runs v V u \<Longrightarrow> runs s (W @ V) u"
proof -
  assume s: "runs s W v" and v: "runs v V u"
  then have "view v = apply_writes W (view s)" by (auto simp: runs_def)
  with s v show ?thesis by (auto simp: runs_def)
qed

lemma finite_dirty_blocks: "finite (dirty_blocks s)"
proof -
  have "dirty_blocks s \<subseteq> (\<lambda>j. b_blockno (k_bcache s ! j)) ` {0..<NBUF}"
    by (auto simp: dirty_blocks_def has_block_def)
  then show ?thesis by (rule finite_subset) simp
qed

lemma runs_dirty:
  "runs s W v \<Longrightarrow> card (dirty_blocks v) \<le> card (dirty_blocks s)"
  by (auto simp: runs_def intro!: card_mono finite_dirty_blocks)

section \<open>The writes of a transaction\<close>

text \<open>The header block and the blocks of the log. \<open>mkfs\<close> gives the log \<open>LOGSIZE\<close> blocks, the
  header among them, and \<open>log_write\<close> refuses to log more than the \<open>log.size - 1\<close> others.\<close>

definition log_block :: "u32 \<Rightarrow> nat \<Rightarrow> u32" where
  "log_block start i = start + of_nat i + 1"

definition log_area :: "u32 \<Rightarrow> u32 set" where
  "log_area start = insert start (log_block start ` {0..<LOGSIZE - 1})"

lemma log_block_inj:
  assumes "i < LOGSIZE" "j < LOGSIZE" "log_block start i = log_block start j"
  shows "i = j"
proof -
  have "(of_nat i :: u32) = of_nat j" using assms(3) by (simp add: log_block_def)
  then have "unat (of_nat i :: u32) = unat (of_nat j :: u32)" by simp
  with assms(1,2) show ?thesis by (simp add: unat_of_nat)
qed

lemma log_block_not_start: "i < LOGSIZE \<Longrightarrow> log_block start i \<noteq> start"
proof
  assume i: "i < LOGSIZE" and "log_block start i = start"
  then have "(of_nat (Suc i) :: u32) = 0" by (simp add: log_block_def add.commute)
  then have "unat (of_nat (Suc i) :: u32) = 0" by simp
  with i show False by (simp add: unat_of_nat del: of_nat_Suc)
qed

lemma log_block_bound:
  assumes "unat start + LOGSIZE < unat sz" "i < LOGSIZE"
  shows "log_block start i < sz" "start < sz"
proof -
  have "unat sz < 2 ^ 32" by (rule unat_u32_less)
  with assms have "unat (start + of_nat (Suc i)) = unat start + Suc i"
    by (simp add: unat_word_ariths unat_of_nat del: of_nat_Suc)
  moreover have "log_block start i = start + of_nat (Suc i)" by (simp add: log_block_def)
  ultimately show "log_block start i < sz"
    using assms by (simp add: word_less_nat_alt del: of_nat_Suc)
  show "start < sz" using assms by (simp add: word_less_nat_alt)
qed

lemma write_log_runs:
  assumes s: "calm s" and dev: "lg_dev (k_log s) = 1" and start: "start = lg_start (k_log s)"
    and bs: "bs = lh_block (lg_lh (k_log s))"
    and area: "unat start + LOGSIZE < unat (k_disksize s)"
    and home: "\<And>i. i < k \<Longrightarrow> bs ! i < k_disksize s \<and> bs ! i \<notin> log_area start \<and> bs ! i \<in> dirty_blocks s"
    and k: "k < LOGSIZE" and d: "card (dirty_blocks s) < NBUF"
  shows "\<exists>v. kfor [0..<k] (\<lambda>tail. kbind (kget k_log) (\<lambda>l.
       kbind (bread (lg_dev l) (lg_start l + of_nat tail + 1)) (\<lambda>to.
       kbind (bread (lg_dev l) (lh_block (lg_lh l) ! tail)) (\<lambda>from.
       kbind (buf_data from) (\<lambda>d.
       kseq (set_data to d) (kseq (bwrite to) (kseq (brelse from) (brelse to)))))))) s = Ok () v \<and>
     runs s (map (\<lambda>i. (log_block start i, view s (bs ! i))) [0..<k]) v"
  using home k
proof (induction k)
  case 0
  show ?case using runs_Nil [OF s] by (simp add: krun)
next
  case (Suc k)
  let ?body = "\<lambda>tail. kbind (kget k_log) (\<lambda>l.
       kbind (bread (lg_dev l) (lg_start l + of_nat tail + 1)) (\<lambda>to.
       kbind (bread (lg_dev l) (lh_block (lg_lh l) ! tail)) (\<lambda>from.
       kbind (buf_data from) (\<lambda>d.
       kseq (set_data to d) (kseq (bwrite to) (kseq (brelse from) (brelse to)))))))"
  let ?W = "map (\<lambda>i. (log_block start i, view s (bs ! i))) [0..<k]"
  obtain v where run: "kfor [0..<k] ?body s = Ok () v" and v: "runs s ?W v"
    using Suc.IH Suc.prems by auto
  let ?a = "log_block start k" and ?c = "bs ! k"
  have c: "?c < k_disksize s" "?c \<notin> log_area start" "?c \<in> dirty_blocks s"
    using Suc.prems(1) [of k] by auto
  have notW: "?c \<notin> fst ` set ?W" using c(2) Suc.prems(2) by (auto simp: log_area_def)
  have "\<exists>u. ?body k v = Ok () u \<and> moved v ?a (view v ?c) u"
  proof -
    have "?a \<in> log_area start" using Suc.prems(2) by (simp add: log_area_def)
    with c(2) have "?a \<noteq> ?c" by metis
    moreover have "?a < k_disksize v" "?c < k_disksize v"
      using c(1) log_block_bound(1) [OF area, of k] Suc.prems(2) v by (simp_all add: runs_def)
    moreover have "card (dirty_blocks v) < NBUF" using runs_dirty [OF v] d by simp
    moreover have "?c \<in> dirty_blocks v" using c(3) notW v by (auto simp: runs_def)
    ultimately show ?thesis
      using write_log_step [of v ?a ?c] v dev by (simp add: runs_def krun start bs log_block_def)
  qed
  then obtain u where u: "?body k v = Ok () u" "moved v ?a (view v ?c) u" by blast
  have "view v ?c = view s ?c" using v apply_writes_other [OF notW] by (simp add: runs_def)
  with runs_moved [OF v u(2)] have "runs s (map (\<lambda>i. (log_block start i, view s (bs ! i))) [0..<Suc k]) u" by simp
  moreover have "kfor [0..<Suc k] ?body s = Ok () u"
    using run u(1) by (simp add: kfor_append krun)
  ultimately show ?case by blast
qed

lemma install_runs:
  assumes s: "calm s" and dev: "lg_dev (k_log s) = 1" and start: "start = lg_start (k_log s)"
    and bs: "bs = lh_block (lg_lh (k_log s))"
    and area: "unat start + LOGSIZE < unat (k_disksize s)"
    and home: "\<And>i. i < k \<Longrightarrow> bs ! i < k_disksize s \<and> bs ! i \<notin> log_area start"
    and pinned: "dirty_blocks s = {} \<or>
      (\<forall>i<k. bs ! i \<in> dirty_blocks s) \<and> (\<forall>i<k. \<forall>j<k. bs ! i = bs ! j \<longrightarrow> i = j)"
    and k: "k < LOGSIZE" and d: "card (dirty_blocks s) < NBUF"
  shows "\<exists>v. kfor [0..<k] (\<lambda>tail. kbind (kget k_log) (\<lambda>l.
       kbind (bread (lg_dev l) (lg_start l + of_nat tail + 1)) (\<lambda>lbuf.
       kbind (bread (lg_dev l) (lh_block (lg_lh l) ! tail)) (\<lambda>dbuf.
       kbind (buf_data lbuf) (\<lambda>d.
       kseq (set_data dbuf d) (kseq (bwrite dbuf) (kseq (brelse lbuf) (brelse dbuf)))))))) s = Ok () v \<and>
     runs s (map (\<lambda>i. (bs ! i, view s (log_block start i))) [0..<k]) v"
  using home pinned k
proof (induction k)
  case 0
  show ?case using runs_Nil [OF s] by (simp add: krun)
next
  case (Suc k)
  let ?body = "\<lambda>tail. kbind (kget k_log) (\<lambda>l.
       kbind (bread (lg_dev l) (lg_start l + of_nat tail + 1)) (\<lambda>lbuf.
       kbind (bread (lg_dev l) (lh_block (lg_lh l) ! tail)) (\<lambda>dbuf.
       kbind (buf_data lbuf) (\<lambda>d.
       kseq (set_data dbuf d) (kseq (bwrite dbuf) (kseq (brelse lbuf) (brelse dbuf)))))))"
  let ?W = "map (\<lambda>i. (bs ! i, view s (log_block start i))) [0..<k]"
  obtain v where run: "kfor [0..<k] ?body s = Ok () v" and v: "runs s ?W v"
  proof -
    have "bs ! i < k_disksize s \<and> bs ! i \<notin> log_area start" if "i < k" for i
      using Suc.prems(1) [of i] that by simp
    moreover have "dirty_blocks s = {} \<or>
      (\<forall>i<k. bs ! i \<in> dirty_blocks s) \<and> (\<forall>i<k. \<forall>j<k. bs ! i = bs ! j \<longrightarrow> i = j)"
      using Suc.prems(2) by (simp add: All_less_Suc) blast
    ultimately show ?thesis using Suc.IH Suc.prems(3) that by simp blast
  qed
  let ?a = "log_block start k" and ?c = "bs ! k"
  have c: "?c < k_disksize s" "?c \<notin> log_area start" using Suc.prems(1) [of k] by auto
  have a: "?a \<in> log_area start" using Suc.prems(3) by (simp add: log_area_def)
  have notW: "?a \<notin> fst ` set ?W"
  proof
    assume "?a \<in> fst ` set ?W"
    then obtain i where "i < k" "?a = bs ! i" by auto
    with Suc.prems(1) [of i] a show False by simp
  qed
  have "\<exists>u. ?body k v = Ok () u \<and> moved v ?c (view v ?a) u"
  proof -
    have "?a \<noteq> ?c" using a c(2) by metis
    moreover have "?a < k_disksize v" "?c < k_disksize v"
      using c(1) log_block_bound(1) [OF area, of k] Suc.prems(3) v by (simp_all add: runs_def)
    moreover have "card (dirty_blocks v) < NBUF" using runs_dirty [OF v] d by simp
    moreover have "?c \<in> dirty_blocks v \<or> Suc (card (dirty_blocks v)) < NBUF"
      using Suc.prems(2)
    proof
      assume "dirty_blocks s = {}"
      with runs_dirty [OF v] show ?thesis by simp
    next
      assume p: "(\<forall>i<Suc k. bs ! i \<in> dirty_blocks s) \<and> (\<forall>i<Suc k. \<forall>j<Suc k. bs ! i = bs ! j \<longrightarrow> i = j)"
      have "?c \<notin> fst ` set ?W"
      proof
        assume "?c \<in> fst ` set ?W"
        then obtain i where "i < k" "?c = bs ! i" by auto
        with p show False by (metis less_SucI lessI less_irrefl)
      qed
      with p v show ?thesis by (auto simp: runs_def)
    qed
    ultimately show ?thesis
      using install_step [of v ?a ?c] v dev by (simp add: runs_def krun start bs log_block_def)
  qed
  then obtain u where u: "?body k v = Ok () u" "moved v ?c (view v ?a) u" by blast
  have "view v ?a = view s ?a" using v apply_writes_other [OF notW] by (simp add: runs_def)
  with runs_moved [OF v u(2)] have "runs s (map (\<lambda>i. (bs ! i, view s (log_block start i))) [0..<Suc k]) u" by simp
  moreover have "kfor [0..<Suc k] ?body s = Ok () u"
    using run u(1) by (simp add: kfor_append krun)
  ultimately show ?case by blast
qed

end
