(* ===== verification/Recovery.thy ===== *)
theory Recovery
  imports Log_Writes
begin

text \<open>
  The log (\<open>log.c\<close>) makes a transaction atomic: after a crash at any point of
  \<open>commit\<close>, recovery leaves on the disk either all blocks of the transaction or
  none. The argument has two parts: what the sequence of writes of a commit,
  stopped anywhere, leaves on a disk, and that \<open>commit\<close> and \<open>recover_from_log\<close>
  perform these sequences through the block cache.
\<close>

section \<open>The header block\<close>

definition head_enc :: "u32 list \<Rightarrow> u8 list \<Rightarrow> u8 list" where
  "head_enc bs d = put_words (put32 d 0 (of_nat (length bs))) 4 bs"

definition head_dec :: "u8 list \<Rightarrow> u32 list" where
  "head_dec d = map (\<lambda>i. get32 d (4 * (i + 1))) [0..<nat (sint (get32 d 0))]"

text \<open>The interface between the log and its header: what is written can be read back.\<close>

locale log_header =
  fixes enc :: "u32 list \<Rightarrow> u8 list \<Rightarrow> u8 list" and dec :: "u8 list \<Rightarrow> u32 list"
  assumes dec_enc: "length bs \<le> LOGSIZE \<Longrightarrow> length d = BSIZE \<Longrightarrow> dec (enc bs d) = bs"
    and length_enc: "length (enc bs d) = length d"

interpretation head: log_header head_enc head_dec
proof
  fix bs :: "u32 list" and d :: "u8 list"
  assume n: "length bs \<le> LOGSIZE" and d: "length d = BSIZE"
  have "get32 (head_enc bs d) 0 = of_nat (length bs)"
    using d by (simp add: head_enc_def get32_put_words_below get32_put32_same)
  moreover have "sint (of_nat (length bs) :: u32) = int (length bs)"
    using n by (simp add: signed_of_nat signed_take_bit_int_eq_self)
  ultimately show "head_dec (head_enc bs d) = bs"
    using n d get32_put_words [of _ bs 4 "put32 d 0 (of_nat (length bs))"]
    by (intro nth_equalityI) (simp_all add: head_dec_def head_enc_def add.commute)
qed (simp add: head_enc_def)

section \<open>Crashes\<close>

text \<open>The writes of \<open>commit\<close>: the log, the header, the home blocks, the empty header.
  \<open>f\<close> is what the cache holds.\<close>

definition commit_writes ::
  "(u32 list \<Rightarrow> u8 list \<Rightarrow> u8 list) \<Rightarrow> u32 \<Rightarrow> u32 list \<Rightarrow> (u32 \<Rightarrow> u8 list) \<Rightarrow> (u32 \<times> u8 list) list" where
  "commit_writes enc start bs f =
     map (\<lambda>i. (log_block start i, f (bs ! i))) [0..<length bs] @
     [(start, enc bs (f start))] @
     map (\<lambda>i. (bs ! i, f (bs ! i))) [0..<length bs] @
     [(start, enc [] (enc bs (f start)))]"

text \<open>The writes of recovery from the disk \<open>D\<close>.\<close>

definition recovery_writes ::
  "(u32 list \<Rightarrow> u8 list \<Rightarrow> u8 list) \<Rightarrow> (u8 list \<Rightarrow> u32 list) \<Rightarrow> u32 \<Rightarrow> (u32 \<Rightarrow> u8 list) \<Rightarrow> (u32 \<times> u8 list) list" where
  "recovery_writes enc dec start D =
     map (\<lambda>i. (dec (D start) ! i, D (log_block start i))) [0..<length (dec (D start))] @
     [(start, enc [] (D start))]"

lemma home_writes:
  "apply_writes (map (\<lambda>i. (bs ! i, f (bs ! i))) [0..<length bs]) D b = (if b \<in> set bs then f b else D b)"
proof (cases "b \<in> set bs")
  case True
  then obtain i where "i < length bs" "bs ! i = b" by (auto simp: in_set_conv_nth)
  then have "b \<in> fst ` set (map (\<lambda>i. (bs ! i, f (bs ! i))) [0..<length bs])" by force
  then have "apply_writes (map (\<lambda>i. (bs ! i, f (bs ! i))) [0..<length bs]) D b = f b"
    by (rule apply_writes_same) auto
  with True show ?thesis by simp
next
  case False
  then have "b \<notin> fst ` set (map (\<lambda>i. (bs ! i, f (bs ! i))) [0..<length bs])" by auto
  with False show ?thesis by (simp add: apply_writes_other)
qed

lemma home_prefix:
  "b \<notin> set bs \<Longrightarrow> apply_writes (take k (map (\<lambda>i. (bs ! i, f (bs ! i))) [0..<length bs])) D b = D b"
  by (rule apply_writes_other) (auto dest!: in_set_takeD)

lemma log_writes:
  assumes "i < length bs" "length bs < LOGSIZE"
  shows "apply_writes (map (\<lambda>i. (log_block start i, f (bs ! i))) [0..<length bs]) D (log_block start i) = f (bs ! i)"
proof (rule apply_writes_same)
  show "log_block start i \<in> fst ` set (map (\<lambda>i. (log_block start i, f (bs ! i))) [0..<length bs])"
    using assms by force
  show "d = f (bs ! i)"
    if "(log_block start i, d) \<in> set (map (\<lambda>i. (log_block start i, f (bs ! i))) [0..<length bs])" for d
  proof -
    from that obtain j where j: "j < length bs" "log_block start i = log_block start j" "d = f (bs ! j)" by auto
    with log_block_inj [OF _ _ j(2)] assms have "i = j" by simp
    with j(3) show ?thesis by simp
  qed
qed

lemma apply_writes_cases: "apply_writes W D b = D b \<or> (b, apply_writes W D b) \<in> set W"
proof (induction W arbitrary: D)
  case (Cons w W)
  obtain c d where w: "w = (c, d)" by (cases w)
  let ?D = "D(c := d)"
  have "?D b = D b \<or> (b, ?D b) = w" by (simp add: w)
  then show ?case using Cons [of ?D] unfolding w apply_writes_simps list.set by (metis insertCI)
qed simp

lemma nth_image_set: "(!) bs ` {0..<length bs} = set bs"
  by (metis list.set_map map_nth set_upt)

lemma commit_writes_blocks:
  "fst ` set (commit_writes enc start bs f) = insert start (set bs \<union> log_block start ` {0..<length bs})"
  by (auto simp: commit_writes_def image_image image_Un nth_image_set)

lemma recovery_writes_blocks:
  "fst ` set (recovery_writes enc dec start D) = insert start (set (dec (D start)))"
  by (auto simp: recovery_writes_def image_image nth_image_set)

lemma apply_writes_indep: "b \<in> fst ` set W \<Longrightarrow> apply_writes W D b = apply_writes W E b"
proof (induction W arbitrary: D E)
  case (Cons w W)
  obtain c d where w: "w = (c, d)" by (cases w)
  show ?case
  proof (cases "b \<in> fst ` set W")
    case True
    then show ?thesis using Cons.IH by (simp add: w)
  next
    case False
    with Cons.prems show ?thesis by (simp add: w apply_writes_other)
  qed
qed simp

text \<open>The header that a stopped commit leaves.\<close>

lemma crash_header:
  assumes n: "length bs < LOGSIZE" and home: "set bs \<inter> log_area start = {}"
  shows "apply_writes (take k (commit_writes enc start bs f)) D start
    \<in> {D start, enc bs (f start), enc [] (enc bs (f start))}" (is "?h \<in> _")
proof -
  have "start \<notin> set bs" using home by (auto simp: log_area_def)
  moreover have "?h = D start \<or> (start, ?h) \<in> set (commit_writes enc start bs f)"
    using apply_writes_cases [of "take k (commit_writes enc start bs f)" D start] by (auto dest: in_set_takeD)
  moreover have "start \<noteq> log_block start i" if "i < length bs" for i
    using that n log_block_not_start [of i start] by simp
  then have "d = enc bs (f start) \<or> d = enc [] (enc bs (f start))"
    if "(start, d) \<in> set (commit_writes enc start bs f)" for d
    using that \<open>start \<notin> set bs\<close> by (auto simp: commit_writes_def)
  ultimately show ?thesis by blast
qed

context log_header
begin

text \<open>A crash after any number \<open>k\<close> of the writes of a commit, then recovery: outside the
  log, the disk is the old one or the new one, and which one depends on the header write.\<close>

lemma crash_atomic:
  assumes n: "length bs < LOGSIZE" and home: "set bs \<inter> log_area start = {}"
    and head: "dec (D start) = []" "f start = D start" "length (D start) = BSIZE"
    and k: "k \<le> length (commit_writes enc start bs f)" and b: "b \<notin> log_area start"
  defines "C \<equiv> apply_writes (take k (commit_writes enc start bs f)) D"
  shows "apply_writes (recovery_writes enc dec start C) C b =
    (if k \<le> length bs then D b else if b \<in> set bs then f b else D b)"
proof -
  let ?L = "map (\<lambda>i. (log_block start i, f (bs ! i))) [0..<length bs]"
  let ?H = "map (\<lambda>i. (bs ! i, f (bs ! i))) [0..<length bs]"
  let ?h = "enc bs (D start)" and ?P = "apply_writes ?L D"
  have start: "start \<notin> set bs" and bstart: "b \<noteq> start" using home b by (auto simp: log_area_def)
  have notL: "c \<notin> fst ` set ?L" if "c = start \<or> c \<notin> log_area start" for c
    using that n log_block_not_start by (force simp: log_area_def)
  have dec: "dec ?h = bs" "dec (enc [] ?h) = []" using n head(3) by (simp_all add: dec_enc length_enc)
  consider (log) "k \<le> length bs" | (home) m where "k = Suc (length bs) + m" "m \<le> length bs"
    | (all) "k = Suc (Suc (2 * length bs))"
  proof -
    have "k \<le> Suc (Suc (2 * length bs))" using k by (simp add: commit_writes_def)
    then have "k \<le> length bs \<or> k = Suc (length bs) + (k - Suc (length bs)) \<and> k - Suc (length bs) \<le> length bs \<or>
      k = Suc (Suc (2 * length bs))" by linarith
    then show thesis using that by blast
  qed
  then show ?thesis
  proof cases
    case log
    then have C: "C = apply_writes (take k ?L) D" by (simp add: C_def commit_writes_def)
    have "C c = D c" if "c = start \<or> c \<notin> log_area start" for c
      unfolding C using notL [OF that] by (intro apply_writes_other) (auto dest!: in_set_takeD)
    with b bstart log head show ?thesis by (simp add: recovery_writes_def)
  next
    case home
    let ?D1 = "?P(start := ?h)"
    have C: "C = apply_writes (take m ?H) ?D1"
      using home head(2) by (simp add: C_def commit_writes_def)
    have Cs: "C start = ?h" unfolding C using start by (simp add: home_prefix)
    have Cl: "C (log_block start i) = f (bs ! i)" if "i < length bs" for i
    proof -
      have "log_block start i \<in> log_area start" "log_block start i \<noteq> start"
        using that n log_block_not_start [of i start] by (auto simp: log_area_def)
      moreover from this have "log_block start i \<notin> set bs" using assms(2) by blast
      ultimately show ?thesis unfolding C using log_writes [OF that n] by (simp add: home_prefix)
    qed
    have "map (\<lambda>i. (bs ! i, C (log_block start i))) [0..<length bs] = ?H" using Cl by simp
    then have "recovery_writes enc dec start C = ?H @ [(start, enc [] ?h)]"
      by (simp add: recovery_writes_def Cs dec)
    moreover have "b \<notin> set bs \<Longrightarrow> C b = D b"
      unfolding C using bstart notL [of b] b by (simp add: home_prefix apply_writes_other)
    ultimately show ?thesis using home(1) bstart by (simp add: home_writes)
  next
    case all
    then have "C = (apply_writes ?H (?P(start := ?h)))(start := enc [] ?h)"
      using head(2) by (simp add: C_def commit_writes_def)
    then show ?thesis
      using all bstart dec notL [of b] b
      by (simp add: recovery_writes_def home_writes apply_writes_other)
  qed
qed

text \<open>Recovery that is itself stopped can be started again.\<close>

lemma restart:
  assumes bs: "bs = dec (D start)" "length bs < LOGSIZE" and home: "set bs \<inter> log_area start = {}"
    and len: "length (D start) = BSIZE" and k: "k \<le> length (recovery_writes enc dec start D)"
  defines "C \<equiv> apply_writes (take k (recovery_writes enc dec start D)) D"
  shows "b \<noteq> start \<Longrightarrow>
      apply_writes (recovery_writes enc dec start C) C b = apply_writes (recovery_writes enc dec start D) D b"
    and "dec (C start) \<in> {[], bs}" and "length (C start) = BSIZE"
proof -
  let ?R = "recovery_writes enc dec start D"
  let ?H = "map (\<lambda>i. (bs ! i, D (log_block start i))) [0..<length bs]"
  have R: "?R = ?H @ [(start, enc [] (D start))]" by (simp add: recovery_writes_def bs(1))
  have fH: "fst ` set ?H = set bs" by (simp add: image_image nth_image_set)
  have "start \<notin> set bs" using home by (auto simp: log_area_def)
  have inH: "fst ` set (take k ?H) \<subseteq> set bs" using set_take_subset [of k ?H] fH by blast
  have "dec (enc [] (D start)) = []" using len by (simp add: dec_enc)
  consider (some) "k \<le> length bs" | (all) "k = Suc (length bs)" using k R by fastforce
  then have "(b \<noteq> start \<longrightarrow> apply_writes (recovery_writes enc dec start C) C b = apply_writes ?R D b) \<and>
    dec (C start) \<in> {[], bs} \<and> length (C start) = BSIZE" for b
  proof cases
    case some
    then have C: "C = apply_writes (take k ?H) D" by (simp add: C_def R)
    have out: "C c = D c" if "c \<notin> set bs" for c
      unfolding C by (rule apply_writes_other) (use that inH in blast)
    have st: "C start = D start" by (rule out [OF \<open>start \<notin> set bs\<close>])
    have "C (log_block start i) = D (log_block start i)" if "i < length bs" for i
      by (rule out) (use that bs(2) home in \<open>auto simp: log_area_def\<close>)
    then have "recovery_writes enc dec start C = ?R" using st bs(1) by (simp add: recovery_writes_def)
    moreover have "apply_writes ?R C b = apply_writes ?R D b" if "b \<noteq> start"
    proof (cases "b \<in> set bs")
      case True
      then show ?thesis using apply_writes_indep [of b ?R C D] fH by (simp add: R image_Un)
    next
      case False
      then show ?thesis using that out [OF False] fH by (simp add: R apply_writes_other)
    qed
    ultimately show ?thesis using st bs(1) len by simp
  next
    case all
    then have C: "C = apply_writes ?R D" by (simp add: C_def R)
    then have st: "C start = enc [] (D start)" by (simp add: R)
    then have "recovery_writes enc dec start C = [(start, enc [] (C start))]"
      using \<open>dec (enc [] (D start)) = []\<close> by (simp add: recovery_writes_def)
    then show ?thesis using C st \<open>dec (enc [] (D start)) = []\<close> len by (simp add: length_enc)
  qed
  then show "b \<noteq> start \<Longrightarrow> apply_writes (recovery_writes enc dec start C) C b = apply_writes ?R D b"
    and "dec (C start) \<in> {[], bs}" and "length (C start) = BSIZE"
    by blast+
qed

end

section \<open>Commit and recovery through the cache\<close>

lemma log_update_frame [simp]:
  "view (s\<lparr>k_log := l\<rparr>) = view s" "dirty_blocks (s\<lparr>k_log := l\<rparr>) = dirty_blocks s"
  "calm (s\<lparr>k_log := l\<rparr>) = calm s" "ready (s\<lparr>k_log := l\<rparr>) = ready s"
  by (simp_all add: fun_eq_iff view_def dirty_blocks_def calm_def ready_def cache_ok_def split: option.split)

lemma runs_with_log: "runs s W v \<Longrightarrow> runs (s\<lparr>k_log := l\<rparr>) W (v\<lparr>k_log := l\<rparr>)"
  by (simp add: runs_def)

lemma view_clean:
  assumes "cache_ok s" "n \<notin> dirty_blocks s"
  shows "view s n = k_disk s n"
  using assms by (intro view_undirty) (auto simp: dirty_blocks_def)

lemma log_runs [krun]:
  "log_n s = Ok (lh_n (lg_lh (k_log s))) s"
  "upd_log f s = Ok () (s\<lparr>k_log := f (k_log s)\<rparr>)"
  "set_log_n n s = Ok () (s\<lparr>k_log := (k_log s)\<lparr>lg_lh := (lg_lh (k_log s))\<lparr>lh_n := n\<rparr>\<rparr>\<rparr>)"
  by (simp_all add: log_n_def upd_log_def set_log_n_def krun)

lemma write_head_runs:
  assumes s: "calm s" and dev: "lg_dev (k_log s) = 1"
    and n: "lg_start (k_log s) < k_disksize s" and d: "card (dirty_blocks s) < NBUF"
    and bs: "0 \<le> lh_n (lg_lh (k_log s))" "bs = take (nat (lh_n (lg_lh (k_log s)))) (lh_block (lg_lh (k_log s)))"
      "nat (lh_n (lg_lh (k_log s))) \<le> length (lh_block (lg_lh (k_log s)))"
  shows "\<exists>v. write_head s = Ok () v \<and>
    runs s [(lg_start (k_log s), head_enc bs (view s (lg_start (k_log s))))] v"
proof -
  let ?f = "\<lambda>d. put_words (put32 d 0 (of_int (lh_n (lg_lh (k_log s))))) 4
    (take (nat (lh_n (lg_lh (k_log s)))) (lh_block (lg_lh (k_log s))))"
  obtain v where v: "kbind (bread 1 (lg_start (k_log s))) (\<lambda>b. kbind (buf_data b) (\<lambda>d.
      kseq (set_data b (?f d)) (kseq (bwrite b) (brelse b)))) s = Ok () v"
      "moved s (lg_start (k_log s)) (?f (view s (lg_start (k_log s)))) v"
    using head_step [OF s n d, of ?f] by blast
  have "write_head s = Ok () v"
    using v(1) dev by (simp add: write_head_def krun Let_def)
  moreover have "(of_int (lh_n (lg_lh (k_log s))) :: u32) = of_nat (length bs)"
    using bs by (simp add: min_def of_nat_nat)
  ultimately show ?thesis
    using runs_moved [OF runs_Nil [OF s] v(2)] bs(2) by (auto simp: head_enc_def)
qed

text \<open>The blocks of the current transaction.\<close>

definition log_blocks :: "kernel \<Rightarrow> u32 list" where
  "log_blocks s = take (nat (lh_n (lg_lh (k_log s)))) (lh_block (lg_lh (k_log s)))"

text \<open>The superblock, as \<open>readsb\<close> reads it, names the start of the log and its size.\<close>

definition log_place :: "(u32 \<Rightarrow> u8 list) \<Rightarrow> u32 \<Rightarrow> u32 \<Rightarrow> bool" where
  "log_place D start n \<longleftrightarrow> get32 (D 1) 16 = start \<and> get32 (D 1) 12 = n \<and> 1 \<notin> log_area start \<and>
     length (D start) = BSIZE"

text \<open>Between two operations on the log: the logged blocks are the dirty blocks of the
  cache, and the header on the disk says that nothing has to be installed.\<close>

definition log_ok :: "kernel \<Rightarrow> bool" where
  "log_ok s \<longleftrightarrow> calm s \<and> lg_dev (k_log s) = 1 \<and>
     log_place (k_disk s) (lg_start (k_log s)) (lg_size (k_log s)) \<and>
     head_dec (k_disk s (lg_start (k_log s))) = [] \<and>
     unat (lg_start (k_log s)) + LOGSIZE < unat (k_disksize s) \<and> 1 < k_disksize s \<and>
     0 \<le> lh_n (lg_lh (k_log s)) \<and> lh_n (lg_lh (k_log s)) < int LOGSIZE \<and>
     length (lh_block (lg_lh (k_log s))) = LOGSIZE \<and>
     distinct (log_blocks s) \<and> set (log_blocks s) = dirty_blocks s \<and>
     (\<forall>b\<in>set (log_blocks s). b < k_disksize s \<and> b \<noteq> 1 \<and> b \<notin> log_area (lg_start (k_log s)))"

definition emptied :: "log \<Rightarrow> log" where
  "emptied l = l\<lparr>lg_lh := (lg_lh l)\<lparr>lh_n := 0\<rparr>\<rparr>"

lemma emptied_simps [simp]:
  "lg_dev (emptied l) = lg_dev l" "lg_start (emptied l) = lg_start l" "lg_size (emptied l) = lg_size l"
  "lh_n (lg_lh (emptied l)) = 0" "lh_block (lg_lh (emptied l)) = lh_block (lg_lh l)"
  "lg_outstanding (emptied l) = lg_outstanding l" "lg_committing (emptied l) = lg_committing l"
  by (simp_all add: emptied_def)

lemma log_okD:
  assumes "log_ok s"
  shows "calm s" "cache_ok s" "lg_dev (k_log s) = 1"
    "log_place (k_disk s) (lg_start (k_log s)) (lg_size (k_log s))"
    "head_dec (k_disk s (lg_start (k_log s))) = []"
    "unat (lg_start (k_log s)) + LOGSIZE < unat (k_disksize s)" "1 < k_disksize s"
    "0 \<le> lh_n (lg_lh (k_log s))" "lh_n (lg_lh (k_log s)) < int LOGSIZE"
    "length (lh_block (lg_lh (k_log s))) = LOGSIZE"
    "distinct (log_blocks s)" "set (log_blocks s) = dirty_blocks s"
    "b \<in> dirty_blocks s \<Longrightarrow> b < k_disksize s \<and> b \<noteq> 1 \<and> b \<notin> log_area (lg_start (k_log s))"
    "length (log_blocks s) = nat (lh_n (lg_lh (k_log s)))" "length (log_blocks s) < LOGSIZE"
    "card (dirty_blocks s) = length (log_blocks s)"
    "i < length (log_blocks s) \<Longrightarrow> lh_block (lg_lh (k_log s)) ! i = log_blocks s ! i"
proof -
  show "calm s" "cache_ok s" "lg_dev (k_log s) = 1"
    "log_place (k_disk s) (lg_start (k_log s)) (lg_size (k_log s))"
    "head_dec (k_disk s (lg_start (k_log s))) = []"
    "unat (lg_start (k_log s)) + LOGSIZE < unat (k_disksize s)" "1 < k_disksize s"
    "0 \<le> lh_n (lg_lh (k_log s))" "lh_n (lg_lh (k_log s)) < int LOGSIZE"
    "length (lh_block (lg_lh (k_log s))) = LOGSIZE"
    "distinct (log_blocks s)" "set (log_blocks s) = dirty_blocks s"
    "b \<in> dirty_blocks s \<Longrightarrow> b < k_disksize s \<and> b \<noteq> 1 \<and> b \<notin> log_area (lg_start (k_log s))"
    using assms by (simp_all add: log_ok_def calm_def ready_def)
  then show "length (log_blocks s) = nat (lh_n (lg_lh (k_log s)))" by (simp add: log_blocks_def min_def)
  with \<open>lh_n (lg_lh (k_log s)) < int LOGSIZE\<close> show "length (log_blocks s) < LOGSIZE" by simp
  show "card (dirty_blocks s) = length (log_blocks s)"
    using \<open>distinct (log_blocks s)\<close> \<open>set (log_blocks s) = dirty_blocks s\<close> by (metis distinct_card)
  show "i < length (log_blocks s) \<Longrightarrow> lh_block (lg_lh (k_log s)) ! i = log_blocks s ! i"
    by (simp add: log_blocks_def)
qed

text \<open>The two loops, over the list of logged blocks.\<close>

lemma write_log_writes:
  assumes s: "calm s" and dev: "lg_dev (k_log s) = 1" and start: "start = lg_start (k_log s)"
    and area: "unat start + LOGSIZE < unat (k_disksize s)"
    and bs: "bs = log_blocks s" "length bs = nat (lh_n (lg_lh (k_log s)))" "length bs < LOGSIZE"
    and home: "\<And>b. b \<in> set bs \<Longrightarrow> b < k_disksize s \<and> b \<notin> log_area start \<and> b \<in> dirty_blocks s"
    and d: "card (dirty_blocks s) < NBUF"
  shows "\<exists>v. write_log s = Ok () v \<and> runs s (map (\<lambda>i. (log_block start i, view s (bs ! i))) [0..<length bs]) v"
proof -
  have nth: "lh_block (lg_lh (k_log s)) ! i = bs ! i" if "i < length bs" for i
    using that bs(1) by (simp add: log_blocks_def)
  have "lh_block (lg_lh (k_log s)) ! i < k_disksize s \<and> lh_block (lg_lh (k_log s)) ! i \<notin> log_area start \<and>
      lh_block (lg_lh (k_log s)) ! i \<in> dirty_blocks s" if "i < length bs" for i
    using home [OF nth_mem [OF that]] nth [OF that] by simp
  from write_log_runs [OF s dev start refl area this bs(3) d]
  obtain v where v: "write_log s = Ok () v"
    "runs s (map (\<lambda>i. (log_block start i, view s (lh_block (lg_lh (k_log s)) ! i))) [0..<length bs]) v"
    by (auto simp: write_log_def krun bs(2))
  moreover have "map (\<lambda>i. (log_block start i, view s (lh_block (lg_lh (k_log s)) ! i))) [0..<length bs] =
      map (\<lambda>i. (log_block start i, view s (bs ! i))) [0..<length bs]"
    using nth by simp
  ultimately show ?thesis by auto
qed

lemma install_writes:
  assumes s: "calm s" and dev: "lg_dev (k_log s) = 1" and start: "start = lg_start (k_log s)"
    and area: "unat start + LOGSIZE < unat (k_disksize s)"
    and bs: "bs = log_blocks s" "length bs = nat (lh_n (lg_lh (k_log s)))" "length bs < LOGSIZE"
    and home: "\<And>b. b \<in> set bs \<Longrightarrow> b < k_disksize s \<and> b \<notin> log_area start"
    and pinned: "dirty_blocks s = {} \<or> distinct bs \<and> set bs \<subseteq> dirty_blocks s"
    and d: "card (dirty_blocks s) < NBUF"
  shows "\<exists>v. install_trans s = Ok () v \<and> runs s (map (\<lambda>i. (bs ! i, view s (log_block start i))) [0..<length bs]) v"
proof -
  let ?b = "lh_block (lg_lh (k_log s))"
  have nth: "?b ! i = bs ! i" if "i < length bs" for i
    using that bs(1) by (simp add: log_blocks_def)
  have h: "?b ! i < k_disksize s \<and> ?b ! i \<notin> log_area start" if "i < length bs" for i
    using home [OF nth_mem [OF that]] nth [OF that] by simp
  have p: "dirty_blocks s = {} \<or> (\<forall>i<length bs. ?b ! i \<in> dirty_blocks s) \<and>
      (\<forall>i<length bs. \<forall>j<length bs. ?b ! i = ?b ! j \<longrightarrow> i = j)"
    using pinned by (auto simp: nth nth_eq_iff_index_eq)
  from install_runs [OF s dev start refl area h p bs(3) d]
  obtain v where v: "install_trans s = Ok () v"
    "runs s (map (\<lambda>i. (?b ! i, view s (log_block start i))) [0..<length bs]) v"
    by (auto simp: install_trans_def krun bs(2))
  moreover have "map (\<lambda>i. (?b ! i, view s (log_block start i))) [0..<length bs] =
      map (\<lambda>i. (bs ! i, view s (log_block start i))) [0..<length bs]"
    using nth by simp
  ultimately show ?thesis by auto
qed

lemma commit_runs:
  assumes ok: "log_ok s" and n: "0 < lh_n (lg_lh (k_log s))" and start: "start = lg_start (k_log s)"
    and bs: "bs = log_blocks s"
  shows "\<exists>t. commit s = Ok () t \<and>
    runs (s\<lparr>k_log := emptied (k_log s)\<rparr>) (commit_writes head_enc start bs (view s)) t"
proof -
  note D = log_okD [OF ok, folded start bs]
  let ?L = "map (\<lambda>i. (log_block start i, view s (bs ! i))) [0..<length bs]"
  let ?H = "map (\<lambda>i. (bs ! i, view s (bs ! i))) [0..<length bs]"
  let ?h = "head_enc bs (view s start)"
  have card: "card (dirty_blocks s) < NBUF" using D(15,16) by simp
  have sz: "start < k_disksize s" by (rule log_block_bound(2) [OF D(6), of 0]) simp
  have inL: "c \<in> log_area start" "c \<noteq> start" if "c \<in> fst ` set ?L" for c
    using that D(15) log_block_not_start [of _ start] by (auto simp: log_area_def)
  obtain v1 where v1: "write_log s = Ok () v1" "runs s ?L v1"
    using write_log_writes [OF D(1,3) start D(6) bs D(14,15) _ card] D(12,13) by auto
  have "start \<notin> fst ` set ?L" using inL(2) by blast
  then have "view v1 start = view s start" using v1(2) by (simp add: runs_def apply_writes_other)
  moreover have R1: "calm v1" "k_log v1 = k_log s" "k_disksize v1 = k_disksize s" "dirty_blocks v1 = dirty_blocks s"
    using v1(2) inL(1) D(13) by (auto simp: runs_def)
  ultimately obtain v2 where v2: "write_head v1 = Ok () v2" "runs v1 [(start, ?h)] v2"
    using write_head_runs [of v1 bs] D(3,8,10,14,15) sz card start bs by (auto simp: log_blocks_def)
  note r2 = runs_append [OF v1(2) v2(2)]
  have R2: "calm v2" "k_log v2 = k_log s" "k_disksize v2 = k_disksize s" "dirty_blocks v2 = dirty_blocks s"
    using v2(2) R1 D(13) by (auto simp: runs_def log_area_def)
  have "view v2 (log_block start i) = view s (bs ! i)" if "i < length bs" for i
    using r2 log_writes [OF that] D(15) that log_block_not_start [of i start] by (simp add: runs_def)
  then have H: "map (\<lambda>i. (bs ! i, view v2 (log_block start i))) [0..<length bs] = ?H" by simp
  have "bs = log_blocks v2" using R2(2) bs by (simp add: log_blocks_def)
  then have "\<exists>v3. install_trans v2 = Ok () v3 \<and> runs v2 (map (\<lambda>i. (bs ! i, view v2 (log_block start i))) [0..<length bs]) v3"
    using D(3,6,11,12,13,14,15) R2 start card by (intro install_writes) auto
  then obtain v3 where v3: "install_trans v2 = Ok () v3" "runs v2 ?H v3" unfolding H by blast
  note r3 = runs_append [OF r2 v3(2)]
  let ?l = "emptied (k_log s)"
  have R3: "calm v3" "k_log v3 = k_log s" "k_disksize v3 = k_disksize s"
    using v3(2) R2 by (auto simp: runs_def)
  have "start \<notin> set bs" using D(12,13) by (auto simp: log_area_def)
  then have "view v3 start = ?h" using r3 by (simp add: runs_def home_writes)
  moreover have "card (dirty_blocks v3) < NBUF" using runs_dirty [OF r3] card by simp
  ultimately obtain v4 where v4: "write_head (v3\<lparr>k_log := ?l\<rparr>) = Ok () v4"
      "runs (v3\<lparr>k_log := ?l\<rparr>) [(start, head_enc [] ?h)] v4"
    using write_head_runs [of "v3\<lparr>k_log := ?l\<rparr>" "[]"] D(3) sz start R3 by auto
  have "commit s = Ok () v4"
    using v1(1) v2(1) v3(1) v4(1) n R3(2) by (simp add: commit_def krun emptied_def)
  moreover have "runs (s\<lparr>k_log := ?l\<rparr>) (commit_writes head_enc start bs (view s)) v4"
    using runs_append [OF runs_with_log [OF r3] v4(2)] by (simp add: commit_writes_def)
  ultimately show ?thesis by blast
qed

section \<open>Recovery at boot\<close>

lemma same_blocks_refl: "same_blocks s s"
  by (simp add: same_blocks_def)

lemma read_block:
  assumes s: "calm s" and n: "n < k_disksize s" and d: "card (dirty_blocks s) < NBUF"
  obtains x t where "bread 1 n s = Ok x t" "b_data (k_bcache t ! x) = view s n" "k_log t = k_log s"
    "\<forall>l. \<exists>v. brelse x (t\<lparr>k_log := l\<rparr>) = Ok () v \<and> calm v \<and> same_blocks (s\<lparr>k_log := l\<rparr>) v"
proof -
  from s have rs: "ready s" and free: "\<And>j. j < NBUF \<Longrightarrow> \<not> blocked (k_bcache s ! j)" by (simp_all add: calm_def)
  have ok: "cache_ok s" using rs by (simp add: ready_def)
  obtain j0 where "j0 < NBUF" "\<not> dirty (k_bcache s ! j0)"
    using clean_buffers [OF ok, of "{}"] d by auto
  then obtain x t where x: "bread 1 n s = Ok x t" "opens s n x t"
    using bread_opens [OF rs n] free by blast
  note rt = opens_ready [OF rs x(2)] and bx = opens_buffer [OF x(2) cache_okD(1) [OF ok]]
  show thesis
  proof (rule that [OF x(1) bx(4) opens_rest(3) [OF x(2)]], intro allI)
    fix l
    let ?t = "t\<lparr>k_log := l\<rparr>"
    obtain v where v: "brelse x ?t = Ok () v" "ready v" "same_blocks ?t v"
        "\<And>j. blocked (k_bcache v ! j) \<longleftrightarrow> j \<noteq> x \<and> blocked (k_bcache ?t ! j)"
      using brelse_same [of ?t x] rt(1) bx(1,3) by auto
    have "calm v" using v(2,4) free opens_other [OF x(2)] by (auto simp: calm_def)
    moreover have "same_blocks (s\<lparr>k_log := l\<rparr>) v"
      using v(3) rt(2) opens_rest [OF x(2)] opens_dirty_blocks [OF rs x(2)] by (simp add: same_blocks_def)
    ultimately show "\<exists>v. brelse x ?t = Ok () v \<and> calm v \<and> same_blocks (s\<lparr>k_log := l\<rparr>) v" using v(1) by blast
  qed
qed

lemma readsb_runs:
  assumes s: "calm s" and n: "1 < k_disksize s" and d: "card (dirty_blocks s) < NBUF"
  shows "\<exists>sb v. readsb 1 s = Ok sb v \<and> calm v \<and> same_blocks s v \<and>
    sb_logstart sb = get32 (view s 1) 16 \<and> sb_nlog sb = get32 (view s 1) 12"
proof -
  obtain x t where x: "bread 1 1 s = Ok x t" "b_data (k_bcache t ! x) = view s 1" "k_log t = k_log s"
    and rel: "\<forall>l. \<exists>v. brelse x (t\<lparr>k_log := l\<rparr>) = Ok () v \<and> calm v \<and> same_blocks (s\<lparr>k_log := l\<rparr>) v"
    by (rule read_block [OF s n d])
  have "t\<lparr>k_log := k_log s\<rparr> = t" unfolding x(3) [symmetric] by simp
  then obtain v where "brelse x t = Ok () v" "calm v" "same_blocks s v"
    using rel [THEN spec, of "k_log s"] by auto
  with x(1,2) show ?thesis by (simp add: readsb_def krun)
qed

lemma fold_update:
  "m \<le> length xs \<Longrightarrow> fold (\<lambda>i xs. xs[i := g i]) [0..<m] xs = map g [0..<m] @ drop m xs"
proof (induction m)
  case (Suc m)
  then have "drop m xs = xs ! m # drop (Suc m) xs" by (simp add: Cons_nth_drop_Suc)
  with Suc show ?case by (simp add: list_update_append)
qed simp

lemma head_entries:
  "kfor [0..<m] (\<lambda>i. upd_log (\<lambda>l. l\<lparr>lg_lh := (lg_lh l)\<lparr>lh_block := (lh_block (lg_lh l))[i := g i]\<rparr>\<rparr>)) s =
     Ok () (s\<lparr>k_log := (k_log s)\<lparr>lg_lh := (lg_lh (k_log s))
       \<lparr>lh_block := fold (\<lambda>i xs. xs[i := g i]) [0..<m] (lh_block (lg_lh (k_log s)))\<rparr>\<rparr>\<rparr>)"
  by (induction m) (simp_all add: kfor_append krun)

lemma read_head_runs:
  assumes s: "calm s" and dev: "lg_dev (k_log s) = 1" and start: "start = lg_start (k_log s)"
    and n: "start < k_disksize s" and d: "card (dirty_blocks s) < NBUF"
    and len: "length (lh_block (lg_lh (k_log s))) = LOGSIZE" "length (head_dec (view s start)) \<le> LOGSIZE"
  shows "\<exists>v l. read_head s = Ok () v \<and> calm v \<and> same_blocks (s\<lparr>k_log := l\<rparr>) v \<and>
    lg_dev l = 1 \<and> lg_start l = start \<and> lg_size l = lg_size (k_log s) \<and>
    lg_outstanding l = lg_outstanding (k_log s) \<and> lg_committing l = lg_committing (k_log s) \<and>
    length (lh_block (lg_lh l)) = LOGSIZE \<and> log_blocks v = head_dec (view s start) \<and>
    length (log_blocks v) = nat (lh_n (lg_lh l))"
proof -
  obtain x t where x: "bread 1 start s = Ok x t" "b_data (k_bcache t ! x) = view s start" "k_log t = k_log s"
    and rel: "\<forall>l. \<exists>v. brelse x (t\<lparr>k_log := l\<rparr>) = Ok () v \<and> calm v \<and> same_blocks (s\<lparr>k_log := l\<rparr>) v"
    by (rule read_block [OF s n d])
  let ?d = "view s start" let ?n = "sint (get32 ?d 0)"
  let ?b = "map (\<lambda>i. get32 ?d (4 * (i + 1))) [0..<nat ?n] @ drop (nat ?n) (lh_block (lg_lh (k_log s)))"
  let ?l = "(k_log s)\<lparr>lg_lh := \<lparr>lh_n = ?n, lh_block = ?b\<rparr>\<rparr>"
  have le: "nat ?n \<le> LOGSIZE" using len(2) by (simp add: head_dec_def)
  obtain v where v: "brelse x (t\<lparr>k_log := ?l\<rparr>) = Ok () v" "calm v" "same_blocks (s\<lparr>k_log := ?l\<rparr>) v"
    using rel by blast
  have lh: "(lg_lh (k_log s))\<lparr>lh_n := a, lh_block := b\<rparr> = \<lparr>lh_n = a, lh_block = b\<rparr>" for a b by simp
  have "read_head s = Ok () v"
    using x v(1) le dev start len(1)
    by (simp add: read_head_def krun head_entries fold_update Let_def lh)
  moreover have "log_blocks v = head_dec ?d"
    using v(3) len(1) le by (simp add: same_blocks_def log_blocks_def head_dec_def)
  ultimately show ?thesis
    using v(2,3) dev start len(1) le by (intro exI [of _ v] exI [of _ ?l]) (simp add: head_dec_def)
qed

text \<open>A disk whose log recovery can install.\<close>

definition recoverable :: "(u32 \<Rightarrow> u8 list) \<Rightarrow> u32 \<Rightarrow> u32 \<Rightarrow> bool" where
  "recoverable D start sz \<longleftrightarrow> length (head_dec (D start)) < LOGSIZE \<and>
     (\<forall>b\<in>set (head_dec (D start)). b < sz \<and> b \<noteq> 1 \<and> b \<notin> log_area start)"

lemma recover_runs:
  assumes s: "calm s" and clean: "dirty_blocks s = {}" and dev: "lg_dev (k_log s) = 1"
    and start: "start = lg_start (k_log s)" and area: "unat start + LOGSIZE < unat (k_disksize s)"
    and len: "length (lh_block (lg_lh (k_log s))) = LOGSIZE" and rec: "recoverable (k_disk s) start (k_disksize s)"
  shows "\<exists>u l. recover_from_log s = Ok () u \<and>
    runs (s\<lparr>k_log := l\<rparr>) (recovery_writes head_enc head_dec start (k_disk s)) u \<and>
    lg_dev l = 1 \<and> lg_start l = start \<and> lg_size l = lg_size (k_log s) \<and> lh_n (lg_lh l) = 0 \<and>
    length (lh_block (lg_lh l)) = LOGSIZE \<and>
    lg_outstanding l = lg_outstanding (k_log s) \<and> lg_committing l = lg_committing (k_log s)"
proof -
  let ?D = "k_disk s"
  have ok: "cache_ok s" using s by (simp add: calm_def ready_def)
  have view: "view s n = ?D n" for n using view_clean [OF ok] clean by simp
  have sz: "start < k_disksize s" by (rule log_block_bound(2) [OF area, of 0]) simp
  let ?bs = "head_dec (?D start)"
  obtain v l where v: "read_head s = Ok () v" "calm v" "same_blocks (s\<lparr>k_log := l\<rparr>) v"
    and l: "lg_dev l = 1" "lg_start l = start" "lg_size l = lg_size (k_log s)"
      "lg_outstanding l = lg_outstanding (k_log s)" "lg_committing l = lg_committing (k_log s)"
      "length (lh_block (lg_lh l)) = LOGSIZE" "log_blocks v = ?bs" "length (log_blocks v) = nat (lh_n (lg_lh l))"
    using read_head_runs [OF s dev start sz _ len] rec clean by (auto simp: view recoverable_def)
  have V: "k_log v = l" "k_disksize v = k_disksize s" "dirty_blocks v = {}" "view v n = ?D n" for n
    using v(3) clean by (simp_all add: same_blocks_def view)
  have "\<exists>w. install_trans v = Ok () w \<and> runs v (map (\<lambda>i. (?bs ! i, view v (log_block start i))) [0..<length ?bs]) w"
    by (rule install_writes [OF v(2)]) (use V l area rec in \<open>auto simp: recoverable_def\<close>)
  then obtain w where w: "install_trans v = Ok () w"
      "runs v (map (\<lambda>i. (?bs ! i, ?D (log_block start i))) [0..<length ?bs]) w"
    by (auto simp: V(4))
  let ?l = "emptied l" let ?W = "map (\<lambda>i. (?bs ! i, ?D (log_block start i))) [0..<length ?bs]"
  have W: "calm w" "k_log w = l" "k_disksize w = k_disksize s" "dirty_blocks w = {}"
    using w(2) V by (simp_all add: runs_def)
  have "start \<notin> fst ` set ?W"
  proof
    assume "start \<in> fst ` set ?W"
    then have "start \<in> set ?bs" by (auto simp: in_set_conv_nth)
    with rec show False by (auto simp: recoverable_def log_area_def)
  qed
  then have "view w start = ?D start" using w(2) V(4) by (simp add: runs_def apply_writes_other)
  then obtain u where u: "write_head (w\<lparr>k_log := ?l\<rparr>) = Ok () u"
      "runs (w\<lparr>k_log := ?l\<rparr>) [(start, head_enc [] (?D start))] u"
    using write_head_runs [of "w\<lparr>k_log := ?l\<rparr>" "[]"] W l sz by auto
  have "recover_from_log s = Ok () u"
    using v(1) w(1) u(1) W(2) by (simp add: recover_from_log_def krun emptied_def)
  moreover have "runs (v\<lparr>k_log := ?l\<rparr>) (recovery_writes head_enc head_dec start ?D) u"
    using runs_append [OF runs_with_log [OF w(2)] u(2)] by (simp add: recovery_writes_def)
  moreover have "view v = view s" using view V(4) by (simp add: fun_eq_iff)
  ultimately have "runs (s\<lparr>k_log := ?l\<rparr>) (recovery_writes head_enc head_dec start ?D) u"
    using v(3) by (simp add: runs_def same_blocks_def)
  with \<open>recover_from_log s = Ok () u\<close> show ?thesis using l by (intro exI [of _ u] exI [of _ ?l]) simp
qed

text \<open>The first process after a boot: the cache holds nothing.\<close>

definition booted :: "kernel \<Rightarrow> bool" where
  "booted s \<longleftrightarrow> calm s \<and> dirty_blocks s = {} \<and> length (lh_block (lg_lh (k_log s))) = LOGSIZE"

lemma initlog_runs:
  assumes b: "booted s" and sz: "1 < k_disksize s" and start: "start = get32 (k_disk s 1) 16"
    and area: "unat start + LOGSIZE < unat (k_disksize s)" and rec: "recoverable (k_disk s) start (k_disksize s)"
  shows "\<exists>u l. initlog 1 s = Ok () u \<and>
    runs (s\<lparr>k_log := l\<rparr>) (recovery_writes head_enc head_dec start (k_disk s)) u \<and>
    lg_dev l = 1 \<and> lg_start l = start \<and> lg_size l = get32 (k_disk s 1) 12 \<and> lh_n (lg_lh l) = 0 \<and>
    length (lh_block (lg_lh l)) = LOGSIZE \<and>
    lg_outstanding l = lg_outstanding (k_log s) \<and> lg_committing l = lg_committing (k_log s)"
proof -
  from b have s: "calm s" and clean: "dirty_blocks s = {}" and len: "length (lh_block (lg_lh (k_log s))) = LOGSIZE"
    by (simp_all add: booted_def)
  have view: "view s n = k_disk s n" for n
    using view_clean [of s n] s clean by (simp add: calm_def ready_def)
  obtain sb v where v: "readsb 1 s = Ok sb v" "calm v" "same_blocks s v"
      "sb_logstart sb = get32 (view s 1) 16" "sb_nlog sb = get32 (view s 1) 12"
    using readsb_runs [OF s sz] clean by auto
  let ?l = "(k_log s)\<lparr>lg_start := start, lg_size := get32 (k_disk s 1) 12, lg_dev := 1\<rparr>"
  let ?w = "v\<lparr>k_log := ?l\<rparr>"
  have V: "k_disk v = k_disk s" "k_disksize v = k_disksize s" "dirty_blocks v = {}" "k_log v = k_log s" "k_dtrace v = k_dtrace s"
    "\<And>n. view v n = view s n"
    using v(3) clean by (simp_all add: same_blocks_def)
  obtain u l where u: "recover_from_log ?w = Ok () u"
      "runs (?w\<lparr>k_log := l\<rparr>) (recovery_writes head_enc head_dec start (k_disk s)) u"
      "lg_dev l = 1" "lg_start l = start" "lg_size l = get32 (k_disk s 1) 12" "lh_n (lg_lh l) = 0"
      "length (lh_block (lg_lh l)) = LOGSIZE"
      "lg_outstanding l = lg_outstanding (k_log s)" "lg_committing l = lg_committing (k_log s)"
    using recover_runs [of ?w start] v(2) V area len rec by auto
  have "initlog 1 s = Ok () u"
    using u(1) v(1,4,5) view V(4) start by (simp add: initlog_def krun)
  moreover have "view v = view s" using V(6) by blast
  then have "runs (s\<lparr>k_log := l\<rparr>) (recovery_writes head_enc head_dec start (k_disk s)) u"
    using u(2) V clean by (simp add: runs_def)
  ultimately show ?thesis using u(3-9) by blast
qed

section \<open>Transactions\<close>

text \<open>The way the file system changes a block inside a transaction.\<close>

definition log_update :: "u32 \<Rightarrow> u8 list \<Rightarrow> unit K" where
  "log_update b d =
     kbind (bread 1 b) (\<lambda>x.
     kseq (set_data x d) (
     kseq (log_write x) (
     brelse x)))"

definition dirtied :: "kernel \<Rightarrow> nat \<Rightarrow> u8 list \<Rightarrow> kernel" where
  "dirtied s i d = s\<lparr>k_bcache := (k_bcache s)[i := (k_bcache s ! i)\<lparr>b_data := d,
     b_flags := b_flags (k_bcache s ! i) OR B_DIRTY\<rparr>]\<rparr>"

lemma dirtied_flags:
  "valid (q\<lparr>b_data := d, b_flags := b_flags q OR B_DIRTY\<rparr>) \<longleftrightarrow> valid q"
  "dirty (q\<lparr>b_data := d, b_flags := b_flags q OR B_DIRTY\<rparr>)"
  by (simp_all add: valid_bit dirty_bit bit_or_iff)

lemma dirtied_ready:
  assumes s: "ready s" and i: "i < NBUF" "has_block (k_bcache s ! i) n" "blocked (k_bcache s ! i)" "valid (k_bcache s ! i)"
  shows "ready (dirtied s i d)" "view (dirtied s i d) m = (if m = n then d else view s m)"
    "dirty_blocks (dirtied s i d) = insert n (dirty_blocks s)"
proof -
  from s have ok: "cache_ok s" by (simp add: ready_def)
  note len = cache_okD(1) [OF ok]
  let ?q = "(k_bcache s ! i)\<lparr>b_data := d, b_flags := b_flags (k_bcache s ! i) OR B_DIRTY\<rparr>"
  have n_only: "has_block ?q k \<longleftrightarrow> k = n" for k using i(2) by (auto simp: has_block_def)
  have others: "\<not> has_block (k_bcache s ! j) n" if "j < NBUF" "j \<noteq> i" for j
    using cache_okD(4) [OF ok that(1) i(1) _ i(2)] that by blast
  have at: "k_bcache (dirtied s i d) ! i = ?q" using i(1) len by (simp add: dirtied_def)
  have okt: "cache_ok (dirtied s i d)"
  proof (rule cache_ok_upd [OF ok i(1), where q = ?q])
    show "entry_ok ?q"
      using cache_okD(3) [OF ok i(1)] dirtied_flags(1) [of "k_bcache s ! i" d] i(2,4)
      by (simp add: entry_ok_def has_block_def)
    show "\<not> has_block (k_bcache s ! j) k" if "has_block ?q k" "j < NBUF" "j \<noteq> i" for j k
      using n_only [of k] that(1) others [OF that(2,3)] by simp
    show "b_data ?q = k_disk (dirtied s i d) k" if "\<not> dirty ?q" for k
      using that dirtied_flags(2) [of "k_bcache s ! i" d] by simp
  qed (simp_all add: dirtied_def)
  then show "ready (dirtied s i d)" using s by (simp add: ready_def dirtied_def)
  show "view (dirtied s i d) m = (if m = n then d else view s m)"
  proof (cases "m = n")
    case True
    have "view (dirtied s i d) n = b_data (k_bcache (dirtied s i d) ! i)"
      by (rule view_hit [OF okt i(1)]) (use i(4) at n_only dirtied_flags(1) in simp_all)
    with True at show ?thesis by simp
  next
    case False
    have "view (dirtied s i d) m = view s m"
      by (rule view_same [OF ok okt i(1), where q = ?q])
        (use False n_only i(2) in \<open>auto simp: dirtied_def sees_def has_block_def\<close>)
    with False show ?thesis by simp
  qed
  have at_j: "k_bcache (dirtied s i d) ! j = (if j = i then ?q else k_bcache s ! j)" for j
    using at by (simp add: dirtied_def)
  have "has_block (k_bcache (dirtied s i d) ! j) m \<and> dirty (k_bcache (dirtied s i d) ! j) \<longleftrightarrow>
      j = i \<and> m = n \<or> j \<noteq> i \<and> has_block (k_bcache s ! j) m \<and> dirty (k_bcache s ! j)" for j m
    using n_only [of m] dirtied_flags(2) [of "k_bcache s ! i" d] by (simp add: at_j)
  moreover have "m = n" if "has_block (k_bcache s ! i) m" for m using that i(2) by (simp add: has_block_def)
  ultimately show "dirty_blocks (dirtied s i d) = insert n (dirty_blocks s)"
    using i(1) unfolding dirty_blocks_def by blast
qed

text \<open>The log after \<open>log_write\<close> of block \<open>b\<close>: a block already logged is absorbed.\<close>

definition logged :: "u32 \<Rightarrow> log \<Rightarrow> log" where
  "logged b l = (let n = nat (lh_n (lg_lh l)) in
     if b \<in> set (take n (lh_block (lg_lh l))) then l
     else l\<lparr>lg_lh := \<lparr>lh_n = int n + 1, lh_block = (lh_block (lg_lh l))[n := b]\<rparr>\<rparr>)"

lemma log_write_run:
  assumes s: "k_held s = []" and b: "b_blockno (k_bcache s ! x) = b"
    and n: "0 \<le> lh_n (lg_lh (k_log s))" "lh_n (lg_lh (k_log s)) < int LOGSIZE"
      "lh_n (lg_lh (k_log s)) < sint (lg_size (k_log s)) - 1" "1 \<le> lg_outstanding (k_log s)"
      "length (lh_block (lg_lh (k_log s))) = LOGSIZE" and x: "x < length (k_bcache s)"
  shows "kseq (set_data x d) (log_write x) s = Ok () ((dirtied s x d)\<lparr>k_log := logged b (k_log s)\<rparr>)"
proof -
  let ?bs = "take (nat (lh_n (lg_lh (k_log s)))) (lh_block (lg_lh (k_log s)))"
  have upd: "l\<lparr>lg_lh := (lg_lh l)\<lparr>lh_block := (lh_block (lg_lh l))[i := b]\<rparr>\<rparr> = l"
    if "lh_block (lg_lh l) ! i = b" for l :: log and i
    using that [symmetric] by simp
  show ?thesis
  proof (cases "find_slot (\<lambda>y. y = b) ?bs")
    case None
    then have "b \<notin> set ?bs" by (auto simp: find_from_None)
    with None show ?thesis
      using assms by (simp add: log_write_def set_data_def krun dirtied_def logged_def Let_def)
  next
    case (Some i)
    note i = find_slot_SomeD(1,2) [OF Some]
    then have "b \<in> set ?bs" by (metis nth_mem)
    moreover have "lh_block (lg_lh (k_log s)) ! i = b" "i \<noteq> nat (lh_n (lg_lh (k_log s)))" using i by simp_all
    ultimately show ?thesis
      using assms Some by (simp add: log_write_def set_data_def krun dirtied_def logged_def Let_def upd)
  qed
qed

lemma logged_log [simp]:
  "lg_dev (logged b l) = lg_dev l" "lg_start (logged b l) = lg_start l" "lg_size (logged b l) = lg_size l"
  "lg_outstanding (logged b l) = lg_outstanding l" "lg_committing (logged b l) = lg_committing l"
  "length (lh_block (lg_lh (logged b l))) = length (lh_block (lg_lh l))"
  by (simp_all add: logged_def Let_def)

lemma logged_n:
  "0 \<le> lh_n (lg_lh l) \<Longrightarrow> 0 \<le> lh_n (lg_lh (logged b l)) \<and> lh_n (lg_lh (logged b l)) \<le> lh_n (lg_lh l) + 1"
  by (simp add: logged_def Let_def)

lemma log_blocks_logged:
  assumes "0 \<le> lh_n (lg_lh (k_log s))" "nat (lh_n (lg_lh (k_log s))) < length (lh_block (lg_lh (k_log s)))"
    and "k_log t = logged b (k_log s)"
  shows "log_blocks t = (if b \<in> set (log_blocks s) then log_blocks s else log_blocks s @ [b])"
proof -
  obtain n where "lh_n (lg_lh (k_log s)) = int n" using assms(1) nonneg_int_cases by blast
  with assms show ?thesis
    by (simp add: log_blocks_def logged_def Let_def nat_add_distrib take_Suc_conv_app_nth)
qed

lemma log_update_runs:
  assumes ok: "log_ok s"
    and b: "b < k_disksize s" "b \<noteq> 1" "b \<notin> log_area (lg_start (k_log s))"
    and n: "lh_n (lg_lh (k_log s)) + 1 < int LOGSIZE" "int LOGSIZE \<le> sint (lg_size (k_log s))"
    and op: "1 \<le> lg_outstanding (k_log s)"
  shows "\<exists>t. log_update b d s = Ok () t \<and> log_ok t \<and> view t = (view s)(b := d) \<and>
    dirty_blocks t = insert b (dirty_blocks s) \<and> k_log t = logged b (k_log s) \<and>
    k_disk t = k_disk s \<and> k_dtrace t = k_dtrace s \<and> k_disksize t = k_disksize s"
proof -
  note D = log_okD [OF ok]
  from D(1) have rs: "ready s" and free: "\<And>j. j < NBUF \<Longrightarrow> \<not> blocked (k_bcache s ! j)" by (simp_all add: calm_def)
  obtain j0 where "j0 < NBUF" "\<not> dirty (k_bcache s ! j0)"
    using clean_buffers [OF D(2), of "{}"] D(15,16) by auto
  then obtain x t where x: "bread 1 b s = Ok x t" "opens s b x t"
    using bread_opens [OF rs b(1)] free by blast
  note rt = opens_ready [OF rs x(2)] and bx = opens_buffer [OF x(2) cache_okD(1) [OF D(2)]]
  have vx: "valid (k_bcache t ! x)" using x(2) cache_okD(1) [OF D(2)] by (auto simp: opens_def)
  let ?l = "logged b (k_log s)" let ?w = "(dirtied t x d)\<lparr>k_log := ?l\<rparr>"
  note w = dirtied_ready [OF rt(1) bx(1-3) vx, of d]
  have lock: "blocked (k_bcache ?w ! j) \<longleftrightarrow> blocked (k_bcache t ! j)" for j
    by (simp add: dirtied_def nth_upd_proj [of b_lock])
  have run: "kseq (set_data x d) (log_write x) t = Ok () ?w"
    using log_write_run [of t x b d] rt(1) bx opens_rest(3) [OF x(2)] D(8,9,10) n op cache_okD(1) [of t]
    by (simp add: ready_def has_block_def)
  obtain v where v: "brelse x ?w = Ok () v" "ready v" "same_blocks ?w v"
      "\<And>j. blocked (k_bcache v ! j) \<longleftrightarrow> j \<noteq> x \<and> blocked (k_bcache ?w ! j)"
    using brelse_same [of ?w x] w(1) bx(1,3) lock by auto
  have "calm v" using v(2,4) free opens_other [OF x(2)] lock by (auto simp: calm_def)
  moreover have V: "view v = (view s)(b := d)" "dirty_blocks v = insert b (dirty_blocks s)" "k_log v = ?l"
      "k_disk v = k_disk s" "k_dtrace v = k_dtrace s" "k_disksize v = k_disksize s"
    using v(3) w(2,3) rt(2) opens_rest [OF x(2)] opens_dirty_blocks [OF rs x(2)]
    by (auto simp: same_blocks_def dirtied_def fun_eq_iff)
  moreover have bl: "log_blocks v = (if b \<in> set (log_blocks s) then log_blocks s else log_blocks s @ [b])"
    using log_blocks_logged [OF _ _ V(3)] D(8,9,10) by simp
  ultimately have "log_ok v"
    using D b n logged_n [OF D(8), of b] by (auto simp: log_ok_def)
  moreover have "log_update b d s = Ok () v"
    using x(1) kseq_then [OF run, of "brelse x"] v(1) by (simp add: log_update_def kbind_run)
  ultimately show ?thesis using V by blast
qed

lemma updates_run:
  assumes "log_ok s" "1 \<le> lg_outstanding (k_log s)" "int LOGSIZE \<le> sint (lg_size (k_log s))"
    "card (fst ` set us \<union> dirty_blocks s) + 1 < LOGSIZE"
    "\<forall>b\<in>fst ` set us. b < k_disksize s \<and> b \<noteq> 1 \<and> b \<notin> log_area (lg_start (k_log s))"
  shows "\<exists>t. kfor us (\<lambda>(b, d). log_update b d) s = Ok () t \<and> log_ok t \<and> view t = apply_writes us (view s) \<and>
    dirty_blocks t = fst ` set us \<union> dirty_blocks s \<and> lg_start (k_log t) = lg_start (k_log s) \<and>
    lg_size (k_log t) = lg_size (k_log s) \<and> lg_outstanding (k_log t) = lg_outstanding (k_log s) \<and>
    lg_committing (k_log t) = lg_committing (k_log s) \<and>
    k_disk t = k_disk s \<and> k_dtrace t = k_dtrace s \<and> k_disksize t = k_disksize s"
  using assms
proof (induction us arbitrary: s)
  case Nil
  then show ?case by (simp add: krun)
next
  case (Cons u us)
  obtain b d where u: "u = (b, d)" by (cases u)
  obtain t where t: "log_update b d s = Ok () t" "log_ok t" "view t = (view s)(b := d)"
      "dirty_blocks t = insert b (dirty_blocks s)" "k_log t = logged b (k_log s)"
      "k_disk t = k_disk s" "k_dtrace t = k_dtrace s" "k_disksize t = k_disksize s"
  proof -
    note D = log_okD [OF Cons.prems(1)]
    have "card (dirty_blocks s) \<le> card (fst ` set (u # us) \<union> dirty_blocks s)"
      by (rule card_mono) (use finite_dirty_blocks in auto)
    then have "lh_n (lg_lh (k_log s)) + 1 < int LOGSIZE" using Cons.prems(4) D(8,14,16) by linarith
    then show thesis using log_update_runs [OF Cons.prems(1), of b d] Cons.prems(2,3,5) u that by auto
  qed
  have "fst ` set us \<union> dirty_blocks t = fst ` set (u # us) \<union> dirty_blocks s" using t(4) u by auto
  then have "\<exists>v. kfor us (\<lambda>(b, d). log_update b d) t = Ok () v \<and> log_ok v \<and> view v = apply_writes us (view t) \<and>
    dirty_blocks v = fst ` set us \<union> dirty_blocks t \<and> lg_start (k_log v) = lg_start (k_log t) \<and>
    lg_size (k_log v) = lg_size (k_log t) \<and> lg_outstanding (k_log v) = lg_outstanding (k_log t) \<and>
    lg_committing (k_log v) = lg_committing (k_log t) \<and> k_disk v = k_disk t \<and> k_dtrace v = k_dtrace t \<and>
    k_disksize v = k_disksize t"
    by (intro Cons.IH) (use Cons.prems t u in auto)
  with t show ?case by (simp add: u krun)
qed

text \<open>Every file system call has this form.\<close>

definition transaction :: "(u32 \<times> u8 list) list \<Rightarrow> unit K" where
  "transaction us =
     kseq begin_op (
     kseq (kfor us (\<lambda>(b, d). log_update b d)) (
     end_op))"

text \<open>No transaction is active.\<close>

definition log_idle :: "kernel \<Rightarrow> bool" where
  "log_idle s \<longleftrightarrow> log_ok s \<and> lh_n (lg_lh (k_log s)) = 0 \<and> lg_outstanding (k_log s) = 0 \<and>
     \<not> lg_committing (k_log s) \<and> int LOGSIZE \<le> sint (lg_size (k_log s))"

text \<open>The writes of a commit leave the disk with an empty log.\<close>

lemma commit_writes_disk:
  assumes "length bs < LOGSIZE" "set bs \<inter> log_area start = {}"
  shows "apply_writes (commit_writes enc start bs f) D start = enc [] (enc bs (f start))"
    and "b \<notin> log_area start \<Longrightarrow> apply_writes (commit_writes enc start bs f) D b = (if b \<in> set bs then f b else D b)"
proof -
  show "apply_writes (commit_writes enc start bs f) D start = enc [] (enc bs (f start))"
    by (simp add: commit_writes_def)
  assume b: "b \<notin> log_area start"
  then have "b \<notin> fst ` set (map (\<lambda>i. (log_block start i, f (bs ! i))) [0..<length bs])"
    using assms(1) by (auto simp: log_area_def)
  moreover have "b \<noteq> start" using b by (auto simp: log_area_def)
  ultimately show "apply_writes (commit_writes enc start bs f) D b = (if b \<in> set bs then f b else D b)"
    by (simp add: commit_writes_def home_writes apply_writes_other)
qed

lemma commit_idle:
  assumes ok: "log_ok s"
  shows "\<exists>t W. commit s = Ok () t \<and> log_ok t \<and> k_log t = emptied (k_log s) \<and> k_disksize t = k_disksize s \<and>
    k_dtrace t = k_dtrace s @ W \<and> k_disk t = apply_writes W (k_disk s) \<and>
    W = (if log_blocks s = [] then [] else commit_writes head_enc (lg_start (k_log s)) (log_blocks s) (view s)) \<and>
    (\<forall>b. b \<notin> log_area (lg_start (k_log s)) \<longrightarrow> k_disk t b = view s b)"
proof (cases "log_blocks s = []")
  case True
  note D = log_okD [OF ok]
  have "lh_n (lg_lh (k_log s)) = 0" using True D(8,14) by simp
  moreover from this have "emptied (k_log s) = k_log s" by (simp add: emptied_def)
  moreover have "view s b = k_disk s b" for b using view_clean [OF D(2)] D(12) True by simp
  ultimately show ?thesis using True ok by (simp add: commit_def krun)
next
  case False
  note D = log_okD [OF ok]
  let ?st = "lg_start (k_log s)" and ?bs = "log_blocks s"
  let ?W = "commit_writes head_enc ?st ?bs (view s)"
  have "0 < lh_n (lg_lh (k_log s))" using False D(14) by (cases "lh_n (lg_lh (k_log s)) \<le> 0") simp_all
  then obtain t where t: "commit s = Ok () t" "runs (s\<lparr>k_log := emptied (k_log s)\<rparr>) ?W t"
    using commit_runs [OF ok _ refl refl] by blast
  have disj: "set ?bs \<inter> log_area ?st = {}" using D(12,13) by auto
  note W = commit_writes_disk [OF D(15) disj,
      where enc = head_enc and f = "view s" and D = "k_disk s"]
  have nd: "?st \<notin> dirty_blocks s" "1 \<notin> dirty_blocks s" using D(13) by (auto simp: log_area_def)
  have T: "calm t" "k_log t = emptied (k_log s)" "k_disksize t = k_disksize s" "dirty_blocks t = {}"
      "k_disk t = apply_writes ?W (k_disk s)" "k_dtrace t = k_dtrace s @ ?W"
    using t(2) D(12) by (auto simp: runs_def commit_writes_blocks)
  have disk: "k_disk t b = view s b" if "b \<notin> log_area ?st" for b
    using W(2) [OF that] T(5) view_clean [OF D(2), of b] D(12) by auto
  have place: "get32 (k_disk s 1) 16 = ?st" "1 \<notin> log_area ?st" "length (k_disk s ?st) = BSIZE"
      "get32 (k_disk s 1) 12 = lg_size (k_log s)"
    using D(4) by (simp_all add: log_place_def)
  have st: "view s ?st = k_disk s ?st" by (rule view_clean [OF D(2) nd(1)])
  have "head_dec (k_disk t ?st) = []" "length (k_disk t ?st) = BSIZE"
    using W(1) T(5) st place(3) D(15) by (simp_all add: head.dec_enc head.length_enc)
  moreover have "k_disk t 1 = k_disk s 1" using disk [OF place(2)] view_clean [OF D(2) nd(2)] by simp
  ultimately have "log_ok t" using T D place by (simp add: log_ok_def log_place_def log_blocks_def)
  then show ?thesis using t(1) T disk False by auto
qed

lemma log_ok_frame [simp]:
  "log_ok (s\<lparr>k_log := (k_log s)\<lparr>lg_outstanding := n\<rparr>\<rparr>) = log_ok s"
  "log_ok (s\<lparr>k_log := (k_log s)\<lparr>lg_outstanding := n, lg_committing := c\<rparr>\<rparr>) = log_ok s"
  "log_ok (s\<lparr>k_log := (k_log s)\<lparr>lg_committing := c\<rparr>\<rparr>) = log_ok s"
  by (simp_all add: log_ok_def log_blocks_def)

lemma ptable_frame [simp]:
  "view (s\<lparr>k_ptable := p\<rparr>) = view s" "dirty_blocks (s\<lparr>k_ptable := p\<rparr>) = dirty_blocks s"
  "calm (s\<lparr>k_ptable := p\<rparr>) = calm s" "log_blocks (s\<lparr>k_ptable := p\<rparr>) = log_blocks s"
  by (simp_all add: fun_eq_iff view_def dirty_blocks_def calm_def ready_def cache_ok_def log_blocks_def
      split: option.split)

lemma log_ok_ptable [simp]: "log_ok (s\<lparr>k_ptable := p\<rparr>) = log_ok s"
  by (simp add: log_ok_def)

lemma held_frame: "k_held s = [] \<Longrightarrow> s\<lparr>k_held := []\<rparr> = (s :: kernel)"
  by (metis kernel.surjective kernel.update_convs(1))

lemma begin_op_idle:
  assumes "log_idle s"
  shows "begin_op s = Ok () (s\<lparr>k_log := (k_log s)\<lparr>lg_outstanding := 1\<rparr>\<rparr>)"
proof -
  have held: "k_held s = []" using log_okD(1) assms by (simp add: log_idle_def calm_def ready_def)
  have "s\<lparr>k_log := l, k_held := []\<rparr> = s\<lparr>k_log := l\<rparr>" for l
    using held_frame [of "s\<lparr>k_log := l\<rparr>"] held by simp
  with assms held show ?thesis by (simp add: begin_op_def begin_op_loop_def krun log_idle_def)
qed

lemma end_op_last:
  assumes ok: "log_ok s" and op: "lg_outstanding (k_log s) = 1" "\<not> lg_committing (k_log s)"
    and size: "int LOGSIZE \<le> sint (lg_size (k_log s))"
  defines "W \<equiv> if log_blocks s = [] then [] else commit_writes head_enc (lg_start (k_log s)) (log_blocks s) (view s)"
  shows "\<exists>t. end_op s = Ok () t \<and> log_idle t \<and> lg_start (k_log t) = lg_start (k_log s) \<and>
    k_disksize t = k_disksize s \<and> k_dtrace t = k_dtrace s @ W \<and>
    (\<forall>b. b \<notin> log_area (lg_start (k_log s)) \<longrightarrow> k_disk t b = view s b)"
proof -
  have held: "k_held s = []" using log_okD(1) [OF ok] by (simp add: calm_def ready_def)
  let ?s = "s\<lparr>k_log := (k_log s)\<lparr>lg_outstanding := 0, lg_committing := True\<rparr>\<rparr>"
  have bs: "log_blocks ?s = log_blocks s" by (simp add: log_blocks_def)
  have "log_ok ?s" using ok by simp
  from commit_idle [OF this] obtain t where t: "commit ?s = Ok () t" "log_ok t"
      "k_log t = emptied ((k_log s)\<lparr>lg_outstanding := 0, lg_committing := True\<rparr>)"
      "k_disksize t = k_disksize s" "k_dtrace t = k_dtrace s @ W"
      "\<forall>b. b \<notin> log_area (lg_start (k_log s)) \<longrightarrow> k_disk t b = view s b"
    by (auto simp: W_def bs cong: if_cong)
  have th: "k_held t = []" using log_okD(1) [OF t(2)] by (simp add: calm_def ready_def)
  let ?t = "t\<lparr>k_log := (k_log t)\<lparr>lg_committing := False\<rparr>,
    k_ptable := map (wake (Some ChanLog)) (k_ptable t)\<rparr>"
  have es: "s\<lparr>k_log := l, k_held := []\<rparr> = s\<lparr>k_log := l\<rparr>" for l
    using held_frame [of "s\<lparr>k_log := l\<rparr>"] held by simp
  have et: "t\<lparr>k_log := l, k_ptable := p, k_held := []\<rparr> = t\<lparr>k_log := l, k_ptable := p\<rparr>" for l p
    using held_frame [of "t\<lparr>k_log := l, k_ptable := p\<rparr>"] th by simp
  have "end_op s = Ok () ?t"
    using held th op t(1) by (simp add: end_op_def krun wakeup_def wakeup1_def es et)
  moreover have "log_ok ?t" using t(2) by simp
  then have "log_idle ?t" using t(3) size by (simp add: log_idle_def)
  ultimately show ?thesis using t by (intro exI [of _ ?t]) simp
qed

text \<open>A boot from a disk with a log.\<close>

lemma initlog_idle:
  assumes r: "booted r" "lg_outstanding (k_log r) = 0" "\<not> lg_committing (k_log r)"
    and place: "log_place (k_disk r) st n" "int LOGSIZE \<le> sint n" "unat st + LOGSIZE < unat (k_disksize r)" "1 < k_disksize r"
    and rec: "recoverable (k_disk r) st (k_disksize r)"
  shows "\<exists>u. initlog 1 r = Ok () u \<and> log_idle u \<and> lg_start (k_log u) = st \<and> k_disksize u = k_disksize r \<and>
    k_dtrace u = k_dtrace r @ recovery_writes head_enc head_dec st (k_disk r) \<and>
    k_disk u = apply_writes (recovery_writes head_enc head_dec st (k_disk r)) (k_disk r)"
proof -
  let ?R = "recovery_writes head_enc head_dec st (k_disk r)"
  have P: "get32 (k_disk r 1) 16 = st" "get32 (k_disk r 1) 12 = n" "1 \<notin> log_area st" "length (k_disk r st) = BSIZE"
    using place(1) by (simp_all add: log_place_def)
  obtain u l where u: "initlog 1 r = Ok () u" "runs (r\<lparr>k_log := l\<rparr>) ?R u" "lg_dev l = 1" "lg_start l = st"
      "lg_size l = n" "lh_n (lg_lh l) = 0" "length (lh_block (lg_lh l)) = LOGSIZE"
      "lg_outstanding l = 0" "\<not> lg_committing l"
    using initlog_runs [OF r(1), of st] P place(3,4) r(2,3) rec by auto
  have U: "k_log u = l" "dirty_blocks u = {}" "calm u" "k_disksize u = k_disksize r"
      "k_disk u = apply_writes ?R (k_disk r)" "k_dtrace u = k_dtrace r @ ?R"
    using u(2) r(1) by (simp_all add: runs_def booted_def)
  have "k_disk u st = head_enc [] (k_disk r st)" using U(5) by (simp add: recovery_writes_def)
  then have "head_dec (k_disk u st) = []" "length (k_disk u st) = BSIZE"
    using P(4) by (simp_all add: head.dec_enc head.length_enc)
  moreover have "1 \<notin> fst ` set ?R"
    using rec P(3) by (auto simp: recovery_writes_blocks recoverable_def log_area_def)
  then have "k_disk u 1 = k_disk r 1" using U(5) by (simp add: apply_writes_other)
  ultimately have "log_idle u"
    using u(3-9) U place P by (simp add: log_idle_def log_ok_def log_place_def log_blocks_def)
  with u(1,4) U show ?thesis by auto
qed

text \<open>A crash during the commit of \<open>s\<close> and a reboot.\<close>

lemma commit_crash:
  assumes ok: "log_ok s" and size: "int LOGSIZE \<le> sint (lg_size (k_log s))"
    and W: "W = (if log_blocks s = [] then [] else commit_writes head_enc (lg_start (k_log s)) (log_blocks s) (view s))"
      "k \<le> length W"
    and r: "booted r" "lg_outstanding (k_log r) = 0" "\<not> lg_committing (k_log r)" "k_disksize r = k_disksize s"
      "k_disk r = apply_writes (take k W) (k_disk s)"
  shows "\<exists>u. initlog 1 r = Ok () u \<and> log_idle u \<and>
    (\<forall>b. b \<notin> log_area (lg_start (k_log s)) \<longrightarrow> k_disk u b = (if k \<le> length (log_blocks s) then k_disk s b else view s b))"
proof -
  note D = log_okD [OF ok]
  let ?st = "lg_start (k_log s)" and ?bs = "log_blocks s"
  let ?R = "recovery_writes head_enc head_dec ?st (k_disk r)"
  have disj: "set ?bs \<inter> log_area ?st = {}" and le: "length ?bs < LOGSIZE" using D(12,13,15) by auto
  have nd: "?st \<notin> dirty_blocks s" "1 \<notin> dirty_blocks s" using D(13) by (auto simp: log_area_def)
  have st: "view s ?st = k_disk s ?st" by (rule view_clean [OF D(2) nd(1)])
  have P: "get32 (k_disk s 1) 16 = ?st" "get32 (k_disk s 1) 12 = lg_size (k_log s)" "1 \<notin> log_area ?st"
      "length (k_disk s ?st) = BSIZE"
    using D(4) by (simp_all add: log_place_def)
  have "k_disk r ?st \<in> {k_disk s ?st, head_enc ?bs (k_disk s ?st), head_enc [] (head_enc ?bs (k_disk s ?st))}"
    using crash_header [OF le disj, of k head_enc "view s" "k_disk s"] r(5) st W(1) by auto
  then have head: "length (k_disk r ?st) = BSIZE" "head_dec (k_disk r ?st) \<in> {[], ?bs}"
    using P(4) le D(5) head.dec_enc [OF less_imp_le [OF le] P(4)] by (auto simp: head.dec_enc head.length_enc)
  have "1 \<notin> fst ` set W"
    using nd(2) P(3) D(12) le by (auto simp: W(1) commit_writes_blocks log_area_def)
  then have "1 \<notin> fst ` set (take k W)" by (auto dest: in_set_takeD)
  then have place: "log_place (k_disk r) ?st (lg_size (k_log s))"
    using r(5) P head(1) by (simp add: apply_writes_other log_place_def)
  have rec: "recoverable (k_disk r) ?st (k_disksize r)"
    using head(2) D(12,13,15) nd(2) r(4) by (auto simp: recoverable_def)
  obtain u where u: "initlog 1 r = Ok () u" "log_idle u" "k_disk u = apply_writes ?R (k_disk r)"
    using initlog_idle [OF r(1-3) place size _ _ rec] D(6,7) r(4) by auto
  have "k_disk u b = (if k \<le> length ?bs then k_disk s b else view s b)" if b: "b \<notin> log_area ?st" for b
  proof (cases "?bs = []")
    case True
    then have "k_disk u = apply_writes [(?st, head_enc [] (k_disk s ?st))] (k_disk s)" and "k = 0"
      using u(3) r(5) W D(5) by (simp_all add: recovery_writes_def)
    with b show ?thesis by (auto simp: log_area_def)
  next
    case False
    then have "k_disk u b = (if k \<le> length ?bs then k_disk s b else if b \<in> set ?bs then view s b else k_disk s b)"
      using head.crash_atomic [where D = "k_disk s" and f = "view s", OF le disj D(5) st P(4) _ b] u(3) r(5) W by simp
    moreover have "b \<notin> set ?bs \<Longrightarrow> view s b = k_disk s b" using view_clean [OF D(2), of b] D(12) by simp
    ultimately show ?thesis by simp
  qed
  with u(1,2) show ?thesis by blast
qed

lemma transaction_runs:
  assumes s: "log_idle s" and us: "card (fst ` set us) \<le> MAXOPBLOCKS"
    "\<forall>b\<in>fst ` set us. b < k_disksize s \<and> b \<noteq> 1 \<and> b \<notin> log_area (lg_start (k_log s))"
  obtains v t where "transaction us s = Ok () t" "log_idle t" "log_ok v"
    "lg_start (k_log v) = lg_start (k_log s)" "lg_size (k_log v) = lg_size (k_log s)"
    "k_disk v = k_disk s" "k_disksize v = k_disksize s" "view v = apply_writes us (k_disk s)"
    "length (log_blocks v) = card (fst ` set us)" "k_disksize t = k_disksize s"
    "k_dtrace t = k_dtrace s @ (if log_blocks v = [] then []
       else commit_writes head_enc (lg_start (k_log s)) (log_blocks v) (view v))"
    "\<forall>b. b \<notin> log_area (lg_start (k_log s)) \<longrightarrow> k_disk t b = view v b"
proof -
  let ?s = "s\<lparr>k_log := (k_log s)\<lparr>lg_outstanding := 1\<rparr>\<rparr>"
  from s have ok: "log_ok s" and idle: "lh_n (lg_lh (k_log s)) = 0" "\<not> lg_committing (k_log s)"
      "int LOGSIZE \<le> sint (lg_size (k_log s))"
    by (simp_all add: log_idle_def)
  note D = log_okD [OF ok]
  have clean: "dirty_blocks s = {}" using D(12,14) idle(1) by simp
  have view: "view s = k_disk s" using view_clean [OF D(2)] clean by blast
  obtain v where v: "kfor us (\<lambda>(b, d). log_update b d) ?s = Ok () v" "log_ok v" "view v = apply_writes us (k_disk s)"
      "dirty_blocks v = fst ` set us" "lg_start (k_log v) = lg_start (k_log s)" "lg_size (k_log v) = lg_size (k_log s)"
      "lg_outstanding (k_log v) = 1" "\<not> lg_committing (k_log v)" "k_disk v = k_disk s" "k_dtrace v = k_dtrace s"
      "k_disksize v = k_disksize s"
    using updates_run [of ?s us] ok idle us clean by (auto simp: view)
  obtain t where t: "end_op v = Ok () t" "log_idle t" "k_disksize t = k_disksize s"
      "k_dtrace t = k_dtrace s @ (if log_blocks v = [] then []
         else commit_writes head_enc (lg_start (k_log s)) (log_blocks v) (view v))"
      "\<forall>b. b \<notin> log_area (lg_start (k_log s)) \<longrightarrow> k_disk t b = view v b"
    using end_op_last [OF v(2,7,8)] v idle(3) by auto
  have "transaction us s = Ok () t"
    using v(1) t(1) begin_op_idle [OF s] by (simp add: transaction_def krun)
  moreover have "length (log_blocks v) = card (fst ` set us)" using log_okD(16) [OF v(2)] v(4) by simp
  ultimately show thesis using that t v by blast
qed

text \<open>C1: Transactions are atomic. A file system call brackets its block updates (\<open>bread\<close>,
  new content, \<open>log_write\<close>, \<open>brelse\<close>) with \<open>begin_op\<close> and \<open>end_op\<close>. Start from an idle log of at
  least 30 blocks (\<open>mkfs\<close>'s size), header included, on the memory disk, and update any number of times at
  most \<open>MAXOPBLOCKS\<close> different blocks, which are blocks of the disk other than the superblock and the
  blocks of the log. Then the call returns, and the disk outside the log holds the updates. If the
  machine stops after any number \<open>k\<close> of the disk writes that the
  call makes, then the boot that follows (\<open>initlog\<close> on an empty cache) returns with
  an idle log, and outside the log the disk is the one before the call or the one
  after it: the write of the header, after the copies of the updated blocks, decides.\<close>

theorem transaction_atomic:
  assumes "log_idle s" "card (fst ` set us) \<le> MAXOPBLOCKS"
    and "\<forall>b\<in>fst ` set us. b < k_disksize s \<and> b \<noteq> 1 \<and> b \<notin> log_area (lg_start (k_log s))"
  shows "\<exists>t W. transaction us s = Ok () t \<and> log_idle t \<and> k_dtrace t = k_dtrace s @ W \<and>
    length W = (if us = [] then 0 else 2 * card (fst ` set us) + 2) \<and>
    (\<forall>b. b \<notin> log_area (lg_start (k_log s)) \<longrightarrow> k_disk t b = apply_writes us (k_disk s) b) \<and>
    (\<forall>k r. k \<le> length W \<and> booted r \<and> lg_outstanding (k_log r) = 0 \<and> \<not> lg_committing (k_log r) \<and>
       k_disksize r = k_disksize s \<and> k_disk r = apply_writes (take k W) (k_disk s) \<longrightarrow>
       (\<exists>u. initlog 1 r = Ok () u \<and> log_idle u \<and>
         (\<forall>b. b \<notin> log_area (lg_start (k_log s)) \<longrightarrow>
            k_disk u b = (if k \<le> card (fst ` set us) then k_disk s b else apply_writes us (k_disk s) b))))"
proof -
  obtain v t where t: "transaction us s = Ok () t" "log_idle t" "log_ok v"
      "lg_start (k_log v) = lg_start (k_log s)" "lg_size (k_log v) = lg_size (k_log s)"
      "k_disk v = k_disk s" "k_disksize v = k_disksize s" "view v = apply_writes us (k_disk s)"
      "length (log_blocks v) = card (fst ` set us)" "k_disksize t = k_disksize s"
      "k_dtrace t = k_dtrace s @ (if log_blocks v = [] then []
         else commit_writes head_enc (lg_start (k_log s)) (log_blocks v) (view v))" (is "_ = _ @ ?W")
      "\<forall>b. b \<notin> log_area (lg_start (k_log s)) \<longrightarrow> k_disk t b = view v b"
    by (rule transaction_runs [OF assms])
  have size: "int LOGSIZE \<le> sint (lg_size (k_log v))" using assms(1) t(5) by (simp add: log_idle_def)
  have len: "length ?W = (if us = [] then 0 else 2 * card (fst ` set us) + 2)"
    using t(9) by (cases us) (auto simp: commit_writes_def)
  have W: "?W = (if log_blocks v = [] then [] else commit_writes head_enc (lg_start (k_log v)) (log_blocks v) (view v))"
    unfolding t(4) ..
  have "\<exists>u. initlog 1 r = Ok () u \<and> log_idle u \<and> (\<forall>b. b \<notin> log_area (lg_start (k_log s)) \<longrightarrow>
        k_disk u b = (if k \<le> card (fst ` set us) then k_disk s b else apply_writes us (k_disk s) b))"
    if "k \<le> length ?W" "booted r" "lg_outstanding (k_log r) = 0" "\<not> lg_committing (k_log r)"
      "k_disksize r = k_disksize s" "k_disk r = apply_writes (take k ?W) (k_disk s)" for k r
    using commit_crash [OF t(3) size W that(1-4)] that(5,6) unfolding t(4,6,7,9) t(8) by blast
  with t len show ?thesis by (intro exI [of _ t] exI [of _ ?W]) auto
qed

text \<open>C8: Recovery can be interrupted. The machine boots, with an empty cache, from a memory
  disk whose superblock names a log of at least 30 blocks (\<open>mkfs\<close>'s size) inside the disk, and whose log
  header names fewer than 30 blocks, all of them blocks of the disk other than the superblock and the blocks of the
  log. Then \<open>initlog\<close> returns: it copies the logged blocks to their places, in order, and
  empties the header. If the machine stops after any number \<open>k\<close> of these writes
  and boots again, the second recovery leaves, outside the log,
  the same disk as the first one would have left.\<close>

theorem recovery_restartable:
  assumes r: "booted r" "lg_outstanding (k_log r) = 0" "\<not> lg_committing (k_log r)"
    and place: "log_place (k_disk r) st n" "int LOGSIZE \<le> sint n" "unat st + LOGSIZE < unat (k_disksize r)" "1 < k_disksize r"
    and rec: "recoverable (k_disk r) st (k_disksize r)"
    and W: "W = map (\<lambda>i. (head_dec (k_disk r st) ! i, k_disk r (log_block st i))) [0..<length (head_dec (k_disk r st))]
      @ [(st, head_enc [] (k_disk r st))]"
  shows "\<exists>u. initlog 1 r = Ok () u \<and> log_idle u \<and> k_dtrace u = k_dtrace r @ W \<and> k_disk u = apply_writes W (k_disk r) \<and>
    (\<forall>k q. k \<le> length W \<and> booted q \<and> lg_outstanding (k_log q) = 0 \<and> \<not> lg_committing (k_log q) \<and>
       k_disksize q = k_disksize r \<and> k_disk q = apply_writes (take k W) (k_disk r) \<longrightarrow>
       (\<exists>v. initlog 1 q = Ok () v \<and> log_idle v \<and> (\<forall>b. b \<notin> log_area st \<longrightarrow> k_disk v b = k_disk u b)))"
proof -
  let ?W = "recovery_writes head_enc head_dec st (k_disk r)" and ?bs = "head_dec (k_disk r st)"
  have W: "W = ?W" by (simp add: assms(9) recovery_writes_def)
  obtain u where u: "initlog 1 r = Ok () u" "log_idle u" "k_dtrace u = k_dtrace r @ ?W"
      "k_disk u = apply_writes ?W (k_disk r)"
    using initlog_idle [OF r place rec] by blast
  have disj: "set ?bs \<inter> log_area st = {}" and le: "length ?bs < LOGSIZE" using rec by (auto simp: recoverable_def)
  have P: "1 \<notin> log_area st" "length (k_disk r st) = BSIZE" "1 \<notin> set ?bs"
    using place(1) rec by (auto simp: log_place_def recoverable_def)
  have "\<exists>v. initlog 1 q = Ok () v \<and> log_idle v \<and> (\<forall>b. b \<notin> log_area st \<longrightarrow> k_disk v b = k_disk u b)"
    if q: "k \<le> length ?W" "booted q" "lg_outstanding (k_log q) = 0" "\<not> lg_committing (k_log q)"
      "k_disksize q = k_disksize r" "k_disk q = apply_writes (take k ?W) (k_disk r)" for k q
  proof -
    note R = head.restart [OF refl le disj P(2) q(1), folded q(6)]
    have "1 \<notin> fst ` set ?W" using P by (auto simp: recovery_writes_blocks log_area_def)
    then have "1 \<notin> fst ` set (take k ?W)" by (auto dest: in_set_takeD)
    then have "k_disk q 1 = k_disk r 1" using q(6) by (simp add: apply_writes_other)
    then have "log_place (k_disk q) st n" using place(1) R(3) by (simp add: log_place_def)
    moreover have "recoverable (k_disk q) st (k_disksize q)"
      using R(2) rec q(5) by (auto simp: recoverable_def)
    ultimately obtain v where v: "initlog 1 q = Ok () v" "log_idle v"
        "k_disk v = apply_writes (recovery_writes head_enc head_dec st (k_disk q)) (k_disk q)"
      using initlog_idle [OF q(2-4) _ place(2)] place(3,4) q(5) by auto
    have "k_disk v b = k_disk u b" if "b \<notin> log_area st" for b
      using R(1) [of b] v(3) u(4) that by (auto simp: log_area_def)
    with v(1,2) show ?thesis by blast
  qed
  with u show ?thesis unfolding W by blast
qed

text \<open>A formatted disk: 30 blocks of log from block 2 on, as \<open>mkfs\<close> lays them out, and the
  same disk after a crash, with two blocks in the log: the one with the inode of the root
  directory, 32, and block 100.\<close>

definition log_disk :: "u32 \<Rightarrow> u8 list" where
  "log_disk b = (if b = 1 then put32 (put32 (replicate BSIZE 0) 12 30) 16 2 else replicate BSIZE 0)"

definition crashed_disk :: "u32 \<Rightarrow> u8 list" where
  "crashed_disk = log_disk(2 := head_enc [32, 100] (replicate BSIZE 0), 3 := replicate BSIZE 1, 4 := replicate BSIZE 2)"

definition machine :: "(u32 \<Rightarrow> u8 list) \<Rightarrow> kernel" where
  "machine D = (kernel0 (\<lambda>_. 0) 0 0 D)\<lparr>k_curproc := Some 0\<rparr>"

lemma machine_boot:
  obtains r where "binit (machine D) = Ok () r" "booted r" "lg_outstanding (k_log r) = 0"
    "\<not> lg_committing (k_log r)" "k_disk r = D" "k_disksize r = FSSIZE"
proof -
  obtain B where B: "binit (machine D) = Ok () ((machine D)\<lparr>k_bcache := B\<rparr>)"
      "cache_ok ((machine D)\<lparr>k_bcache := B\<rparr>)" "\<forall>j<NBUF. \<not> blocked (B ! j) \<and> \<not> dirty (B ! j)"
    using binit_cache_ok [of "machine D"] by (auto simp: machine_def kernel0_def buf0_def nth_append)
  then have "booted ((machine D)\<lparr>k_bcache := B\<rparr>)"
    by (auto simp: booted_def calm_def ready_def dirty_blocks_def machine_def kernel0_def log0_def)
  with B(1) that show thesis by (auto simp: machine_def kernel0_def log0_def)
qed

lemma log_area_2: "unat b < 2 \<or> 31 < unat b \<Longrightarrow> b \<notin> log_area 2"
proof
  assume b: "unat b < 2 \<or> 31 < unat b" and "b \<in> log_area 2"
  then consider "b = 2" | i where "i < LOGSIZE - 1" "b = log_block 2 i" unfolding log_area_def by force
  then show False
  proof cases
    case (2 i)
    then have "b = of_nat (i + 3)" by (simp add: log_block_def add.commute)
    with 2(1) b show False by (simp add: unat_of_nat del: of_nat_add)
  qed (use b in simp)
qed

lemma log_disk_place: "log_place log_disk 2 30" "recoverable log_disk 2 sz"
proof -
  have "(1 :: u32) \<notin> log_area 2" by (simp add: log_area_2)
  then show "log_place log_disk 2 30"
    by (simp add: log_place_def log_disk_def get32_put32_same get32_put32_other)
  have "get32 (replicate BSIZE 0) 0 = 0" by (simp add: get32_def)
  then show "recoverable log_disk 2 sz" by (simp add: recoverable_def log_disk_def head_dec_def)
qed

lemma crashed_disk_place:
  "head_dec (crashed_disk 2) = [32, 100]" "log_place crashed_disk 2 30" "recoverable crashed_disk 2 FSSIZE"
proof -
  show h: "head_dec (crashed_disk 2) = [32, 100]" by (simp add: crashed_disk_def head.dec_enc)
  show "log_place crashed_disk 2 30"
    using log_disk_place(1) by (simp add: log_place_def crashed_disk_def head.length_enc)
  show "recoverable crashed_disk 2 FSSIZE" using h by (simp add: recoverable_def log_area_2)
qed

text \<open>The crash of the recovery comes after the write of block 32.\<close>

theorem recovery_restartable_witness:
  "\<exists>r u q v. binit (machine crashed_disk) = Ok () r \<and> initlog 1 r = Ok () u \<and>
    k_disk u 32 = replicate BSIZE 1 \<and> k_disk u 100 = replicate BSIZE 2 \<and>
    binit (machine (crashed_disk(32 := replicate BSIZE 1))) = Ok () q \<and> initlog 1 q = Ok () v \<and>
    k_disk v 32 = replicate BSIZE 1 \<and> k_disk v 100 = replicate BSIZE 2"
proof -
  obtain r where r: "binit (machine crashed_disk) = Ok () r" "booted r" "lg_outstanding (k_log r) = 0"
      "\<not> lg_committing (k_log r)" "k_disk r = crashed_disk" "k_disksize r = FSSIZE"
    by (rule machine_boot)
  obtain q where q: "binit (machine (crashed_disk(32 := replicate BSIZE 1))) = Ok () q" "booted q"
      "lg_outstanding (k_log q) = 0" "\<not> lg_committing (k_log q)"
      "k_disk q = crashed_disk(32 := replicate BSIZE 1)" "k_disksize q = FSSIZE"
    by (rule machine_boot)
  let ?W = "[(32, replicate BSIZE 1), (100, replicate BSIZE 2), (2, head_enc [] (crashed_disk 2))]"
  have W: "?W = map (\<lambda>i. (head_dec (k_disk r 2) ! i, k_disk r (log_block 2 i))) [0..<length (head_dec (k_disk r 2))]
      @ [(2, head_enc [] (k_disk r 2))]"
  proof -
    have "crashed_disk 3 = replicate BSIZE 1" "crashed_disk 4 = replicate BSIZE 2" by (simp_all add: crashed_disk_def)
    then show ?thesis by (simp add: r(5) crashed_disk_place(1) upt_rec log_block_def)
  qed
  have pl: "log_place (k_disk r) 2 30" "recoverable (k_disk r) 2 (k_disksize r)"
    using crashed_disk_place(2,3) by (simp_all add: r(5,6))
  obtain u where u: "initlog 1 r = Ok () u" "k_disk u = apply_writes ?W crashed_disk"
    and crash: "\<forall>k q. k \<le> length ?W \<and> booted q \<and> lg_outstanding (k_log q) = 0 \<and> \<not> lg_committing (k_log q) \<and>
       k_disksize q = k_disksize r \<and> k_disk q = apply_writes (take k ?W) (k_disk r) \<longrightarrow>
       (\<exists>v. initlog 1 q = Ok () v \<and> log_idle v \<and> (\<forall>b. b \<notin> log_area 2 \<longrightarrow> k_disk v b = k_disk u b))"
    using recovery_restartable [OF r(2-4) pl(1) _ _ _ pl(2) W] r(5,6) by auto
  obtain v where v: "initlog 1 q = Ok () v" "\<forall>b. b \<notin> log_area 2 \<longrightarrow> k_disk v b = k_disk u b"
    using crash [rule_format, of 1 q] q r(5,6) by auto
  have "(32 :: u32) \<notin> log_area 2" "(100 :: u32) \<notin> log_area 2" by (simp_all add: log_area_2)
  then have "k_disk v 32 = k_disk u 32" "k_disk v 100 = k_disk u 100" using v(2) by blast+
  moreover have "k_disk u 32 = replicate BSIZE 1" "k_disk u 100 = replicate BSIZE 2"
    by (simp_all add: u(2))
  ultimately show ?thesis using r(1) q(1) u(1) v(1) by metis
qed

text \<open>A call that updates block 32 twice and block 100 once, and a crash after its third write:
  the copies and the header are on the disk, the blocks are not in their places.\<close>

theorem transaction_atomic_witness:
  "\<exists>r s t W q u. binit (machine log_disk) = Ok () r \<and> initlog 1 r = Ok () s \<and>
    transaction [(32, replicate BSIZE 1), (100, replicate BSIZE 1), (32, replicate BSIZE 2)] s = Ok () t \<and>
    k_disk t 32 = replicate BSIZE 2 \<and> k_dtrace t = k_dtrace s @ W \<and> length W = 6 \<and>
    binit (machine (apply_writes (take 3 W) (k_disk s))) = Ok () q \<and> initlog 1 q = Ok () u \<and>
    k_disk u 32 = replicate BSIZE 2 \<and> k_disk u 100 = replicate BSIZE 1"
proof -
  let ?us = "[(32, replicate BSIZE 1), (100, replicate BSIZE 1), (32, replicate BSIZE 2)] :: (u32 \<times> u8 list) list"
  obtain r where r: "binit (machine log_disk) = Ok () r" "booted r" "lg_outstanding (k_log r) = 0"
      "\<not> lg_committing (k_log r)" "k_disk r = log_disk" "k_disksize r = FSSIZE"
    by (rule machine_boot)
  obtain s where s: "initlog 1 r = Ok () s" "log_idle s" "lg_start (k_log s) = 2" "k_disksize s = FSSIZE"
    using initlog_idle [OF r(2-4), of 2 30] log_disk_place r(5,6) by auto
  have out: "(32 :: u32) \<notin> log_area 2" "(100 :: u32) \<notin> log_area 2" by (simp_all add: log_area_2)
  have "fst ` set ?us = {32, 100}" by auto
  then have card: "card (fst ` set ?us) = 2" by simp
  then have "card (fst ` set ?us) \<le> MAXOPBLOCKS" by simp
  moreover have "\<forall>b\<in>fst ` set ?us. b < k_disksize s \<and> b \<noteq> 1 \<and> b \<notin> log_area (lg_start (k_log s))"
    using out s(3,4) by simp
  ultimately obtain t W where t: "transaction ?us s = Ok () t" "k_dtrace t = k_dtrace s @ W" "length W = 6"
      "\<forall>b. b \<notin> log_area 2 \<longrightarrow> k_disk t b = apply_writes ?us (k_disk s) b"
    and crash: "\<forall>k r. k \<le> length W \<and> booted r \<and> lg_outstanding (k_log r) = 0 \<and> \<not> lg_committing (k_log r) \<and>
       k_disksize r = k_disksize s \<and> k_disk r = apply_writes (take k W) (k_disk s) \<longrightarrow>
       (\<exists>u. initlog 1 r = Ok () u \<and> log_idle u \<and>
         (\<forall>b. b \<notin> log_area 2 \<longrightarrow> k_disk u b = (if k \<le> 2 then k_disk s b else apply_writes ?us (k_disk s) b)))"
    using transaction_atomic [OF s(2), of ?us] unfolding card s(3) by auto
  obtain q where q: "binit (machine (apply_writes (take 3 W) (k_disk s))) = Ok () q" "booted q"
      "lg_outstanding (k_log q) = 0" "\<not> lg_committing (k_log q)"
      "k_disk q = apply_writes (take 3 W) (k_disk s)" "k_disksize q = FSSIZE"
    by (rule machine_boot)
  obtain u where u: "initlog 1 q = Ok () u" "\<forall>b. b \<notin> log_area 2 \<longrightarrow> k_disk u b = apply_writes ?us (k_disk s) b"
    using crash [rule_format, of 3 q] q t(3) s(4) by auto
  have "apply_writes ?us (k_disk s) 32 = replicate BSIZE 2" "apply_writes ?us (k_disk s) 100 = replicate BSIZE 1"
    by (simp_all add: apply_writes_def)
  then have "k_disk t 32 = replicate BSIZE 2" "k_disk u 32 = replicate BSIZE 2" "k_disk u 100 = replicate BSIZE 1"
    using t(4) u(2) out by metis+
  then show ?thesis using r(1) s(1) t(1-3) q(1) u(1) by blast
qed

end
