(* ===== verification/Grep.thy ===== *)
theory Grep
  imports Cprintf
begin

text \<open>
  The pattern search of \<open>grep.c\<close>. A pointer into a string is the rest of the string
  from there on, without the final NUL: \<open>*p\<close> is its first byte, or 0 when the rest is
  empty. The patterns denote regular languages; the matcher decides them. The input
  loop is a function of the byte strings that the calls of \<open>read\<close> return.
\<close>

definition NL :: u8 where "NL = 10"
definition caret :: u8 where "caret = 94"
definition dot :: u8 where "dot = 46"
definition star :: u8 where "star = 42"
definition dollar :: u8 where "dollar = 36"

lemmas grep_chars = NL_def caret_def dot_def star_def dollar_def

section \<open>The matcher\<close>

fun matchhere :: "u8 list \<Rightarrow> u8 list \<Rightarrow> bool"
  and matchstar :: "u8 \<Rightarrow> u8 list \<Rightarrow> u8 list \<Rightarrow> bool" where
  "matchhere [] text = True"
| "matchhere (c # re) text =
     (if re \<noteq> [] \<and> hd re = star then matchstar c (tl re) text
      else if c = dollar \<and> re = [] then text = []
      else if text \<noteq> [] \<and> (c = dot \<or> c = hd text) then matchhere re (tl text)
      else False)"
| "matchstar c re text =
     (if matchhere re text then True
      else if text \<noteq> [] \<and> (hd text = c \<or> c = dot) then matchstar c re (tl text)
      else False)"

text \<open>The \<open>do\<close> loop of \<open>match\<close>.\<close>

fun match_from :: "u8 list \<Rightarrow> u8 list \<Rightarrow> bool" where
  "match_from re [] = matchhere re []"
| "match_from re (x # text) = (if matchhere re (x # text) then True else match_from re text)"

definition match :: "u8 list \<Rightarrow> u8 list \<Rightarrow> bool" where
  "match re text =
     (if re \<noteq> [] \<and> hd re = caret then matchhere (tl re) text else match_from re text)"

section \<open>The input loop\<close>

text \<open>\<open>strchr(p, '\n')\<close>, which stops at a NUL.\<close>

definition line_end :: "u8 list \<Rightarrow> nat option" where
  "line_end p = (let k = length (takeWhile (\<lambda>c. c \<noteq> NL \<and> c \<noteq> 0) p) in
     if k < length p \<and> p ! k = NL then Some k else None)"

text \<open>The inner loop: what is written, and what is left at \<open>p\<close>.\<close>

function grep_lines :: "u8 list \<Rightarrow> u8 list \<Rightarrow> u8 list \<times> u8 list" where
  "grep_lines pattern p =
     (case line_end p of
        None \<Rightarrow> ([], p)
      | Some q \<Rightarrow>
          let r = grep_lines pattern (drop (Suc q) p) in
          ((if match pattern (take q p) then take (Suc q) p else []) @ fst r, snd r))"
  by pat_completeness auto
termination
  by (relation "measure (\<lambda>(pattern, p). length p)") (auto simp: line_end_def Let_def split: if_splits)

declare grep_lines.simps [simp del]

text \<open>One turn of the outer loop: \<open>held\<close> are the \<open>m\<close> bytes kept from the last turn,
  \<open>data\<close> what \<open>read\<close> returned, at most \<open>1023 - m\<close> bytes. If no line ended, everything
  is dropped.\<close>

definition grep_turn :: "u8 list \<Rightarrow> u8 list \<Rightarrow> u8 list \<Rightarrow> u8 list \<times> u8 list" where
  "grep_turn pattern held data =
     (let buf = held @ data; r = grep_lines pattern buf in
      (fst r, if length (snd r) = length buf then [] else snd r))"

primrec grep_loop :: "u8 list \<Rightarrow> u8 list \<Rightarrow> u8 list list \<Rightarrow> u8 list" where
  "grep_loop pattern held [] = []"
| "grep_loop pattern held (data # reads) =
     (if data = [] then []
      else let r = grep_turn pattern held data in fst r @ grep_loop pattern (snd r) reads)"

definition grep :: "u8 list \<Rightarrow> u8 list list \<Rightarrow> u8 list" where
  "grep pattern reads = grep_loop pattern [] reads"

section \<open>The language of a pattern\<close>

datatype piece = One u8 | Many u8 | End

fun re_pieces :: "u8 list \<Rightarrow> piece list" where
  "re_pieces [] = []"
| "re_pieces (c # re) =
     (if re \<noteq> [] \<and> hd re = star then Many c # re_pieces (tl re)
      else if c = dollar \<and> re = [] then [End]
      else One c # re_pieces re)"

text \<open>The bytes that \<open>c\<close> stands for.\<close>

definition fits :: "u8 \<Rightarrow> u8 set" where
  "fits c = (if c = dot then UNIV else {c})"

primrec lang :: "piece list \<Rightarrow> u8 list set" where
  "lang [] = {[]}"
| "lang (p # ps) =
     (case p of
        One c \<Rightarrow> {x # v | x v. x \<in> fits c \<and> v \<in> lang ps}
      | Many c \<Rightarrow> {xs @ v | xs v. set xs \<subseteq> fits c \<and> v \<in> lang ps}
      | End \<Rightarrow> lang ps)"

definition to_end :: "piece list \<Rightarrow> bool" where
  "to_end ps \<longleftrightarrow> End \<in> set ps"

text \<open>A text begins with a word of the language; with \<open>$\<close> it is that word.\<close>

definition begins :: "piece list \<Rightarrow> u8 list \<Rightarrow> bool" where
  "begins ps text \<longleftrightarrow> (\<exists>v w. text = v @ w \<and> v \<in> lang ps \<and> (to_end ps \<longrightarrow> w = []))"

lemma beginsI: "text = v @ w \<Longrightarrow> v \<in> lang ps \<Longrightarrow> to_end ps \<longrightarrow> w = [] \<Longrightarrow> begins ps text"
  by (auto simp: begins_def)

lemma to_end_simps [simp]: "to_end (One c # ps) = to_end ps" "to_end (Many c # ps) = to_end ps"
  by (simp_all add: to_end_def)

lemma begins_Nil: "begins [] text"
  by (simp add: begins_def to_end_def)

lemma begins_End: "begins [End] text \<longleftrightarrow> text = []"
  by (auto simp: begins_def to_end_def)

lemma begins_One: "begins (One c # ps) text \<longleftrightarrow> (\<exists>x t. text = x # t \<and> x \<in> fits c \<and> begins ps t)"
proof
  assume "begins (One c # ps) text"
  then obtain v' w where "text = v' @ w" "v' \<in> lang (One c # ps)" "to_end ps \<longrightarrow> w = []"
    unfolding begins_def to_end_def by auto
  moreover from this(2) obtain x v where "v' = x # v" "x \<in> fits c" "v \<in> lang ps" by auto
  ultimately show "\<exists>x t. text = x # t \<and> x \<in> fits c \<and> begins ps t" by (auto simp: begins_def)
next
  assume "\<exists>x t. text = x # t \<and> x \<in> fits c \<and> begins ps t"
  then obtain x v w where "text = (x # v) @ w" "x \<in> fits c" "v \<in> lang ps" "to_end ps \<longrightarrow> w = []"
    by (auto simp: begins_def)
  moreover from this have "x # v \<in> lang (One c # ps)" by simp
  ultimately show "begins (One c # ps) text" unfolding begins_def to_end_simps by blast
qed

lemma begins_Many: "begins (Many c # ps) text \<longleftrightarrow> (\<exists>xs t. text = xs @ t \<and> set xs \<subseteq> fits c \<and> begins ps t)"
proof
  assume "begins (Many c # ps) text"
  then obtain v' w where "text = v' @ w" "v' \<in> lang (Many c # ps)" "to_end ps \<longrightarrow> w = []"
    unfolding begins_def to_end_def by auto
  moreover from this(2) obtain xs v where "v' = xs @ v" "set xs \<subseteq> fits c" "v \<in> lang ps" by auto
  ultimately show "\<exists>xs t. text = xs @ t \<and> set xs \<subseteq> fits c \<and> begins ps t" by (auto simp: begins_def)
next
  assume "\<exists>xs t. text = xs @ t \<and> set xs \<subseteq> fits c \<and> begins ps t"
  then obtain xs v w where "text = (xs @ v) @ w" "set xs \<subseteq> fits c" "v \<in> lang ps" "to_end ps \<longrightarrow> w = []"
    by (auto simp: begins_def)
  moreover from this have "xs @ v \<in> lang (Many c # ps)" by auto
  ultimately show "begins (Many c # ps) text" unfolding begins_def to_end_simps by blast
qed

lemma begins_Many_Cons:
  "begins (Many c # ps) text \<longleftrightarrow> begins ps text \<or> (\<exists>x t. text = x # t \<and> x \<in> fits c \<and> begins (Many c # ps) t)"
  (is "?l \<longleftrightarrow> ?r")
proof
  assume ?l
  then obtain xs t where t: "text = xs @ t" "set xs \<subseteq> fits c" "begins ps t" by (auto simp: begins_Many)
  then show ?r by (cases xs) (auto simp: begins_Many)
next
  assume ?r
  then show ?l
  proof
    assume "begins ps text"
    then show ?l by (force simp: begins_Many)
  next
    assume "\<exists>x t. text = x # t \<and> x \<in> fits c \<and> begins (Many c # ps) t"
    then obtain x xs t where "text = (x # xs) @ t" "set (x # xs) \<subseteq> fits c" "begins ps t"
      by (auto simp: begins_Many)
    then show ?l unfolding begins_Many by blast
  qed
qed

lemma fits_iff: "x \<in> fits c \<longleftrightarrow> c = dot \<or> c = x"
  by (auto simp: fits_def)

lemma matchhere_begins:
  "matchhere re tx \<longleftrightarrow> begins (re_pieces re) tx"
  "matchstar c re tx \<longleftrightarrow> begins (Many c # re_pieces re) tx"
proof (induction re tx and c re tx rule: matchhere_matchstar.induct)
  case (1 tx)
  show ?case by (simp add: begins_Nil)
next
  case (2 c re tx)
  then show ?case by (cases tx) (auto simp: begins_End begins_One fits_iff)
next
  case (3 c re tx)
  then show ?case by (subst begins_Many_Cons, cases tx) (auto simp: fits_iff)
qed

lemma match_from_begins: "match_from re tx \<longleftrightarrow> (\<exists>u t. tx = u @ t \<and> begins (re_pieces re) t)"
proof (induction tx)
  case (Cons x tx)
  then show ?case by (auto simp: matchhere_begins Cons_eq_append_conv)
qed (simp add: matchhere_begins)

text \<open>C13: The matcher of \<open>grep\<close> decides the language of its pattern. A text matches
  iff it is \<open>u v w\<close> where \<open>v\<close> is in the language of the pattern, in which \<open>c\<close>
  stands for the byte itself, \<open>.\<close> for any byte and \<open>c*\<close> for a sequence of such bytes;
  with a leading \<open>^\<close> the part \<open>u\<close> is empty, with a final \<open>$\<close> the part \<open>w\<close>.\<close>

theorem match_language:
  "match re t \<longleftrightarrow>
     (let anchored = (re \<noteq> [] \<and> hd re = caret); ps = re_pieces (if anchored then tl re else re) in
      \<exists>u v w. t = u @ v @ w \<and> v \<in> lang ps \<and> (anchored \<longrightarrow> u = []) \<and> (to_end ps \<longrightarrow> w = []))"
  by (auto simp: match_def matchhere_begins match_from_begins begins_def Let_def)

theorem match_language_witness:
  "match (bytes ''^a.*$'') (bytes ''abc'') \<and> \<not> match (bytes ''b$'') (bytes ''abc'')"
  unfolding match_language
  by (simp add: bytes_def grep_chars to_end_def fits_def)

section \<open>The lines that are printed\<close>

text \<open>The complete lines of a byte string, and what follows the last newline.\<close>

fun full_lines :: "u8 list \<Rightarrow> u8 list \<Rightarrow> u8 list list" where
  "full_lines cur [] = []"
| "full_lines cur (c # cs) = (if c = NL then cur # full_lines [] cs else full_lines (cur @ [c]) cs)"

fun last_part :: "u8 list \<Rightarrow> u8 list \<Rightarrow> u8 list" where
  "last_part cur [] = cur"
| "last_part cur (c # cs) = (if c = NL then last_part [] cs else last_part (cur @ [c]) cs)"

definition printed :: "u8 list \<Rightarrow> u8 list list \<Rightarrow> u8 list" where
  "printed pattern ls = concat (map (\<lambda>l. l @ [NL]) (filter (match pattern) ls))"

lemma full_lines_append: "full_lines cur (xs @ ys) = full_lines cur xs @ full_lines (last_part cur xs) ys"
  by (induction cur xs rule: full_lines.induct) simp_all

lemma full_lines_prefix: "NL \<notin> set xs \<Longrightarrow> full_lines cur (xs @ ys) = full_lines (cur @ xs) ys"
  by (induction xs arbitrary: cur) auto

lemma last_part_prefix: "NL \<notin> set xs \<Longrightarrow> last_part cur (xs @ ys) = last_part (cur @ xs) ys"
  by (induction xs arbitrary: cur) auto

lemma last_part_no_NL: "NL \<notin> set cur \<Longrightarrow> NL \<notin> set (last_part cur xs)"
  by (induction cur xs rule: last_part.induct) auto

lemma last_part_subset: "set (last_part cur xs) \<subseteq> set cur \<union> set xs"
  by (induction cur xs rule: last_part.induct) auto

lemma last_part_length: "length (last_part cur xs) \<le> length cur + length xs"
  by (induction cur xs rule: last_part.induct) auto

lemma last_part_shorter: "NL \<in> set xs \<Longrightarrow> length (last_part cur xs) < length cur + length xs"
proof (induction cur xs rule: last_part.induct)
  case (2 cur c cs)
  then show ?case using last_part_length [of "[]" cs] by (cases "c = NL") auto
qed simp

lemma line_end_None:
  assumes "0 \<notin> set p" "line_end p = None"
  shows "NL \<notin> set p"
proof
  assume "NL \<in> set p"
  then obtain xs ys where p: "p = xs @ NL # ys" "NL \<notin> set xs" by (meson split_list_first)
  moreover from p assms(1) have "takeWhile (\<lambda>c. c \<noteq> NL \<and> c \<noteq> 0) p = xs"
    unfolding p(1) by (subst takeWhile_append2) auto
  ultimately show False using assms(2) by (simp add: line_end_def)
qed

lemma line_end_Some:
  assumes "line_end p = Some q"
  shows "p = take q p @ NL # drop (Suc q) p" "NL \<notin> set (take q p)"
    "take (Suc q) p = take q p @ [NL]"
proof -
  let ?w = "takeWhile (\<lambda>c. c \<noteq> NL \<and> c \<noteq> 0) p"
  from assms have q: "q = length ?w" "q < length p" "p ! q = NL" by (auto simp: line_end_def Let_def split: if_splits)
  then show "p = take q p @ NL # drop (Suc q) p" using id_take_nth_drop [of q p] by simp
  show "take (Suc q) p = take q p @ [NL]" using q(2,3) by (simp add: take_Suc_conv_app_nth)
  have "take q p = ?w" unfolding q(1) by (rule takeWhile_eq_take [symmetric])
  then show "NL \<notin> set (take q p)" using set_takeWhileD [of NL "\<lambda>c. c \<noteq> NL \<and> c \<noteq> 0" p] by auto
qed

lemma grep_lines_printed:
  "0 \<notin> set p \<Longrightarrow> grep_lines pattern p = (printed pattern (full_lines [] p), last_part [] p)"
proof (induction pattern p rule: grep_lines.induct)
  case (1 pattern p)
  show ?case
  proof (cases "line_end p")
    case None
    with line_end_None [OF "1.prems"] have "NL \<notin> set p" by simp
    with None full_lines_prefix [of p "[]" "[]"] last_part_prefix [of p "[]" "[]"] show ?thesis
      by (subst grep_lines.simps) (simp add: printed_def)
  next
    case (Some q)
    note e = line_end_Some [OF Some]
    let ?l = "take q p" and ?r = "drop (Suc q) p"
    have IH: "grep_lines pattern ?r = (printed pattern (full_lines [] ?r), last_part [] ?r)"
      using "1.IH" [OF Some] "1.prems" set_drop_subset [of "Suc q" p] by auto
    have "full_lines [] p = ?l # full_lines [] ?r" "last_part [] p = last_part [] ?r"
      using full_lines_prefix [OF e(2), of "[]" "NL # ?r"] last_part_prefix [OF e(2), of "[]" "NL # ?r"] e(1) by simp_all
    then show ?thesis
      using IH Some e(3) by (subst grep_lines.simps) (simp add: printed_def Let_def)
  qed
qed

text \<open>C16: When every read ends at least one line and there are no NULs in the input, \<open>grep\<close>
  prints exactly the lines of the input that match, in order, whatever the sizes of the
  reads; a last line without newline is not printed.\<close>

theorem grep_prints_matching_lines:
  assumes "\<forall>data\<in>set reads. NL \<in> set data \<and> 0 \<notin> set data"
  shows "grep pattern reads = printed pattern (full_lines [] (concat reads))"
proof -
  have "grep_loop pattern held reads = printed pattern (full_lines held (concat reads))"
    if "NL \<notin> set held" "0 \<notin> set held" for held
    using that assms
  proof (induction reads arbitrary: held)
    case (Cons d reads)
    let ?b = "held @ d" let ?r = "last_part [] ?b"
    have d: "NL \<in> set d" "0 \<notin> set ?b" using Cons.prems by auto
    have r: "?r = last_part held d" using last_part_prefix [OF Cons.prems(1), of "[]" d] by simp
    have "grep_turn pattern held d = (printed pattern (full_lines held d), ?r)"
      using grep_lines_printed [OF d(2), of pattern] full_lines_prefix [OF Cons.prems(1), of "[]" d]
        last_part_shorter [OF d(1), of held] r by (simp add: grep_turn_def Let_def)
    moreover have "NL \<notin> set ?r" by (rule last_part_no_NL) simp
    moreover have "0 \<notin> set ?r" using d(2) last_part_subset [of "[]" ?b] by auto
    moreover have "d \<noteq> []" using d(1) by auto
    ultimately show ?case
      using Cons.IH [of ?r] Cons.prems by (simp add: full_lines_append r printed_def)
  qed (simp add: printed_def)
  then show ?thesis by (simp add: grep_def)
qed

theorem grep_prints_matching_lines_witness:
  "grep (bytes ''b'') [bytes ''ab'' @ [NL] @ bytes ''c'', bytes ''b'' @ [NL] @ bytes ''d'' @ [NL]] =
     bytes ''ab'' @ [NL] @ bytes ''cb'' @ [NL]"
  by (subst grep_prints_matching_lines) (auto simp: bytes_def grep_chars printed_def match_def)

text \<open>A read that returns a piece of a line only is dropped: the same line, read in two
  pieces, is not found.\<close>

lemma grep_drops_partial_line:
  "grep (bytes ''abc'') [bytes ''abc'' @ [NL]] = bytes ''abc'' @ [NL] \<and>
   grep (bytes ''abc'') [bytes ''ab'', bytes ''c'' @ [NL]] = []"
  by (simp add: grep_def grep_turn_def grep_lines.simps line_end_def bytes_def grep_chars match_def Let_def)

end
