(* ===== verification/Sh.thy ===== *)
theory Sh
  imports Cprintf "HOL-Library.Sublist"
begin

text \<open>
  The command line parser of the shell (\<open>sh.c\<close>). The line has no NUL in it; a pointer
  \<open>s\<close> into it is the rest of the line from there on, and \<open>s < es\<close> means that the rest is not
  empty. The recursive functions carry fuel; \<open>None\<close> says that it ran out, and
  \<open>parsecmd\<close> gives enough. \<open>malloc\<close> is taken to succeed.
\<close>

type_synonym ptr = "u8 list"

definition whitespace :: "u8 list" where
  "whitespace = [32, 9, 13, 10, 11]"

definition symbols :: "u8 list" where
  "symbols = bytes ''<|>&;()''"

definition is_ws :: "u8 \<Rightarrow> bool" where
  "is_ws c \<longleftrightarrow> c \<in> set whitespace"

definition is_sym :: "u8 \<Rightarrow> bool" where
  "is_sym c \<longleftrightarrow> c \<in> set symbols"

abbreviation ch :: "char \<Rightarrow> u8" where
  "ch c \<equiv> of_char c"

section \<open>Commands\<close>

text \<open>An argument is the pair of pointers to its first byte and to the byte after it.\<close>

datatype cmd =
    EXEC "(ptr \<times> ptr) list"
  | REDIR cmd ptr ptr u32 nat
  | PIPE cmd cmd
  | LIST cmd cmd
  | BACK cmd

abbreviation MAXARGS :: nat where
  "MAXARGS \<equiv> 10"

abbreviation O_WRONLY_CREATE :: u32 where
  "O_WRONLY_CREATE \<equiv> 0x201"

section \<open>Tokens\<close>

definition skip :: "ptr \<Rightarrow> ptr" where
  "skip s = dropWhile is_ws s"

text \<open>The token at \<open>s\<close>, its first byte, the byte after it, and the next token.\<close>

definition gettoken :: "ptr \<Rightarrow> u8 \<times> ptr \<times> ptr \<times> ptr" where
  "gettoken s =
     (let q = skip s;
          (ret, eq) =
            (case q of
               [] \<Rightarrow> (0, q)
             | c # r \<Rightarrow>
                 if c \<in> {ch CHR ''|'', ch CHR ''('', ch CHR '')'', ch CHR '';'', ch CHR ''&'', ch CHR ''<''} then (c, r)
                 else if c = ch CHR ''>'' then
                   (if r \<noteq> [] \<and> hd r = ch CHR ''>'' then (ch CHR ''+'', tl r) else (c, r))
                 else (ch CHR ''a'', dropWhile (\<lambda>c. \<not> is_ws c \<and> \<not> is_sym c) q))
      in (ret, q, eq, skip eq))"

definition peek :: "ptr \<Rightarrow> string \<Rightarrow> bool" where
  "peek s toks \<longleftrightarrow> skip s \<noteq> [] \<and> hd (skip s) \<in> set (bytes toks)"

section \<open>The parser\<close>

datatype 'a parse = Parsed 'a ptr | Failed string

definition pbind :: "'a parse option \<Rightarrow> ('a \<Rightarrow> ptr \<Rightarrow> 'b parse option) \<Rightarrow> 'b parse option" where
  "pbind r f = (case r of
       None \<Rightarrow> None
     | Some (Failed e) \<Rightarrow> Some (Failed e)
     | Some (Parsed a s) \<Rightarrow> f a s)"

text \<open>The node that \<open>parseredirs\<close> builds; \<open>>>\<close> is opened like \<open>>\<close>.\<close>

definition redircmd :: "u8 \<Rightarrow> cmd \<Rightarrow> ptr \<Rightarrow> ptr \<Rightarrow> cmd" where
  "redircmd tok c q eq =
     (if tok = ch CHR ''<'' then REDIR c q eq 0 0
      else REDIR c q eq O_WRONLY_CREATE 1)"

fun parseredirs :: "nat \<Rightarrow> cmd \<Rightarrow> ptr \<Rightarrow> cmd parse option" where
  "parseredirs 0 c s = None"
| "parseredirs (Suc n) c s =
     (if \<not> peek s ''<>'' then Some (Parsed c (skip s))
      else
        let (tok, _, _, s) = gettoken s;
            (tok2, q, eq, s) = gettoken s in
        if tok2 \<noteq> ch CHR ''a'' then Some (Failed ''missing file for redirection'')
        else parseredirs n (redircmd tok c q eq) s)"

text \<open>\<open>cmd->argv[argc] = q; cmd->eargv[argc] = eq\<close> where \<open>cmd\<close> is the \<open>EXEC\<close> node inside
  the redirections wrapped around it so far.\<close>

fun add_arg :: "cmd \<Rightarrow> ptr \<times> ptr \<Rightarrow> cmd" where
  "add_arg (EXEC as) a = EXEC (as @ [a])"
| "add_arg (REDIR c q eq m fd) a = REDIR (add_arg c a) q eq m fd"
| "add_arg c a = c"

text \<open>The \<open>while\<close> loop of \<open>parseexec\<close>.\<close>

fun parseargs :: "nat \<Rightarrow> nat \<Rightarrow> cmd \<Rightarrow> ptr \<Rightarrow> cmd parse option" where
  "parseargs 0 argc ret s = None"
| "parseargs (Suc n) argc ret s =
     (if peek s ''|)&;'' then Some (Parsed ret (skip s))
      else
        let (tok, q, eq, s) = gettoken s in
        if tok = 0 then Some (Parsed ret s)
        else if tok \<noteq> ch CHR ''a'' then Some (Failed ''syntax'')
        else if argc + 1 \<ge> MAXARGS then Some (Failed ''too many args'')
        else pbind (parseredirs n (add_arg ret (q, eq)) s) (parseargs n (argc + 1)))"

text \<open>The loop of \<open>parseline\<close> over \<open>&\<close>.\<close>

fun parsebacks :: "nat \<Rightarrow> cmd \<Rightarrow> ptr \<Rightarrow> cmd parse option" where
  "parsebacks 0 c s = None"
| "parsebacks (Suc n) c s =
     (if \<not> peek s ''&'' then Some (Parsed c (skip s))
      else let (_, _, _, s) = gettoken s in parsebacks n (BACK c) s)"

fun parseline :: "nat \<Rightarrow> ptr \<Rightarrow> cmd parse option"
  and parsepipe :: "nat \<Rightarrow> ptr \<Rightarrow> cmd parse option"
  and parseexec :: "nat \<Rightarrow> ptr \<Rightarrow> cmd parse option"
  and parseblock :: "nat \<Rightarrow> ptr \<Rightarrow> cmd parse option" where
  "parseline 0 s = None"
| "parsepipe 0 s = None"
| "parseexec 0 s = None"
| "parseblock 0 s = None"
| "parseline (Suc n) s =
     pbind (parsepipe n s) (\<lambda>c s.
     pbind (parsebacks n c s) (\<lambda>c s.
     if peek s '';'' then
       let (_, _, _, s) = gettoken s in
       pbind (parseline n s) (\<lambda>r s. Some (Parsed (LIST c r) s))
     else Some (Parsed c (skip s))))"
| "parsepipe (Suc n) s =
     pbind (parseexec n s) (\<lambda>c s.
     if peek s ''|'' then
       let (_, _, _, s) = gettoken s in
       pbind (parsepipe n s) (\<lambda>r s. Some (Parsed (PIPE c r) s))
     else Some (Parsed c (skip s)))"
| "parseexec (Suc n) s =
     (if peek s ''('' then parseblock n (skip s)
      else pbind (parseredirs n (EXEC []) s) (parseargs n 0))"
| "parseblock (Suc n) s =
     (if \<not> peek s ''('' then Some (Failed ''parseblock'')
      else
        let (_, _, _, s) = gettoken s in
        pbind (parseline n s) (\<lambda>c s.
        if \<not> peek s '')'' then Some (Failed ''syntax - missing )'')
        else let (_, _, _, s) = gettoken s in parseredirs n c s))"

text \<open>Before \<open>nulterminate\<close>.\<close>

definition parsetop :: "ptr \<Rightarrow> cmd parse option" where
  "parsetop s =
     pbind (parseline (4 * length s + 4) s) (\<lambda>c s.
     if skip s \<noteq> [] then Some (Failed ''syntax'') else Some (Parsed c (skip s)))"

text \<open>The bytes of the line with the final NUL; a pointer is the offset given by the
  length of the rest.\<close>

definition put_nul :: "ptr \<Rightarrow> u8 list \<Rightarrow> u8 list" where
  "put_nul p buf = buf[length buf - 1 - length p := 0]"

primrec nulterminate :: "cmd \<Rightarrow> u8 list \<Rightarrow> u8 list" where
  "nulterminate (EXEC as) buf = fold (\<lambda>(q, eq). put_nul eq) as buf"
| "nulterminate (REDIR c q eq m fd) buf = put_nul eq (nulterminate c buf)"
| "nulterminate (PIPE c d) buf = nulterminate d (nulterminate c buf)"
| "nulterminate (LIST c d) buf = nulterminate d (nulterminate c buf)"
| "nulterminate (BACK c) buf = nulterminate c buf"

definition parsecmd :: "ptr \<Rightarrow> (cmd \<times> u8 list) parse option" where
  "parsecmd s = pbind (parsetop s) (\<lambda>c s'. Some (Parsed (c, nulterminate c (s @ [0])) s'))"

section \<open>Termination\<close>

lemma skip_le: "length (skip s) \<le> length s"
  by (simp add: skip_def length_dropWhile_le)

lemma skip_Nil [simp]: "skip [] = []"
  by (simp add: skip_def)

lemma skip_skip [simp]: "skip (skip s) = skip s"
  by (simp add: skip_def)

lemma skip_hd: "skip s = c # r \<Longrightarrow> \<not> is_ws c"
  unfolding skip_def by (metis hd_dropWhile list.sel(1) list.discI)

lemma peek_skip [simp]: "peek (skip s) t = peek s t"
  by (simp add: peek_def)

lemma symbols_set: "set symbols = {ch CHR ''<'', ch CHR ''|'', ch CHR ''>'', ch CHR ''&'', ch CHR '';'', ch CHR ''('', ch CHR '')''}"
  by (simp add: symbols_def bytes_def)

lemma gettoken_consumes:
  assumes "gettoken s = (t, q, e, s')"
  shows "length s' \<le> length s" "skip s \<noteq> [] \<Longrightarrow> length s' < length s" "t = 0 \<Longrightarrow> skip s = []"
proof -
  have "length s' \<le> length s \<and> (skip s \<noteq> [] \<longrightarrow> length s' < length s) \<and> (t = 0 \<longrightarrow> skip s = [])"
  proof (cases "skip s")
    case Nil
    with assms show ?thesis by (auto simp: gettoken_def Let_def)
  next
    case (Cons c r)
    have l: "length r < length s" using skip_le [of s] Cons by simp
    have r: "length (skip e) < length s" if "length e \<le> length r" for e
      using that skip_le [of e] l by simp
    have "length e \<le> length r \<and> s' = skip e \<and> t \<noteq> 0"
    proof (cases "is_sym c")
      case True
      with assms Cons show ?thesis
        by (auto simp: gettoken_def Let_def is_sym_def symbols_set split: if_splits)
    next
      case False
      with skip_hd [OF Cons] assms Cons show ?thesis
        by (auto simp: gettoken_def Let_def is_sym_def symbols_set length_dropWhile_le split: if_splits)
    qed
    with r [of e] show ?thesis by auto
  qed
  then show "length s' \<le> length s" "skip s \<noteq> [] \<Longrightarrow> length s' < length s" "t = 0 \<Longrightarrow> skip s = []" by auto
qed

text \<open>A parser that returns, with what is left no longer than before.\<close>

definition returns :: "nat \<Rightarrow> 'a parse option \<Rightarrow> bool" where
  "returns L r \<longleftrightarrow> (case r of None \<Rightarrow> False | Some (Failed e) \<Rightarrow> True | Some (Parsed a s) \<Rightarrow> length s \<le> L)"

lemma returns_simps [simp]:
  "returns L (Some (Failed e))" "returns L (Some (Parsed a s)) \<longleftrightarrow> length s \<le> L"
  by (simp_all add: returns_def)

lemma returns_pbind:
  assumes "returns K r" "\<And>a s. length s \<le> K \<Longrightarrow> returns L (f a s)"
  shows "returns L (pbind r f)"
proof (cases r)
  case (Some x)
  with assms show ?thesis by (cases x) (simp_all add: pbind_def)
qed (use assms(1) in \<open>simp add: returns_def\<close>)

lemma returns_mono: "returns K r \<Longrightarrow> K \<le> L \<Longrightarrow> returns L r"
  by (auto simp: returns_def split: option.splits parse.splits)

lemma peek_nonempty: "peek s t \<Longrightarrow> skip s \<noteq> []"
  by (simp add: peek_def)

lemma parseredirs_returns: "length s < n \<Longrightarrow> returns (length s) (parseredirs n c s)"
proof (induction n arbitrary: c s)
  case (Suc n)
  show ?case
  proof (cases "peek s ''<>''")
    case True
    obtain t q e s1 where g: "gettoken s = (t, q, e, s1)" by (cases "gettoken s")
    obtain t2 q2 e2 s2 where g2: "gettoken s1 = (t2, q2, e2, s2)" by (cases "gettoken s1")
    have "length s2 < length s"
      using gettoken_consumes(2) [OF g peek_nonempty [OF True]] gettoken_consumes(1) [OF g2] by simp
    then have "returns (length s) (parseredirs n (redircmd t c q2 e2) s2)"
      using returns_mono [OF Suc.IH] Suc.prems by simp
    with True g g2 show ?thesis by simp
  qed (simp add: skip_le)
qed simp

lemma parsebacks_returns: "length s < n \<Longrightarrow> returns (length s) (parsebacks n c s)"
proof (induction n arbitrary: c s)
  case (Suc n)
  show ?case
  proof (cases "peek s ''&''")
    case True
    obtain t q e s1 where g: "gettoken s = (t, q, e, s1)" by (cases "gettoken s")
    have "length s1 < length s" by (rule gettoken_consumes(2) [OF g peek_nonempty [OF True]])
    then have "returns (length s) (parsebacks n (BACK c) s1)" using returns_mono [OF Suc.IH] Suc.prems by simp
    with True g show ?thesis by simp
  qed (simp add: skip_le)
qed simp

lemma parseargs_returns: "length s < n \<Longrightarrow> returns (length s) (parseargs n argc c s)"
proof (induction n arbitrary: argc c s)
  case (Suc n)
  obtain t q e s1 where g: "gettoken s = (t, q, e, s1)" by (cases "gettoken s")
  note le = gettoken_consumes [OF g]
  show ?case
  proof (cases "t = 0 \<or> skip s = []")
    case True
    then show ?thesis using g le(1,3) by (auto simp: skip_le gettoken_def peek_def)
  next
    case False
    then have lt: "length s1 < length s" using le(2) by simp
    have "returns (length s) (pbind (parseredirs n (add_arg c (q, e)) s1) (parseargs n (argc + 1)))"
      by (rule returns_pbind [OF parseredirs_returns])
        (use lt Suc.prems in \<open>auto intro: returns_mono [OF Suc.IH]\<close>)
    with g lt False show ?thesis by (simp add: skip_le)
  qed
qed simp

text \<open>What follows the next token.\<close>

abbreviation after :: "ptr \<Rightarrow> ptr" where
  "after s \<equiv> snd (snd (snd (gettoken s)))"

lemma after_lt: "peek s t \<Longrightarrow> length (after s) < length s"
  by (cases "gettoken s") (use gettoken_consumes(2) [of s] peek_nonempty [of s t] in auto)

lemma parseline_step:
  assumes pipe: "returns (length s) (parsepipe n s)" and n: "length s < n"
    and line: "\<And>s'. length s' < length s \<Longrightarrow> returns (length s') (parseline n s')"
  shows "returns (length s) (parseline (Suc n) s)"
  unfolding parseline.simps Let_def split_def
proof (rule returns_pbind [OF pipe], rule returns_pbind [OF parsebacks_returns], goal_cases)
  case (2 c s1 c2 s2)
  show ?case
  proof (cases "peek s2 '';''")
    case True
    then have "length (after s2) < length s" using after_lt [OF True] 2 by simp
    then have "returns (length s) (parseline n (after s2))" using returns_mono [OF line] by simp
    with True show ?thesis by (auto intro: returns_pbind)
  qed (use 2 skip_le [of s2] in simp)
qed (use n in simp)

lemma parsepipe_step:
  assumes exec: "returns (length s) (parseexec n s)"
    and pipe: "\<And>s'. length s' < length s \<Longrightarrow> returns (length s') (parsepipe n s')"
  shows "returns (length s) (parsepipe (Suc n) s)"
  unfolding parsepipe.simps Let_def split_def
proof (rule returns_pbind [OF exec], goal_cases)
  case (1 c s1)
  show ?case
  proof (cases "peek s1 ''|''")
    case True
    then have "length (after s1) < length s" using after_lt [OF True] 1 by simp
    then have "returns (length s) (parsepipe n (after s1))" using returns_mono [OF pipe] by simp
    with True show ?thesis by (auto intro: returns_pbind)
  qed (use 1 skip_le [of s1] in simp)
qed

lemma parseexec_step:
  assumes "returns (length (skip s)) (parseblock n (skip s))" "length s < n"
  shows "returns (length s) (parseexec (Suc n) s)"
proof (cases "peek s ''(''")
  case True
  then show ?thesis using returns_mono [OF assms(1) skip_le] by simp
next
  case False
  have "returns (length s) (pbind (parseredirs n (EXEC []) s) (parseargs n 0))"
    by (rule returns_pbind [OF parseredirs_returns]) (use assms(2) in \<open>auto intro: returns_mono [OF parseargs_returns]\<close>)
  with False show ?thesis by simp
qed

lemma parseblock_step:
  assumes line: "\<And>s'. length s' < length s \<Longrightarrow> returns (length s') (parseline n s')" and n: "length s < n"
  shows "returns (length s) (parseblock (Suc n) s)"
proof (cases "peek s ''(''")
  case True
  have lt: "length (after s) < length s" by (rule after_lt [OF True])
  have "returns (length s) (pbind (parseline n (after s)) (\<lambda>c s.
      if \<not> peek s '')'' then Some (Failed ''syntax - missing )'') else parseredirs n c (after s)))"
  proof (rule returns_pbind [OF line [OF lt]], goal_cases)
    case (1 c s1)
    show ?case
    proof (cases "peek s1 '')''")
      case True
      have "length (after s1) < length s" using after_lt [OF True] 1 lt by simp
      then have "returns (length s) (parseredirs n c (after s1))"
        using returns_mono [OF parseredirs_returns] n by simp
      with True show ?thesis by simp
    qed simp
  qed
  with True show ?thesis unfolding parseblock.simps Let_def split_def by simp
qed simp

lemma parsers_return:
  "(4 * length s + 4 \<le> n \<longrightarrow> returns (length s) (parseline n s)) \<and>
   (4 * length s + 3 \<le> n \<longrightarrow> returns (length s) (parsepipe n s)) \<and>
   (4 * length s + 2 \<le> n \<longrightarrow> returns (length s) (parseexec n s)) \<and>
   (4 * length s + 1 \<le> n \<longrightarrow> returns (length s) (parseblock n s))"
proof (induction n arbitrary: s)
  case (Suc n)
  note IH = Suc.IH [of s] and IHs = Suc.IH
  have line: "returns (length s') (parseline n s')" if "length s' < length s" "4 * length s + 1 \<le> Suc n" for s'
    using IHs [of s'] that by simp
  have pipe: "returns (length s') (parsepipe n s')" if "length s' < length s" "4 * length s + 3 \<le> Suc n" for s'
    using IHs [of s'] that by simp
  show ?case
  proof (intro conjI impI)
    assume n: "4 * length s + 4 \<le> Suc n"
    show "returns (length s) (parseline (Suc n) s)"
      by (rule parseline_step) (use IH n line in simp_all)
  next
    assume n: "4 * length s + 3 \<le> Suc n"
    show "returns (length s) (parsepipe (Suc n) s)"
      by (rule parsepipe_step) (use IH n pipe in simp_all)
  next
    assume n: "4 * length s + 2 \<le> Suc n"
    show "returns (length s) (parseexec (Suc n) s)"
      by (rule parseexec_step) (use IHs [of "skip s"] n skip_le [of s] in simp_all)
  next
    assume n: "4 * length s + 1 \<le> Suc n"
    show "returns (length s) (parseblock (Suc n) s)"
    proof (cases "s = []")
      case True
      then show ?thesis by (simp add: peek_def)
    next
      case False
      show ?thesis by (rule parseblock_step) (use line n False in \<open>simp_all add: neq_Nil_conv, auto\<close>)
    qed
  qed
qed simp

text \<open>C14: The parser of the shell returns on every line: with the fuel that \<open>parsecmd\<close>
  gives them, the recursive descent and its loops end with a command or an error.\<close>

theorem parsecmd_returns: "\<exists>r. parsecmd s = Some r"
proof -
  have "returns (length s) (parsetop s)"
    unfolding parsetop_def by (rule returns_pbind [of "length s"]) (use parsers_return [of s] skip_le in \<open>auto simp: returns_def\<close>)
  then have "returns (length s) (parsecmd s)"
    unfolding parsecmd_def by (rule returns_pbind) simp
  then show ?thesis by (auto simp: returns_def split: option.splits)
qed

section \<open>The strings of a command\<close>

definition wordch :: "u8 \<Rightarrow> bool" where
  "wordch c \<longleftrightarrow> \<not> is_ws c \<and> \<not> is_sym c"

text \<open>A token of the line: a maximal sequence of bytes that are no space and no symbol.\<close>

definition word_at :: "ptr \<Rightarrow> ptr \<times> ptr \<Rightarrow> bool" where
  "word_at line = (\<lambda>(q, e). suffix q line \<and>
     (\<exists>w. q = w @ e \<and> w \<noteq> [] \<and> (\<forall>c\<in>set w. wordch c) \<and> (e = [] \<or> \<not> wordch (hd e))))"

primrec toks :: "cmd \<Rightarrow> (ptr \<times> ptr) list" where
  "toks (EXEC as) = as"
| "toks (REDIR c q e m fd) = toks c @ [(q, e)]"
| "toks (PIPE c d) = toks c @ toks d"
| "toks (LIST c d) = toks c @ toks d"
| "toks (BACK c) = toks c"

lemma nulterminate_toks: "nulterminate c b = fold (\<lambda>(q, e). put_nul e) (toks c) b"
  by (induction c arbitrary: b) simp_all

lemma skip_suffix: "suffix (skip s) s"
  by (simp add: skip_def suffix_dropWhile)

lemma gettoken_word:
  assumes "gettoken s = (t, q, e, s')"
  shows "suffix s' s" "suffix q s" "t = ch CHR ''a'' \<Longrightarrow> word_at s (q, e)"
proof -
  have q: "q = skip s" "s' = skip e" using assms by (auto simp: gettoken_def Let_def split: prod.splits)
  have e: "suffix e q"
  proof (cases q)
    case Nil
    with assms q(1) show ?thesis by (auto simp: gettoken_def Let_def)
  next
    case (Cons c r)
    then have "skip s = c # r" using q(1) by simp
    with assms have "e = r \<or> e = tl r \<or> e = dropWhile (\<lambda>c. \<not> is_ws c \<and> \<not> is_sym c) (c # r)"
      by (auto simp: gettoken_def Let_def split: if_splits)
    moreover have "suffix r (c # r)" "suffix (tl r) (c # r)" "suffix (dropWhile P (c # r)) (c # r)" for P
      by (simp_all add: suffix_ConsI suffix_tl suffix_dropWhile del: dropWhile.simps)
    ultimately show ?thesis using Cons by metis
  qed
  show "suffix q s" using q(1) skip_suffix by simp
  then show "suffix s' s" using e q(2) skip_suffix [of e] by (meson suffix_order.trans)
  assume a: "t = ch CHR ''a''"
  show "word_at s (q, e)"
  proof (cases q)
    case Nil
    with assms a q(1) show ?thesis by (auto simp: gettoken_def Let_def)
  next
    case (Cons c r)
    let ?P = "\<lambda>c. \<not> is_ws c \<and> \<not> is_sym c"
    from Cons have sk: "skip s = c # r" using q(1) by simp
    from sk assms a have "e = dropWhile ?P (c # r)" and c: "\<not> is_sym c"
      by (auto simp: gettoken_def Let_def is_sym_def symbols_set split: if_splits)
    then have ed: "e = dropWhile ?P q" using Cons by simp
    have "\<not> is_ws c" by (rule skip_hd [OF sk])
    with c Cons have "takeWhile ?P q \<noteq> []" by simp
    moreover have "\<forall>c\<in>set (takeWhile ?P q). wordch c" by (auto simp: wordch_def dest: set_takeWhileD)
    moreover have "e = [] \<or> \<not> wordch (hd e)" using hd_dropWhile [of ?P q] ed by (auto simp: wordch_def)
    moreover have "q = takeWhile ?P q @ e" using ed by simp
    ultimately show ?thesis using \<open>suffix q s\<close> unfolding word_at_def by blast
  qed
qed

definition sound :: "ptr \<Rightarrow> cmd parse option \<Rightarrow> bool" where
  "sound line r \<longleftrightarrow> (case r of Some (Parsed c s) \<Rightarrow> suffix s line \<and> list_all (word_at line) (toks c) | _ \<Rightarrow> True)"

lemma sound_simps [simp]:
  "sound line None" "sound line (Some (Failed e))"
  "sound line (Some (Parsed c s)) \<longleftrightarrow> suffix s line \<and> list_all (word_at line) (toks c)"
  by (simp_all add: sound_def)

lemma sound_pbind:
  assumes "sound line r"
    "\<And>c s. suffix s line \<Longrightarrow> list_all (word_at line) (toks c) \<Longrightarrow> sound line (f c s)"
  shows "sound line (pbind r f)"
proof (cases r)
  case (Some x)
  with assms show ?thesis by (cases x) (simp_all add: pbind_def)
qed (simp add: pbind_def)

lemma suffix_skip: "suffix s line \<Longrightarrow> suffix (skip s) line"
  using skip_suffix suffix_order.trans by blast

lemma word_at_suffix: "word_at s t \<Longrightarrow> suffix s line \<Longrightarrow> word_at line t"
  by (auto simp: word_at_def intro: suffix_order.trans)

lemma gettoken_line:
  assumes "suffix s line"
  shows "suffix (after s) line"
    "fst (gettoken s) = ch CHR ''a'' \<Longrightarrow> word_at line (fst (snd (gettoken s)), fst (snd (snd (gettoken s))))"
proof -
  obtain t q e s' where g: "gettoken s = (t, q, e, s')" by (cases "gettoken s")
  show "suffix (after s) line" using gettoken_word(1) [OF g] g assms by (auto intro: suffix_order.trans)
  show "word_at line (fst (snd (gettoken s)), fst (snd (snd (gettoken s))))" if "fst (gettoken s) = ch CHR ''a''"
    using gettoken_word(3) [OF g] g that assms by (auto intro: word_at_suffix)
qed

lemma toks_add_arg: "set (toks (add_arg c a)) \<subseteq> insert a (set (toks c))"
  by (induction c a rule: add_arg.induct) auto

lemma toks_redircmd [simp]: "toks (redircmd t c q e) = toks c @ [(q, e)]"
  by (simp add: redircmd_def)

lemma parseredirs_sound:
  "suffix s line \<Longrightarrow> list_all (word_at line) (toks c) \<Longrightarrow> sound line (parseredirs n c s)"
  by (induction n arbitrary: c s) (auto simp: Let_def split_def suffix_skip gettoken_line)

lemma parsebacks_sound:
  "suffix s line \<Longrightarrow> list_all (word_at line) (toks c) \<Longrightarrow> sound line (parsebacks n c s)"
  by (induction n arbitrary: c s) (auto simp: Let_def split_def suffix_skip gettoken_line)

lemma parseargs_sound:
  "suffix s line \<Longrightarrow> list_all (word_at line) (toks c) \<Longrightarrow> sound line (parseargs n argc c s)"
proof (induction n arbitrary: argc c s)
  case (Suc n)
  let ?a = "(fst (snd (gettoken s)), fst (snd (snd (gettoken s))))"
  have "sound line (pbind (parseredirs n (add_arg c ?a) (after s)) (parseargs n (argc + 1)))"
    if "fst (gettoken s) = ch CHR ''a''"
    using toks_add_arg [of c ?a] gettoken_line [OF Suc.prems(1)] that Suc.prems(2)
    by (intro sound_pbind parseredirs_sound Suc.IH) (auto simp: list_all_iff)
  with Suc.prems show ?case by (simp add: Let_def split_def suffix_skip gettoken_line)
qed simp

lemma parsers_sound:
  "(suffix s line \<longrightarrow> sound line (parseline n s)) \<and> (suffix s line \<longrightarrow> sound line (parsepipe n s)) \<and>
   (suffix s line \<longrightarrow> sound line (parseexec n s)) \<and> (suffix s line \<longrightarrow> sound line (parseblock n s))"
proof (induction n arbitrary: s)
  case (Suc n)
  have line: "sound line (parseline n s)" and pipe: "sound line (parsepipe n s)"
    and exec: "sound line (parseexec n s)" and block: "sound line (parseblock n s)" if "suffix s line" for s
    using Suc.IH [of s] that by blast+
  show ?case
  proof (intro conjI impI)
    assume s: "suffix s line"
    show "sound line (parseline (Suc n) s)"
      unfolding parseline.simps Let_def split_def
      by (rule sound_pbind [OF pipe [OF s]], rule sound_pbind [OF parsebacks_sound])
        (auto intro!: sound_pbind line gettoken_line suffix_skip)
    show "sound line (parsepipe (Suc n) s)"
      unfolding parsepipe.simps Let_def split_def
      by (rule sound_pbind [OF exec [OF s]]) (auto intro!: sound_pbind pipe gettoken_line suffix_skip)
    show "sound line (parseexec (Suc n) s)"
      using s by (auto intro!: sound_pbind block parseredirs_sound parseargs_sound suffix_skip)
    show "sound line (parseblock (Suc n) s)"
      unfolding parseblock.simps Let_def split_def
      using s by (auto intro!: sound_pbind line parseredirs_sound gettoken_line)
  qed
qed simp

text \<open>The C string at a pointer.\<close>

definition string_at :: "u8 list \<Rightarrow> ptr \<Rightarrow> u8 list" where
  "string_at buf p = takeWhile (\<lambda>c. c \<noteq> 0) (drop (length buf - 1 - length p) buf)"

lemma nulls:
  "length (fold (\<lambda>(q, e). put_nul e) ts b) = length b"
  "i < length b \<Longrightarrow> fold (\<lambda>(q, e). put_nul e) ts b ! i =
     (if i \<in> (\<lambda>(q, e). length b - 1 - length e) ` set ts then 0 else b ! i)"
proof (induction ts arbitrary: b)
  case (Cons t ts)
  { case 1 show ?case using Cons by (simp add: put_nul_def split: prod.split) }
  { case 2 then show ?case using Cons [of "put_nul (snd t) b"] by (auto simp: put_nul_def nth_list_update split: prod.splits) }
qed simp_all

lemma string_at_word:
  assumes ts: "list_all (word_at s) ts" and t: "(q, e) \<in> set ts" and s: "0 \<notin> set s"
  shows "string_at (fold (\<lambda>(q, e). put_nul e) ts (s @ [0])) q = take (length q - length e) q"
proof -
  let ?b = "fold (\<lambda>(q, e). put_nul e) ts (s @ [0])"
  from ts t have "word_at s (q, e)" by (auto simp: list_all_iff)
  then obtain pre w where w: "s = pre @ w @ e" "q = w @ e" "\<forall>c\<in>set w. wordch c" by (auto simp: word_at_def suffix_def)
  let ?n = "length pre"
  have len: "length ?b = Suc (length s)" by (simp add: nulls(1))
  have nul: "?b ! i = (if i \<in> (\<lambda>(q, e). length s - length e) ` set ts then 0 else (s @ [0]) ! i)" if "i \<le> length s" for i
    using nulls(2) [of i "s @ [0]" ts] that by simp
  have inside: "?b ! (?n + i) = w ! i" if i: "i < length w" for i
  proof -
    have "?n + i \<noteq> length s - length e'" if t': "(q', e') \<in> set ts" for q' e'
    proof
      assume pos: "?n + i = length s - length e'"
      from ts t' obtain pre' where e': "s = pre' @ e'" "e' = [] \<or> \<not> wordch (hd e')"
        by (fastforce simp: list_all_iff word_at_def suffix_def)
      then have "length pre' = ?n + i" using pos by simp
      then have "e' = drop (?n + i) s" using e'(1) by simp
      also have "\<dots> = w ! i # drop (Suc i) (w @ e)" using i by (simp add: w(1) Cons_nth_drop_Suc [symmetric] nth_append)
      finally show False using e'(2) w(3) i by simp
    qed
    then have "?n + i \<notin> (\<lambda>(q, e). length s - length e) ` set ts" by auto
    then show ?thesis using nul [of "?n + i"] i by (simp add: w(1) nth_append)
  qed
  have "?n + length w = length s - length e" using w(1) by simp
  then have "?n + length w \<in> (\<lambda>(q, e). length s - length e) ` set ts" using t by force
  then have zero: "?b ! (?n + length w) = 0" using nul [of "?n + length w"] w(1) by simp
  have "drop ?n ?b = w @ 0 # drop (Suc (?n + length w)) ?b"
  proof -
    have "take (length w) (drop ?n ?b) = w"
      by (rule nth_equalityI) (use len w(1) inside in simp_all)
    moreover have "drop (?n + length w) ?b = 0 # drop (Suc (?n + length w)) ?b"
      using Cons_nth_drop_Suc [of "?n + length w" ?b] zero len w(1) by simp
    ultimately show ?thesis
      using append_take_drop_id [of "length w" "drop ?n ?b"] by (simp add: add.commute)
  qed
  moreover have "takeWhile (\<lambda>c. c \<noteq> 0) (w @ 0 # xs) = w" for xs
    using s w(1) by (subst takeWhile_append2) auto
  moreover have "length ?b - 1 - length q = ?n" using len w(1,2) by simp
  ultimately show ?thesis by (simp add: string_at_def w(2))
qed

lemma parsetop_sound: "sound s (parsetop s)"
  unfolding parsetop_def
  by (rule sound_pbind) (use parsers_sound [of s s] in \<open>auto intro: suffix_skip\<close>)

text \<open>C15: The strings of a parsed command are the words of the line. The parser keeps
  pointers into the line and \<open>nulterminate\<close> then overwrites the byte behind each word with
  a NUL. Afterwards the C string at each argument and file name is the maximal word of
  the line that starts there: no overwritten byte lies inside another word.\<close>

theorem parsecmd_strings:
  assumes s: "0 \<notin> set s" and run: "parsecmd s = Some (Parsed (c, buf) r)"
  shows "list_all (\<lambda>(q, e). word_at s (q, e) \<and> string_at buf q = take (length q - length e) q) (toks c)"
proof -
  note parsetop_sound [of s]
  moreover from run have "parsetop s = Some (Parsed c r)" "buf = nulterminate c (s @ [0])"
    by (auto simp: parsecmd_def pbind_def split: option.splits parse.splits)
  ultimately show ?thesis
    using string_at_word [of s "toks c", OF _ _ s] by (auto simp: list_all_iff nulterminate_toks)
qed

theorem parsecmd_strings_witness:
  "\<exists>c buf r. parsecmd (bytes ''ls>f'') = Some (Parsed (c, buf) r) \<and>
     list_all (\<lambda>(q, e). string_at buf q = take (length q - length e) q) (toks c) \<and> length (toks c) = 2"
proof -
  let ?c = "REDIR (EXEC [(bytes ''ls>f'', bytes ''>f'')]) (bytes ''f'') [] O_WRONLY_CREATE 1"
  have run: "parsecmd (bytes ''ls>f'') = Some (Parsed (?c, bytes ''ls'' @ [0] @ bytes ''f'' @ [0]) [])"
    by code_simp
  have "0 \<notin> set (bytes ''ls>f'')" by (simp add: bytes_def)
  from parsecmd_strings [OF this run] run show ?thesis by fastforce
qed

end
