(* ===== verification/Sh_Syntax.thy ===== *)
theory Sh_Syntax
  imports Sh
begin

text \<open>
  The grammar of the shell. A command is written out with the operators of the shell
  and parentheses where they are needed; the parser of \<open>sh.c\<close> reads it back.
\<close>

section \<open>Commands and their text\<close>

datatype ast =
    XExec "u8 list list"
  | XRedir ast "u8 list" u32 nat
  | XPipe ast ast
  | XList ast ast
  | XBack ast

text \<open>A parsed command with its words.\<close>

primrec words :: "cmd \<Rightarrow> ast" where
  "words (EXEC as) = XExec (map (\<lambda>(q, e). take (length q - length e) q) as)"
| "words (REDIR c q e m fd) = XRedir (words c) (take (length q - length e) q) m fd"
| "words (PIPE c d) = XPipe (words c) (words d)"
| "words (LIST c d) = XList (words c) (words d)"
| "words (BACK c) = XBack (words c)"

abbreviation SP :: u8 where
  "SP \<equiv> 32"

definition redir_text :: "u8 list \<Rightarrow> u32 \<Rightarrow> u8 list" where
  "redir_text f m = (if m = 0 then ch CHR ''<'' else ch CHR ''>'') # f @ [SP]"

definition paren :: "bool \<Rightarrow> u8 list \<Rightarrow> u8 list" where
  "paren b s = (if b then ch CHR ''('' # s @ [ch CHR '')''] else s)"

text \<open>The text of a command where the grammar wants a line (0), the left side of \<open>;\<close>
  or \<open>&\<close> (1), a pipeline (2) or a simple command (3).\<close>

primrec text_of :: "ast \<Rightarrow> nat \<Rightarrow> u8 list" where
  "text_of (XExec ws) p = concat (map (\<lambda>w. w @ [SP]) ws)"
| "text_of (XRedir a f m fd) p = text_of a 3 @ redir_text f m"
| "text_of (XPipe a b) p = paren (2 < p) (text_of a 3 @ [ch CHR ''|''] @ text_of b 2)"
| "text_of (XBack a) p = paren (1 < p) (text_of a 1 @ [ch CHR ''&''])"
| "text_of (XList a b) p = paren (0 < p) (text_of a 1 @ [ch CHR '';''] @ text_of b 0)"

text \<open>What the parser can build: words, fewer than \<open>MAXARGS\<close> arguments, the two kinds of
  redirection.\<close>

definition is_word :: "u8 list \<Rightarrow> bool" where
  "is_word w \<longleftrightarrow> w \<noteq> [] \<and> list_all wordch w \<and> 0 \<notin> set w"

primrec wf_ast :: "ast \<Rightarrow> bool" where
  "wf_ast (XExec ws) \<longleftrightarrow> list_all is_word ws \<and> length ws < MAXARGS"
| "wf_ast (XRedir a f m fd) \<longleftrightarrow> wf_ast a \<and> is_word f \<and> (m = 0 \<and> fd = 0 \<or> m = O_WRONLY_CREATE \<and> fd = 1)"
| "wf_ast (XPipe a b) \<longleftrightarrow> wf_ast a \<and> wf_ast b"
| "wf_ast (XList a b) \<longleftrightarrow> wf_ast a \<and> wf_ast b"
| "wf_ast (XBack a) \<longleftrightarrow> wf_ast a"

section \<open>Tokens of a text\<close>

lemma peek_char: "\<not> is_ws c \<Longrightarrow> peek (c # s) t \<longleftrightarrow> c \<in> set (bytes t)"
  by (simp add: peek_def skip_def)

lemma skip_char: "\<not> is_ws c \<Longrightarrow> skip (c # s) = c # s"
  by (simp add: skip_def)

lemma skip_SP [simp]: "skip (SP # s) = skip s"
  by (simp add: skip_def is_ws_def whitespace_def)

lemma peek_SP [simp]: "peek (SP # s) t = peek s t"
  by (simp add: peek_def)

lemma sym_not_ws: "c \<in> set symbols \<Longrightarrow> \<not> is_ws c"
  by (auto simp: symbols_set is_ws_def whitespace_def)

lemma gettoken_skip [simp]: "gettoken (skip s) = gettoken s" "gettoken (SP # s) = gettoken s"
  by (simp_all add: gettoken_def)

lemma gettoken_symbol:
  assumes "c \<in> {ch CHR ''|'', ch CHR ''('', ch CHR '')'', ch CHR '';'', ch CHR ''&'', ch CHR ''<''}"
  shows "gettoken (c # s) = (c, c # s, s, skip s)"
proof -
  have "skip (c # s) = c # s" using assms by (intro skip_char sym_not_ws) (auto simp: symbols_set)
  with assms show ?thesis by (simp add: gettoken_def)
qed

lemma gettoken_gt:
  assumes "s \<noteq> []" "hd s \<noteq> ch CHR ''>''"
  shows "gettoken (ch CHR ''>'' # s) = (ch CHR ''>'', ch CHR ''>'' # s, s, skip s)"
proof -
  have "skip (ch CHR ''>'' # s) = ch CHR ''>'' # s" by (intro skip_char sym_not_ws) (simp add: symbols_set)
  with assms show ?thesis by (simp add: gettoken_def)
qed

lemma wordch_not_sym: "wordch c \<Longrightarrow> c \<notin> set symbols"
  by (simp add: wordch_def is_sym_def)

lemma gettoken_word_text:
  assumes w: "is_word w" and e: "e = [] \<or> \<not> wordch (hd e)"
  shows "gettoken (w @ e) = (ch CHR ''a'', w @ e, e, skip e)" "skip (w @ e) = w @ e"
proof -
  obtain c r where c: "w = c # r" "wordch c" using w by (cases w) (auto simp: is_word_def)
  then show s: "skip (w @ e) = w @ e" by (simp add: skip_char wordch_def)
  have "dropWhile (\<lambda>c. \<not> is_ws c \<and> \<not> is_sym c) (w @ e) = dropWhile (\<lambda>c. \<not> is_ws c \<and> \<not> is_sym c) e"
    using w by (intro dropWhile_append2) (auto simp: is_word_def list_all_iff wordch_def)
  also have "\<dots> = e" using e by (cases e) (auto simp: wordch_def)
  finally show "gettoken (w @ e) = (ch CHR ''a'', w @ e, e, skip e)"
    using s c wordch_not_sym [OF c(2)] by (simp add: gettoken_def symbols_set)
qed

lemma peek_word: "is_word w \<Longrightarrow> set (bytes t) \<subseteq> set symbols \<Longrightarrow> \<not> peek (w @ s) t"
  using wordch_not_sym by (cases w) (auto simp: is_word_def peek_char wordch_def)

lemma not_wordch_SP [simp]: "\<not> wordch SP"
  by (simp add: wordch_def is_ws_def whitespace_def)

section \<open>Parsing with enough fuel\<close>

lemma loop_skip [simp]:
  "parseredirs n c (skip s) = parseredirs n c s" "parsebacks n c (skip s) = parsebacks n c s"
  "parseargs n k c (skip s) = parseargs n k c s" "parseblock n (skip s) = parseblock n s"
  by (cases n; simp)+

lemma parseexec_skip [simp]: "parseexec n (skip s) = parseexec n s"
  by (cases n) simp_all

lemma parsepipe_skip [simp]: "parsepipe n (skip s) = parsepipe n s"
  by (cases n) simp_all

lemma parseline_skip [simp]: "parseline n (skip s) = parseline n s"
  by (cases n) simp_all

text \<open>\<open>parses p s a rest\<close>: with enough fuel, \<open>p\<close> reads the command \<open>a\<close> from \<open>s\<close> and stops
  before \<open>rest\<close>.\<close>

definition parses :: "(nat \<Rightarrow> ptr \<Rightarrow> cmd parse option) \<Rightarrow> ptr \<Rightarrow> ast \<Rightarrow> ptr \<Rightarrow> bool" where
  "parses p s a rest \<longleftrightarrow> (\<exists>c. words c = a \<and> (\<forall>\<^sub>F n in sequentially. p n s = Some (Parsed c (skip rest))))"

text \<open>The next token of \<open>rest\<close> is one of \<open>t\<close>, if there is any.\<close>

definition stops :: "ptr \<Rightarrow> string \<Rightarrow> bool" where
  "stops rest t \<longleftrightarrow> skip rest = [] \<or> peek rest t"

lemma stops_peek:
  assumes "stops rest t" "set (bytes u) \<inter> set (bytes t) = {}"
  shows "\<not> peek rest u"
  using assms by (auto simp: stops_def peek_def)

lemma stops_mono: "stops rest t \<Longrightarrow> set (bytes t) \<subseteq> set (bytes u) \<Longrightarrow> stops rest u"
  by (auto simp: stops_def peek_def)

lemma stops_char: "\<not> is_ws c \<Longrightarrow> c \<in> set (bytes t) \<Longrightarrow> stops (c # s) t"
  by (simp add: stops_def peek_char)

lemma pbind_Parsed [simp]: "pbind (Some (Parsed a s)) f = f a s"
  by (simp add: pbind_def)

lemma eventually_Suc_fuel: "(\<forall>\<^sub>F n in sequentially. P (Suc n)) \<Longrightarrow> (\<forall>\<^sub>F n in sequentially. P n)"
  by (simp add: eventually_sequentially_Suc)

lemma parsesI:
  assumes "\<forall>\<^sub>F n in sequentially. p (Suc n) s = Some (Parsed c (skip rest))" "words c = a"
  shows "parses p s a rest"
  using eventually_Suc_fuel [OF assms(1)] assms(2) by (auto simp: parses_def)

lemma loop_stops:
  "\<not> peek s ''<>'' \<Longrightarrow> \<forall>\<^sub>F n in sequentially. parseredirs n c s = Some (Parsed c (skip s))"
  "\<not> peek s ''&'' \<Longrightarrow> \<forall>\<^sub>F n in sequentially. parsebacks n c s = Some (Parsed c (skip s))"
  "stops s ''|)&;'' \<Longrightarrow> \<forall>\<^sub>F n in sequentially. parseargs n k c s = Some (Parsed c (skip s))"
proof -
  show "\<not> peek s ''<>'' \<Longrightarrow> \<forall>\<^sub>F n in sequentially. parseredirs n c s = Some (Parsed c (skip s))"
    "\<not> peek s ''&'' \<Longrightarrow> \<forall>\<^sub>F n in sequentially. parsebacks n c s = Some (Parsed c (skip s))"
    by (rule eventually_Suc_fuel, simp)+
  assume "stops s ''|)&;''"
  moreover have "gettoken s = (0, [], [], [])" if "skip s = []" using that by (simp add: gettoken_def)
  ultimately have "parseargs (Suc n) k c s = Some (Parsed c (skip s))" for n
    by (auto simp: stops_def)
  then show "\<forall>\<^sub>F n in sequentially. parseargs n k c s = Some (Parsed c (skip s))"
    by (intro eventually_Suc_fuel [OF always_eventually]) simp
qed

text \<open>Redirections.\<close>

type_synonym redir = "u8 list \<times> u32 \<times> nat"

definition redir_ok :: "redir \<Rightarrow> bool" where
  "redir_ok = (\<lambda>(f, m, fd). is_word f \<and> (m = 0 \<and> fd = 0 \<or> m = O_WRONLY_CREATE \<and> fd = 1))"

definition redirs_text :: "redir list \<Rightarrow> u8 list" where
  "redirs_text rs = concat (map (\<lambda>(f, m, fd). redir_text f m) rs)"

definition wrap :: "redir list \<Rightarrow> ast \<Rightarrow> ast" where
  "wrap rs a = fold (\<lambda>(f, m, fd) a. XRedir a f m fd) rs a"

lemma parses_redirs:
  assumes "list_all redir_ok rs" "\<not> peek rest ''<>''"
  shows "\<exists>d. words d = wrap rs (words c) \<and>
    (\<forall>\<^sub>F n in sequentially. parseredirs n c (redirs_text rs @ rest) = Some (Parsed d (skip rest)))"
  using assms(1)
proof (induction rs arbitrary: c)
  case Nil
  show ?case using loop_stops(1) [OF assms(2), of c] by (auto simp: redirs_text_def wrap_def)
next
  case (Cons r rs)
  obtain f m fd where r: "r = (f, m, fd)" by (cases r)
  let ?op = "if m = 0 then ch CHR ''<'' else ch CHR ''>''" and ?s = "redirs_text rs @ rest"
  have f: "is_word f" "m = 0 \<and> fd = 0 \<or> m = O_WRONLY_CREATE \<and> fd = 1" using Cons.prems r by (auto simp: redir_ok_def)
  let ?d = "redircmd ?op c (f @ SP # ?s) (SP # ?s)"
  obtain d where d: "words d = wrap rs (words ?d)"
      "\<forall>\<^sub>F n in sequentially. parseredirs n ?d ?s = Some (Parsed d (skip rest))"
    using Cons by auto
  have w: "gettoken (f @ SP # ?s) = (ch CHR ''a'', f @ SP # ?s, SP # ?s, skip ?s)" "skip (f @ SP # ?s) = f @ SP # ?s"
    using gettoken_word_text [OF f(1), of "SP # ?s"] by simp_all
  have hd: "f @ SP # ?s \<noteq> []" "hd (f @ SP # ?s) \<noteq> ch CHR ''>''"
    using f(1) wordch_not_sym by (cases f; auto simp: is_word_def symbols_set)+
  have g: "gettoken (?op # f @ SP # ?s) = (?op, ?op # f @ SP # ?s, f @ SP # ?s, f @ SP # ?s)"
    using gettoken_symbol [of "ch CHR ''<''" "f @ SP # ?s"] gettoken_gt [OF hd] w(2) by simp
  have p: "peek (?op # f @ SP # ?s) ''<>''"
    by (subst peek_char) (auto simp: bytes_def intro!: sym_not_ws simp: symbols_set)
  have "\<forall>\<^sub>F n in sequentially. parseredirs n c (?op # f @ SP # ?s) = Some (Parsed d (skip rest))"
    by (rule eventually_Suc_fuel) (use d(2) p g w(1) in simp)
  moreover have "words ?d = XRedir (words c) f m fd" using f(2) by (auto simp: redircmd_def)
  ultimately show ?case using d(1) by (auto simp: r redirs_text_def redir_text_def wrap_def)
qed

text \<open>Arguments, then redirections.\<close>

abbreviation words_text :: "u8 list list \<Rightarrow> u8 list" where
  "words_text ws \<equiv> concat (map (\<lambda>w. w @ [SP]) ws)"

lemma parses_args:
  assumes "list_all redir_ok rs" "stops rest ''|)&;''" "list_all is_word ws" "ws \<noteq> []" "k + length ws < MAXARGS"
  shows "\<exists>d. words d = wrap rs (XExec (map (\<lambda>(q, e). take (length q - length e) q) as @ ws)) \<and>
    (\<forall>\<^sub>F n in sequentially. parseargs n k (EXEC as) (words_text ws @ redirs_text rs @ rest) = Some (Parsed d (skip rest)))"
  using assms(3-5)
proof (induction ws arbitrary: k as)
  case (Cons w ws)
  let ?s = "words_text ws @ redirs_text rs @ rest"
  let ?c = "EXEC (as @ [(w @ SP # ?s, SP # ?s)])"
  have w: "is_word w" using Cons.prems by simp
  note g = gettoken_word_text(1) [OF w, of "SP # ?s"]
  have np: "\<not> peek (w @ SP # ?s) ''|)&;''" by (rule peek_word [OF w]) (auto simp: bytes_def symbols_set)
  have step: "parseargs (Suc n) k (EXEC as) (w @ SP # ?s) = pbind (parseredirs n ?c ?s) (parseargs n (k + 1))" for n
    using g np Cons.prems(3) by simp
  have "\<exists>d. words d = wrap rs (XExec (map (\<lambda>(q, e). take (length q - length e) q) as @ w # ws)) \<and>
    (\<forall>\<^sub>F n in sequentially. pbind (parseredirs n ?c ?s) (parseargs n (k + 1)) = Some (Parsed d (skip rest)))"
  proof (cases "ws = []")
    case True
    have "\<not> peek rest ''<>''" by (rule stops_peek [OF assms(2)]) (simp add: bytes_def)
    from parses_redirs [OF assms(1) this, of ?c] obtain d where d: "words d = wrap rs (words ?c)"
        "\<forall>\<^sub>F n in sequentially. parseredirs n ?c ?s = Some (Parsed d (skip rest))"
      using True by auto
    have "\<forall>\<^sub>F n in sequentially. pbind (parseredirs n ?c ?s) (parseargs n (k + 1)) = Some (Parsed d (skip rest))"
      using d(2) loop_stops(3) [OF assms(2), of "k + 1" d] by eventually_elim simp
    with d(1) True show ?thesis by auto
  next
    case False
    then obtain v vs where v: "ws = v # vs" "is_word v" using Cons.prems by (cases ws) auto
    have "\<not> peek ?s ''<>''" using peek_word [OF v(2), of "''<>''"] by (auto simp: v(1) bytes_def symbols_set)
    note stop = loop_stops(1) [OF this, of ?c]
    obtain d where d: "words d = wrap rs (XExec (map (\<lambda>(q, e). take (length q - length e) q) (as @ [(w @ SP # ?s, SP # ?s)]) @ ws))"
        "\<forall>\<^sub>F n in sequentially. parseargs n (k + 1) ?c ?s = Some (Parsed d (skip rest))"
      using Cons.IH [of "k + 1" "as @ [(w @ SP # ?s, SP # ?s)]"] Cons.prems False by auto
    have "\<forall>\<^sub>F n in sequentially. pbind (parseredirs n ?c ?s) (parseargs n (k + 1)) = Some (Parsed d (skip rest))"
      using stop d(2) by eventually_elim simp
    with d(1) show ?thesis by auto
  qed
  then obtain d where d: "words d = wrap rs (XExec (map (\<lambda>(q, e). take (length q - length e) q) as @ w # ws))"
    "\<forall>\<^sub>F n in sequentially. pbind (parseredirs n ?c ?s) (parseargs n (k + 1)) = Some (Parsed d (skip rest))" by blast
  have "\<forall>\<^sub>F n in sequentially. parseargs n k (EXEC as) (w @ SP # ?s) = Some (Parsed d (skip rest))"
    by (rule eventually_Suc_fuel) (use d(2) in \<open>simp only: step\<close>)
  with d(1) show ?case by auto
qed simp

lemma parses_exec:
  assumes rs: "list_all redir_ok rs" and rest: "stops rest ''|)&;''" and ws: "list_all is_word ws" "length ws < MAXARGS"
  shows "parses parseexec (words_text ws @ redirs_text rs @ rest) (wrap rs (XExec ws)) rest"
proof -
  let ?s = "words_text ws @ redirs_text rs @ rest"
  have "\<not> peek ?s ''('' \<and> (\<exists>d. words d = wrap rs (XExec ws) \<and>
    (\<forall>\<^sub>F n in sequentially. pbind (parseredirs n (EXEC []) ?s) (parseargs n 0) = Some (Parsed d (skip rest))))"
  proof (cases ws)
    case Nil
    have "\<not> peek rest ''<>''" "\<not> peek rest ''(''" by (rule stops_peek [OF rest], simp add: bytes_def)+
    from parses_redirs [OF rs this(1), of "EXEC []"] obtain d where d: "words d = wrap rs (XExec [])"
        "\<forall>\<^sub>F n in sequentially. parseredirs n (EXEC []) ?s = Some (Parsed d (skip rest))"
      using Nil by auto
    have "\<forall>\<^sub>F n in sequentially. pbind (parseredirs n (EXEC []) ?s) (parseargs n 0) = Some (Parsed d (skip rest))"
      using d(2) loop_stops(3) [OF rest, of 0 d] by eventually_elim simp
    moreover have "\<not> peek ?s ''(''"
    proof (cases rs)
      case (Cons r rs')
      have "\<not> is_ws (ch CHR ''<'')" "\<not> is_ws (ch CHR ''>'')" by (rule sym_not_ws, simp add: symbols_set)+
      then show ?thesis using Nil Cons
        by (auto simp: redirs_text_def redir_text_def peek_char bytes_def split: prod.split)
    qed (use Nil \<open>\<not> peek rest ''(''\<close> in \<open>simp add: redirs_text_def\<close>)
    ultimately show ?thesis using d(1) Nil by auto
  next
    case (Cons w ws')
    have w: "is_word w" using ws Cons by simp
    have np: "\<not> peek ?s t" if "set (bytes t) \<subseteq> set symbols" for t
      using peek_word [OF w that] by (simp add: Cons)
    have p: "\<not> peek ?s ''<>''" "\<not> peek ?s ''(''" by (rule np, simp add: bytes_def symbols_set)+
    obtain d where d: "words d = wrap rs (XExec ws)"
        "\<forall>\<^sub>F n in sequentially. parseargs n 0 (EXEC []) ?s = Some (Parsed d (skip rest))"
      using parses_args [OF rs rest ws(1), of 0 "[]"] ws(2) Cons by auto
    have "\<forall>\<^sub>F n in sequentially. pbind (parseredirs n (EXEC []) ?s) (parseargs n 0) = Some (Parsed d (skip rest))"
      using loop_stops(1) [OF p(1), of "EXEC []"] d(2) by eventually_elim simp
    with d(1) p(2) show ?thesis by auto
  qed
  then obtain d where d: "\<not> peek ?s ''(''" "words d = wrap rs (XExec ws)"
    "\<forall>\<^sub>F n in sequentially. pbind (parseredirs n (EXEC []) ?s) (parseargs n 0) = Some (Parsed d (skip rest))" by blast
  have "\<forall>\<^sub>F n in sequentially. parseexec n ?s = Some (Parsed d (skip rest))"
    by (rule eventually_Suc_fuel) (use d(1,3) in simp)
  with d(2) show ?thesis unfolding parses_def by blast
qed

text \<open>A command in parentheses, then redirections.\<close>

lemma parses_block:
  assumes rs: "list_all redir_ok rs" and rest: "\<not> peek rest ''<>''"
    and a: "parses parseline (t @ ch CHR '')'' # redirs_text rs @ rest) a (ch CHR '')'' # redirs_text rs @ rest)"
  shows "parses parseexec (ch CHR ''('' # t @ ch CHR '')'' # redirs_text rs @ rest) (wrap rs a) rest"
proof -
  let ?r = "redirs_text rs @ rest"
  obtain c where c: "words c = a"
      "\<forall>\<^sub>F n in sequentially. parseline n (t @ ch CHR '')'' # ?r) = Some (Parsed c (skip (ch CHR '')'' # ?r)))"
    using a by (auto simp: parses_def)
  obtain d where d: "words d = wrap rs a" "\<forall>\<^sub>F n in sequentially. parseredirs n c ?r = Some (Parsed d (skip rest))"
    using parses_redirs [OF rs rest, of c] c(1) by auto
  have ws: "\<not> is_ws (ch CHR ''('')" "\<not> is_ws (ch CHR '')'')" by (rule sym_not_ws, simp add: symbols_set)+
  then have p: "peek (ch CHR ''('' # s) ''(''" "peek (ch CHR '')'' # s) '')''"
      "skip (ch CHR '')'' # s) = ch CHR '')'' # s" "skip (ch CHR ''('' # s) = ch CHR ''('' # s" for s
    by (simp_all add: peek_char skip_char bytes_def)
  have g: "gettoken (ch CHR ''('' # s) = (ch CHR ''('', ch CHR ''('' # s, s, skip s)"
      "gettoken (ch CHR '')'' # s) = (ch CHR '')'', ch CHR '')'' # s, s, skip s)" for s
    by (rule gettoken_symbol, simp)+
  have "\<forall>\<^sub>F n in sequentially. parseblock n (ch CHR ''('' # t @ ch CHR '')'' # ?r) = Some (Parsed d (skip rest))"
    by (rule eventually_Suc_fuel) (use c(2) d(2) in \<open>eventually_elim, simp add: p [simplified] g [simplified] Let_def\<close>)
  then have "\<forall>\<^sub>F n in sequentially. parseexec n (ch CHR ''('' # t @ ch CHR '')'' # ?r) = Some (Parsed d (skip rest))"
    by (intro eventually_Suc_fuel [where P = "\<lambda>n. parseexec n _ = _"]) (simp add: p [simplified])
  with d(1) show ?thesis by (auto simp: parses_def)
qed

section \<open>The levels of the grammar\<close>

definition reads_exec :: "ast \<Rightarrow> bool" where
  "reads_exec a \<longleftrightarrow> (\<forall>rest. stops rest ''|)&;'' \<longrightarrow> parses parseexec (text_of a 3 @ rest) a rest)"

definition reads_pipe :: "ast \<Rightarrow> bool" where
  "reads_pipe a \<longleftrightarrow> (\<forall>rest. stops rest '')&;'' \<longrightarrow> parses parsepipe (text_of a 2 @ rest) a rest)"

text \<open>After the left side of \<open>&\<close>, the loop over \<open>&\<close> goes on.\<close>

definition reads_back :: "ast \<Rightarrow> bool" where
  "reads_back a \<longleftrightarrow> (\<forall>rest. stops rest '')&;'' \<longrightarrow> (\<exists>c. words c = a \<and>
     (\<forall>r. (\<forall>\<^sub>F n in sequentially. parsebacks n c rest = Some r) \<longrightarrow>
        (\<forall>\<^sub>F n in sequentially. pbind (parsepipe n (text_of a 1 @ rest)) (parsebacks n) = Some r))))"

definition reads_line :: "ast \<Rightarrow> bool" where
  "reads_line a \<longleftrightarrow> (\<forall>rest. stops rest '')'' \<longrightarrow> parses parseline (text_of a 0 @ rest) a rest)"

lemma reads_backD:
  "reads_back a \<Longrightarrow> stops rest '')&;'' \<Longrightarrow> \<exists>c. words c = a \<and>
     (\<forall>r. (\<forall>\<^sub>F n in sequentially. parsebacks n c rest = Some r) \<longrightarrow>
        (\<forall>\<^sub>F n in sequentially. pbind (parsepipe n (text_of a 1 @ rest)) (parsebacks n) = Some r))"
  by (simp add: reads_back_def)

lemma sym_simps:
  "\<not> is_ws 124" "\<not> is_ws 38" "\<not> is_ws 59" "\<not> is_ws 41" "\<not> is_ws 40"
  by (simp_all add: is_ws_def whitespace_def)

lemma tok_simps:
  "gettoken (124 # s) = (124, 124 # s, s, skip s)" "gettoken (38 # s) = (38, 38 # s, s, skip s)"
  "gettoken (59 # s) = (59, 59 # s, s, skip s)"
  using gettoken_symbol [of 124 s] gettoken_symbol [of 38 s] gettoken_symbol [of 59 s] by simp_all

lemma exec_pipe:
  assumes "text_of a 2 = text_of a 3" "reads_exec a"
  shows "reads_pipe a"
  unfolding reads_pipe_def
proof (intro allI impI)
  fix rest
  assume rest: "stops rest '')&;''"
  then have "stops rest ''|)&;''" by (rule stops_mono) (auto simp: bytes_def)
  then obtain c where c: "words c = a"
      "\<forall>\<^sub>F n in sequentially. parseexec n (text_of a 2 @ rest) = Some (Parsed c (skip rest))"
    using assms by (auto simp: reads_exec_def parses_def)
  have "\<not> peek rest ''|''" by (rule stops_peek [OF rest]) (simp add: bytes_def)
  then have "\<forall>\<^sub>F n in sequentially. parsepipe (Suc n) (text_of a 2 @ rest) = Some (Parsed c (skip rest))"
    using c(2) by (auto elim: eventually_mono)
  with c(1) show "parses parsepipe (text_of a 2 @ rest) a rest"
    by (intro parsesI)
qed

lemma pipe_back:
  assumes "text_of a 1 = text_of a 2" "reads_pipe a"
  shows "reads_back a"
  unfolding reads_back_def
proof (intro allI impI)
  fix rest
  assume rest: "stops rest '')&;''"
  then obtain c where c: "words c = a"
      "\<forall>\<^sub>F n in sequentially. parsepipe n (text_of a 1 @ rest) = Some (Parsed c (skip rest))"
    using assms by (auto simp: reads_pipe_def parses_def)
  have "\<forall>\<^sub>F n in sequentially. pbind (parsepipe n (text_of a 1 @ rest)) (parsebacks n) = Some r"
    if "\<forall>\<^sub>F n in sequentially. parsebacks n c rest = Some r" for r
    using c(2) that by eventually_elim simp
  with c(1) show "\<exists>c. words c = a \<and> (\<forall>r. (\<forall>\<^sub>F n in sequentially. parsebacks n c rest = Some r) \<longrightarrow>
      (\<forall>\<^sub>F n in sequentially. pbind (parsepipe n (text_of a 1 @ rest)) (parsebacks n) = Some r))" by blast
qed

lemma parseline_lists:
  "parseline (Suc n) s = pbind (pbind (parsepipe n s) (parsebacks n)) (\<lambda>c s.
     if peek s '';'' then
       let (_, _, _, s) = gettoken s in
       pbind (parseline n s) (\<lambda>r s. Some (Parsed (LIST c r) s))
     else Some (Parsed c (skip s)))"
  by (simp add: pbind_def split: option.splits parse.splits)

lemma back_line:
  assumes "text_of a 0 = text_of a 1" "reads_back a"
  shows "reads_line a"
  unfolding reads_line_def
proof (intro allI impI)
  fix rest
  assume rest: "stops rest '')''"
  then have "stops rest '')&;''" by (rule stops_mono) (auto simp: bytes_def)
  from reads_backD [OF assms(2) this] obtain c where c: "words c = a"
      "\<And>r. (\<forall>\<^sub>F n in sequentially. parsebacks n c rest = Some r) \<Longrightarrow>
        (\<forall>\<^sub>F n in sequentially. pbind (parsepipe n (text_of a 0 @ rest)) (parsebacks n) = Some r)"
    unfolding assms(1) by blast
  have np: "\<not> peek rest ''&''" "\<not> peek rest '';''" by (rule stops_peek [OF rest], simp add: bytes_def)+
  have "\<forall>\<^sub>F n in sequentially. parseline (Suc n) (text_of a 0 @ rest) = Some (Parsed c (skip rest))"
    using c(2) [OF loop_stops(2) [OF np(1)]] by eventually_elim (simp only: parseline_lists, simp add: np)
  with c(1) show "parses parseline (text_of a 0 @ rest) a rest"
    by (intro parsesI)
qed

lemma line_exec:
  assumes "text_of a 3 = paren True (text_of a 0)" "reads_line a"
  shows "reads_exec a"
  unfolding reads_exec_def
proof (intro allI impI)
  fix rest
  assume "stops rest ''|)&;''"
  then have "\<not> peek rest ''<>''" by (rule stops_peek) (simp add: bytes_def)
  moreover have "stops (ch CHR '')'' # rest) '')''" by (simp add: stops_char sym_simps bytes_def)
  ultimately show "parses parseexec (text_of a 3 @ rest) a rest"
    using parses_block [of "[]" rest "text_of a 0" a] assms
    by (simp add: reads_line_def redirs_text_def wrap_def paren_def)
qed

lemma reads_XPipe:
  assumes "reads_exec a" "reads_pipe b"
  shows "reads_pipe (XPipe a b)"
  unfolding reads_pipe_def
proof (intro allI impI)
  fix rest
  assume rest: "stops rest '')&;''"
  let ?t = "text_of b 2 @ rest"
  have "stops (124 # ?t) ''|)&;''" by (simp add: stops_char sym_simps bytes_def)
  then obtain c where c: "words c = a"
      "\<forall>\<^sub>F n in sequentially. parseexec n (text_of a 3 @ 124 # ?t) = Some (Parsed c (skip (124 # ?t)))"
    using assms(1) by (auto simp: reads_exec_def parses_def)
  obtain d where d: "words d = b" "\<forall>\<^sub>F n in sequentially. parsepipe n ?t = Some (Parsed d (skip rest))"
    using assms(2) rest by (auto simp: reads_pipe_def parses_def)
  have "\<forall>\<^sub>F n in sequentially. parsepipe (Suc n) (text_of a 3 @ 124 # ?t) = Some (Parsed (PIPE c d) (skip rest))"
    using c(2) d(2) by eventually_elim (simp add: peek_char skip_char sym_simps tok_simps bytes_def)
  moreover have "words (PIPE c d) = XPipe a b" using c(1) d(1) by simp
  ultimately show "parses parsepipe (text_of (XPipe a b) 2 @ rest) (XPipe a b) rest"
    by (intro parsesI [where c = "PIPE c d"]) (simp_all add: paren_def)
qed

lemma reads_XBack:
  assumes "reads_back a"
  shows "reads_back (XBack a)"
  unfolding reads_back_def
proof (intro allI impI)
  fix rest
  assume rest: "stops rest '')&;''"
  have "stops (38 # rest) '')&;''" by (simp add: stops_char sym_simps bytes_def)
  from reads_backD [OF assms this] obtain c where c: "words c = a"
      "\<And>r. (\<forall>\<^sub>F n in sequentially. parsebacks n c (38 # rest) = Some r) \<Longrightarrow>
        (\<forall>\<^sub>F n in sequentially. pbind (parsepipe n (text_of a 1 @ 38 # rest)) (parsebacks n) = Some r)"
    by blast
  have "\<forall>\<^sub>F n in sequentially. parsebacks n c (38 # rest) = Some r"
    if "\<forall>\<^sub>F n in sequentially. parsebacks n (BACK c) rest = Some r" for r
  proof -
    have "\<forall>\<^sub>F n in sequentially. parsebacks (Suc n) c (38 # rest) = Some r"
      using that by eventually_elim (simp add: peek_char sym_simps tok_simps bytes_def)
    then show ?thesis by (rule eventually_Suc_fuel)
  qed
  with c(2) have "(\<forall>\<^sub>F n in sequentially. parsebacks n (BACK c) rest = Some r) \<Longrightarrow>
      (\<forall>\<^sub>F n in sequentially. pbind (parsepipe n (text_of (XBack a) 1 @ rest)) (parsebacks n) = Some r)" for r
    by (simp add: paren_def)
  moreover have "words (BACK c) = XBack a" using c(1) by simp
  ultimately show "\<exists>c. words c = XBack a \<and> (\<forall>r. (\<forall>\<^sub>F n in sequentially. parsebacks n c rest = Some r) \<longrightarrow>
      (\<forall>\<^sub>F n in sequentially. pbind (parsepipe n (text_of (XBack a) 1 @ rest)) (parsebacks n) = Some r))" by blast
qed

lemma reads_XList:
  assumes "reads_back a" "reads_line b"
  shows "reads_line (XList a b)"
  unfolding reads_line_def
proof (intro allI impI)
  fix rest
  assume rest: "stops rest '')''"
  let ?t = "text_of b 0 @ rest"
  have "stops (59 # ?t) '')&;''" by (simp add: stops_char sym_simps bytes_def)
  from reads_backD [OF assms(1) this] obtain c where c: "words c = a"
      "\<And>r. (\<forall>\<^sub>F n in sequentially. parsebacks n c (59 # ?t) = Some r) \<Longrightarrow>
        (\<forall>\<^sub>F n in sequentially. pbind (parsepipe n (text_of a 1 @ 59 # ?t)) (parsebacks n) = Some r)"
    by blast
  obtain d where d: "words d = b" "\<forall>\<^sub>F n in sequentially. parseline n ?t = Some (Parsed d (skip rest))"
    using assms(2) rest by (auto simp: reads_line_def parses_def)
  have "\<not> peek (59 # ?t) ''&''" by (simp add: peek_char sym_simps bytes_def)
  from c(2) [OF loop_stops(2) [OF this]] d(2)
  have "\<forall>\<^sub>F n in sequentially. parseline (Suc n) (text_of a 1 @ 59 # ?t) = Some (Parsed (LIST c d) (skip rest))"
    by eventually_elim (simp only: parseline_lists, simp add: peek_char skip_char sym_simps tok_simps bytes_def)
  moreover have "words (LIST c d) = XList a b" using c(1) d(1) by simp
  ultimately show "parses parseline (text_of (XList a b) 0 @ rest) (XList a b) rest"
    by (intro parsesI [where c = "LIST c d"]) (simp_all add: paren_def)
qed

text \<open>The redirections around a command.\<close>

primrec base_of :: "ast \<Rightarrow> ast" where
  "base_of (XRedir a f m fd) = base_of a"
| "base_of (XExec ws) = XExec ws"
| "base_of (XPipe a b) = XPipe a b"
| "base_of (XList a b) = XList a b"
| "base_of (XBack a) = XBack a"

primrec redirs_of :: "ast \<Rightarrow> redir list" where
  "redirs_of (XRedir a f m fd) = redirs_of a @ [(f, m, fd)]"
| "redirs_of (XExec ws) = []"
| "redirs_of (XPipe a b) = []"
| "redirs_of (XList a b) = []"
| "redirs_of (XBack a) = []"

lemma spine:
  "wrap (redirs_of a) (base_of a) = a" "text_of a 3 = text_of (base_of a) 3 @ redirs_text (redirs_of a)"
  "wf_ast a \<Longrightarrow> wf_ast (base_of a) \<and> list_all redir_ok (redirs_of a)" "size (base_of a) \<le> size a"
  by (induction a) (auto simp: wrap_def redirs_text_def redir_ok_def)

lemma reads_XRedir:
  assumes wf: "wf_ast (XRedir a f m fd)" and IH: "\<And>b. size b < size (XRedir a f m fd) \<Longrightarrow> wf_ast b \<Longrightarrow> reads_line b"
  shows "reads_exec (XRedir a f m fd)"
  unfolding reads_exec_def
proof (intro allI impI)
  fix rest
  assume rest: "stops rest ''|)&;''"
  let ?a = "XRedir a f m fd" let ?rs = "redirs_of ?a" and ?b = "base_of a"
  have b: "wf_ast ?b" "list_all redir_ok ?rs" "base_of ?a = ?b" using spine(3) [OF wf] by simp_all
  have tx: "text_of ?a 3 = text_of ?b 3 @ redirs_text ?rs" "wrap ?rs ?b = ?a"
    using spine(1,2) [of ?a] by (simp_all only: base_of.simps)
  have np: "\<not> peek rest ''<>''" by (rule stops_peek [OF rest]) (simp add: bytes_def)
  have block: "parses parseexec (text_of ?a 3 @ rest) ?a rest" if p: "text_of ?b 3 = paren True (text_of ?b 0)"
  proof -
    have "reads_line ?b" using IH [of ?b] b(1) spine(4) [of a] by simp
    moreover have "stops (ch CHR '')'' # s) '')''" for s by (simp add: stops_char sym_simps bytes_def)
    ultimately have "parses parseline (text_of ?b 0 @ ch CHR '')'' # redirs_text ?rs @ rest) ?b (ch CHR '')'' # redirs_text ?rs @ rest)"
      by (simp only: reads_line_def)
    from parses_block [OF b(2) np this] show ?thesis
      unfolding tx p paren_def by simp
  qed
  show "parses parseexec (text_of ?a 3 @ rest) ?a rest"
  proof (cases ?b)
    case (XExec ws)
    have "parses parseexec (words_text ws @ redirs_text ?rs @ rest) (wrap ?rs (XExec ws)) rest"
      by (rule parses_exec [OF b(2) rest]) (use b(1) XExec in simp_all)
    moreover have "text_of ?a 3 = words_text ws @ redirs_text ?rs" unfolding tx(1) by (simp add: XExec)
    ultimately show ?thesis using tx(2) XExec by (simp only: append_assoc)
  next
    case (XRedir c g k h)
    have "base_of x \<noteq> XRedir c g k h" for x by (induction x) simp_all
    with XRedir show ?thesis by blast
  qed (rule block, simp add: paren_def)+
qed

text \<open>Every command is read back at every level.\<close>

lemma reads_all: "wf_ast a \<Longrightarrow> reads_exec a \<and> reads_pipe a \<and> reads_back a \<and> reads_line a"
proof (induction a rule: measure_induct_rule [of size])
  case (less a)
  show ?case
  proof (cases a)
    case (XExec ws)
    have "reads_exec a"
      unfolding reads_exec_def using parses_exec [of "[]" _ ws] less.prems XExec
      by (simp add: redirs_text_def wrap_def)
    then show ?thesis using exec_pipe [of a] pipe_back [of a] back_line [of a] XExec by simp
  next
    case (XRedir b f m fd)
    have "reads_exec a" using reads_XRedir [of b f m fd] less XRedir by blast
    then show ?thesis using exec_pipe [of a] pipe_back [of a] back_line [of a] XRedir by simp
  next
    case (XPipe b c)
    have "reads_pipe a" using reads_XPipe [of b c] less.IH [of b] less.IH [of c] less.prems XPipe by simp
    then show ?thesis using pipe_back [of a] back_line [of a] line_exec [of a] XPipe by (simp add: paren_def)
  next
    case (XList b c)
    have "reads_line a" using reads_XList [of b c] less.IH [of b] less.IH [of c] less.prems XList by simp
    then show ?thesis using line_exec [of a] exec_pipe [of a] pipe_back [of a] XList by (simp add: paren_def)
  next
    case (XBack b)
    have "reads_back a" using reads_XBack [of b] less.IH [of b] less.prems XBack by simp
    then show ?thesis using back_line [of a] line_exec [of a] exec_pipe [of a] XBack by (simp add: paren_def)
  qed
qed

section \<open>More fuel changes nothing\<close>

definition fuel_le :: "'a option \<Rightarrow> 'a option \<Rightarrow> bool" where
  "fuel_le r r' \<longleftrightarrow> r = None \<or> r' = r"

lemma fuel_le_refl [simp]: "fuel_le r r" "fuel_le None r"
  by (simp_all add: fuel_le_def)

lemma fuel_le_pbind:
  assumes "fuel_le r r'" "\<And>a s. fuel_le (f a s) (f' a s)"
  shows "fuel_le (pbind r f) (pbind r' f')"
  using assms by (auto simp: fuel_le_def pbind_def split: option.splits parse.splits)

lemma loops_fuel:
  "fuel_le (parseredirs n c s) (parseredirs (Suc n) c s)"
  "fuel_le (parsebacks n c s) (parsebacks (Suc n) c s)"
proof -
  show "fuel_le (parseredirs n c s) (parseredirs (Suc n) c s)"
  proof (induction n arbitrary: c s)
    case (Suc n)
    then show ?case by (subst (1 2) parseredirs.simps) (simp add: Let_def split_def del: parseredirs.simps)
  qed simp
  show "fuel_le (parsebacks n c s) (parsebacks (Suc n) c s)"
  proof (induction n arbitrary: c s)
    case (Suc n)
    then show ?case by (subst (1 2) parsebacks.simps) (simp add: Let_def split_def del: parsebacks.simps)
  qed simp
qed

lemma parseargs_fuel: "fuel_le (parseargs n k c s) (parseargs (Suc n) k c s)"
proof (induction n arbitrary: k c s)
  case (Suc n)
  then show ?case
    by (subst (1 2) parseargs.simps)
      (simp add: Let_def split_def fuel_le_pbind [OF loops_fuel(1)] del: parseargs.simps parseredirs.simps)
qed simp

lemma parsers_fuel:
  "fuel_le (parseline n s) (parseline (Suc n) s) \<and> fuel_le (parsepipe n s) (parsepipe (Suc n) s) \<and>
   fuel_le (parseexec n s) (parseexec (Suc n) s) \<and> fuel_le (parseblock n s) (parseblock (Suc n) s)"
proof (induction n arbitrary: s)
  case (Suc n)
  have line: "fuel_le (parseline n s) (parseline (Suc n) s)" and pipe: "fuel_le (parsepipe n s) (parsepipe (Suc n) s)"
    and exec: "fuel_le (parseexec n s) (parseexec (Suc n) s)" and block: "fuel_le (parseblock n s) (parseblock (Suc n) s)" for s
    using Suc.IH by blast+
  show ?case
  proof (intro conjI)
    show "fuel_le (parseline (Suc n) s) (parseline (Suc (Suc n)) s)"
      by (subst (1 2) parseline.simps)
        (intro fuel_le_pbind pipe loops_fuel, simp add: Let_def split_def fuel_le_pbind [OF line] del: parseline.simps)
    show "fuel_le (parsepipe (Suc n) s) (parsepipe (Suc (Suc n)) s)"
      by (subst (1 2) parsepipe.simps)
        (intro fuel_le_pbind exec, simp add: Let_def split_def fuel_le_pbind [OF pipe] del: parsepipe.simps)
    show "fuel_le (parseexec (Suc n) s) (parseexec (Suc (Suc n)) s)"
      by (subst (1 2) parseexec.simps)
        (simp add: block fuel_le_pbind [OF loops_fuel(1)] parseargs_fuel del: parseblock.simps parseredirs.simps parseargs.simps)
    show "fuel_le (parseblock (Suc n) s) (parseblock (Suc (Suc n)) s)"
      by (subst (1 2) parseblock.simps)
        (simp add: Let_def split_def fuel_le_pbind [OF line] loops_fuel(1) del: parseline.simps parseredirs.simps)
  qed
qed simp

lemma parseline_more: "parseline n s = Some r \<Longrightarrow> parseline (n + k) s = Some r"
proof (induction k)
  case (Suc k)
  then show ?case using parsers_fuel [of "n + k" s] unfolding fuel_le_def by (metis add_Suc_right option.distinct(1))
qed simp

section \<open>Round trip\<close>

text \<open>The command that the child process runs: the strings are read from the buffer.\<close>

primrec command_in :: "u8 list \<Rightarrow> cmd \<Rightarrow> ast" where
  "command_in buf (EXEC as) = XExec (map (\<lambda>(q, e). string_at buf q) as)"
| "command_in buf (REDIR c q e m fd) = XRedir (command_in buf c) (string_at buf q) m fd"
| "command_in buf (PIPE c d) = XPipe (command_in buf c) (command_in buf d)"
| "command_in buf (LIST c d) = XList (command_in buf c) (command_in buf d)"
| "command_in buf (BACK c) = XBack (command_in buf c)"

lemma command_in_words:
  "(\<And>q e. (q, e) \<in> set (toks c) \<Longrightarrow> string_at buf q = take (length q - length e) q) \<Longrightarrow> command_in buf c = words c"
  by (induction c) auto

lemma text_no_nul: "wf_ast a \<Longrightarrow> 0 \<notin> set (text_of a p)"
  by (induction a arbitrary: p) (auto simp: is_word_def list_all_iff redir_text_def paren_def)

text \<open>C11: The parser of the shell reads back every command. Written out with the operators
  \<open>|\<close>, \<open>;\<close>, \<open>&\<close>, \<open><\<close>, \<open>>\<close> and with parentheses where the grammar needs them, a command with
  fewer than \<open>MAXARGS\<close> arguments is parsed without error to a tree whose strings, as \<open>exec\<close>
  and \<open>open\<close> find them in the buffer, are those of the command.\<close>

theorem parsecmd_round_trip:
  assumes wf: "wf_ast a"
  shows "\<exists>c buf. parsecmd (text_of a 0) = Some (Parsed (c, buf) []) \<and> command_in buf c = a"
proof -
  let ?s = "text_of a 0"
  have "stops [] '')''" by (simp add: stops_def)
  then have "parses parseline (?s @ []) a []" using reads_all [OF wf] unfolding reads_line_def by blast
  then obtain c N where c: "words c = a" "parseline n ?s = Some (Parsed c [])" if "N \<le> n" for n
    unfolding parses_def eventually_sequentially by auto
  let ?F = "4 * length ?s + 4"
  obtain r where r: "parseline ?F ?s = Some r"
    using parsers_return [of ?s ?F] by (cases "parseline ?F ?s") (auto simp: returns_def)
  have "r = Parsed c []" using parseline_more [OF r, of N] c(2) [of "?F + N"] by simp
  with r have top: "parsetop ?s = Some (Parsed c [])" by (simp add: parsetop_def)
  then have run: "parsecmd ?s = Some (Parsed (c, nulterminate c (?s @ [0])) [])" by (simp add: parsecmd_def)
  have "list_all (word_at ?s) (toks c)" using parsetop_sound [of ?s] top by simp
  then have "command_in (nulterminate c (?s @ [0])) c = words c"
    using string_at_word [of ?s "toks c", OF _ _ text_no_nul [OF wf]]
    by (intro command_in_words) (simp add: nulterminate_toks)
  with run c(1) show ?thesis by blast
qed

theorem parsecmd_round_trip_witness:
  "\<exists>c buf. parsecmd (bytes ''cat <a |(ls ;wc )&'') = Some (Parsed (c, buf) []) \<and>
     command_in buf c = XBack (XPipe (XRedir (XExec [bytes ''cat'']) (bytes ''a'') 0 0)
       (XList (XExec [bytes ''ls'']) (XExec [bytes ''wc''])))"
proof -
  let ?a = "XBack (XPipe (XRedir (XExec [bytes ''cat'']) (bytes ''a'') 0 0)
    (XList (XExec [bytes ''ls'']) (XExec [bytes ''wc''])))"
  have t: "text_of ?a 0 = bytes ''cat <a |(ls ;wc )&''" by (simp add: bytes_def redir_text_def paren_def)
  have "wf_ast ?a"
    by (simp add: is_word_def wordch_def is_ws_def is_sym_def whitespace_def symbols_set bytes_def)
  from parsecmd_round_trip [OF this] show ?thesis unfolding t .
qed

end
