(* ===== verification/Sh_Run.thy ===== *)
theory Sh_Run
  imports Sh_Syntax
begin

text \<open>
  How the shell runs a command (\<open>runcmd\<close> of \<open>sh.c\<close>). The function is modelled as the
  tree of the system calls it makes; a call with several outcomes has one subtree for
  each. A run of the tree keeps the descriptor table of each process: a call that needs
  a descriptor gets the lowest free one, as \<open>fdalloc\<close> of the kernel does.
\<close>

section \<open>The system calls of a command\<close>

datatype act =
    Exit
  | Print "u8 list" act
  | Exec "u8 list list" act
  | Close nat act
  | Open "u8 list" u32 act act
  | Dup nat act
  | Pipe "nat \<Rightarrow> nat \<Rightarrow> act" act
  | Fork act act act
  | Wait act

text \<open>\<open>panic\<close> of the shell, and \<open>fork1\<close>, with the child's and the parent's way on.\<close>

definition sh_panic :: "string \<Rightarrow> act" where
  "sh_panic e = Print (bytes e @ [10]) Exit"

definition fork1 :: "act \<Rightarrow> act \<Rightarrow> act" where
  "fork1 child parent = Fork child parent (sh_panic ''fork'')"

primrec runcmd :: "ast \<Rightarrow> act" where
  "runcmd (XExec ws) =
     (if ws = [] then Exit
      else Exec ws (Print (bytes ''exec '' @ hd ws @ bytes '' failed'' @ [10]) Exit))"
| "runcmd (XRedir a f m fd) =
     Close fd (Open f m (Print (bytes ''open '' @ f @ bytes '' failed'' @ [10]) Exit) (runcmd a))"
| "runcmd (XList a b) = fork1 (runcmd a) (Wait (runcmd b))"
| "runcmd (XPipe a b) =
     Pipe (\<lambda>p0 p1.
       fork1 (Close 1 (Dup p1 (Close p0 (Close p1 (runcmd a)))))
      (fork1 (Close 0 (Dup p0 (Close p0 (Close p1 (runcmd b)))))
      (Close p0 (Close p1 (Wait (Wait Exit))))))
     (sh_panic ''pipe'')"
| "runcmd (XBack a) = fork1 (runcmd a) Exit"

section \<open>Descriptors\<close>

datatype stream = Console | File "u8 list" u32 | PipeRead nat | PipeWrite nat

type_synonym fdtable = "nat \<Rightarrow> stream option"

abbreviation NOFILES :: nat where
  "NOFILES \<equiv> 16"

definition lowest :: "fdtable \<Rightarrow> nat option" where
  "lowest T = find (\<lambda>i. T i = None) [0..<NOFILES]"

text \<open>The programs that are executed, each with its descriptor table, when calls fail
  only for lack of descriptors. Pipes are numbered; \<open>n\<close> is the next number.\<close>

primrec run :: "act \<Rightarrow> nat \<Rightarrow> fdtable \<Rightarrow> (u8 list list \<times> fdtable) list \<times> nat" where
  "run Exit n T = ([], n)"
| "run (Print s k) n T = run k n T"
| "run (Exec ws k) n T = ([(ws, T)], n)"
| "run (Close fd k) n T = run k n (T(fd := None))"
| "run (Open f m bad k) n T =
     (case lowest T of None \<Rightarrow> run bad n T | Some fd \<Rightarrow> run k n (T(fd := Some (File f m))))"
| "run (Dup fd k) n T =
     (case lowest T of None \<Rightarrow> run k n T | Some fd' \<Rightarrow> run k n (T(fd' := T fd)))"
| "run (Pipe k bad) n T =
     (case lowest T of None \<Rightarrow> run bad n T
      | Some p0 \<Rightarrow>
          (case lowest (T(p0 := Some (PipeRead n))) of None \<Rightarrow> run bad n T
           | Some p1 \<Rightarrow> run (k p0 p1) (Suc n) (T(p0 := Some (PipeRead n), p1 := Some (PipeWrite n)))))"
| "run (Fork child parent bad) n T =
     (let r = run child n T; r' = run parent (snd r) T in (fst r @ fst r', snd r'))"
| "run (Wait k) n T = run k n T"

section \<open>What a command means\<close>

text \<open>A command with its standard input, output and error streams.\<close>

primrec meaning :: "ast \<Rightarrow> nat \<Rightarrow> stream \<Rightarrow> stream \<Rightarrow> (u8 list list \<times> stream \<times> stream) list \<times> nat" where
  "meaning (XExec ws) n i out = (if ws = [] then [] else [(ws, i, out)], n)"
| "meaning (XRedir a f m fd) n i out =
     (if fd = 0 then meaning a n (File f m) out else meaning a n i (File f m))"
| "meaning (XPipe a b) n i out =
     (let r = meaning a (Suc n) i (PipeWrite n); r' = meaning b (snd r) (PipeRead n) out in (fst r @ fst r', snd r'))"
| "meaning (XList a b) n i out =
     (let r = meaning a n i out; r' = meaning b (snd r) i out in (fst r @ fst r', snd r'))"
| "meaning (XBack a) n i out = meaning a n i out"

text \<open>Descriptors 0, 1 and 2 are open and no others.\<close>

definition std :: "stream \<Rightarrow> stream \<Rightarrow> stream \<Rightarrow> fdtable" where
  "std i out err = (\<lambda>_. None)(0 := Some i, 1 := Some out, 2 := Some err)"

lemma std_lowest:
  "lowest (std i out err) = Some 3"
  "lowest ((std i out err)(3 := Some x)) = Some 4"
  "lowest ((std i out err)(0 := None)) = Some 0"
  "lowest ((std i out err)(Suc 0 := None)) = Some 1"
  "lowest ((std i out err)(3 := Some x, 4 := Some y, 0 := None)) = Some 0"
  "lowest ((std i out err)(3 := Some x, 4 := Some y, Suc 0 := None)) = Some 1"
  by (simp_all add: lowest_def std_def upt_rec)

lemma std_updates:
  "(std i out err)(0 := Some x) = std x out err"
  "(std i out err)(Suc 0 := Some x) = std i x err"
  by (auto simp: std_def fun_eq_iff)

lemma std_closed [simp]: "(std i out err)(3 := None) = std i out err" "(std i out err)(4 := None) = std i out err"
  by (auto simp: std_def fun_eq_iff)

text \<open>C12: The shell wires up its processes as the command says. When \<open>runcmd\<close> starts with
  the three standard descriptors, every program of the command is executed with exactly
  these three open: input and output are the file of a redirection, the two ends of the
  same pipe on both sides of \<open>|\<close>, or the stream of the enclosing command. No other
  descriptor, in particular no end of a pipe, is left open in any of them.\<close>

theorem runcmd_wires_streams:
  assumes "wf_ast a"
  shows "run (runcmd a) n (std i out err) =
    (map (\<lambda>(ws, i, out). (ws, std i out err)) (fst (meaning a n i out)), snd (meaning a n i out))"
  using assms
proof (induction a arbitrary: n i out)
  case (XRedir a f m fd)
  then show ?case by (auto simp: std_lowest std_updates)
qed (auto simp: fork1_def Let_def std_lowest std_updates)

theorem runcmd_wires_streams_witness:
  "run (runcmd (XPipe (XExec [bytes ''ls'']) (XRedir (XExec [bytes ''wc'']) (bytes ''f'') O_WRONLY_CREATE 1))) 0
     (std Console Console Console) =
   ([([bytes ''ls''], std Console (PipeWrite 0) Console),
     ([bytes ''wc''], std (PipeRead 0) (File (bytes ''f'') O_WRONLY_CREATE) Console)], 1)"
proof -
  have "wf_ast (XPipe (XExec [bytes ''ls'']) (XRedir (XExec [bytes ''wc'']) (bytes ''f'') O_WRONLY_CREATE 1))"
    by (simp add: is_word_def wordch_def is_ws_def is_sym_def whitespace_def symbols_set bytes_def)
  from runcmd_wires_streams [OF this, of 0 Console Console Console] show ?thesis by simp
qed

end
