(* ===== verification/Mkfs.thy ===== *)
theory Mkfs
  imports Fs
begin

text \<open>
  The builder of file system images (\<open>mkfs.c\<close>). The image file is a map from sectors
  to their bytes; it has \<open>FSSIZE\<close> sectors once the first loop of \<open>main\<close> has run, and
  a read behind its end fails. The host is little-endian, so \<open>xshort\<close> and \<open>xint\<close>
  return their argument. A failed \<open>assert\<close> and a call of \<open>exit(1)\<close> stop the program.
\<close>

record image =
  im_sect :: "u32 \<Rightarrow> u8 list"
  im_freeinode :: u32
  im_freeblock :: u32

type_synonym 'a M = "(image, 'a) prog"

section \<open>Layout\<close>

abbreviation (input) NINODES :: nat where "NINODES \<equiv> 200"

definition nbitmap :: nat where "nbitmap = unat FSSIZE div (BSIZE * 8) + 1"

definition ninodeblocks :: nat where "ninodeblocks = NINODES div IPB + 1"

definition nlog :: nat where "nlog = LOGSIZE"

definition nmeta :: nat where "nmeta = 2 + nlog + ninodeblocks + nbitmap"

definition mkfs_sb :: superblock where
  "mkfs_sb = \<lparr>sb_size = FSSIZE, sb_nblocks = FSSIZE - of_nat nmeta, sb_ninodes = of_nat NINODES,
     sb_nlog = of_nat nlog, sb_logstart = 2, sb_inodestart = of_nat (2 + nlog),
     sb_bmapstart = of_nat (2 + nlog + ninodeblocks)\<rparr>"

definition sb_words :: "superblock \<Rightarrow> u32 list" where
  "sb_words sb = [sb_size sb, sb_nblocks sb, sb_ninodes sb, sb_nlog sb, sb_logstart sb,
     sb_inodestart sb, sb_bmapstart sb]"

section \<open>Sectors and inodes\<close>

definition wsect :: "u32 \<Rightarrow> u8 list \<Rightarrow> unit M" where
  "wsect sec buf = kmod (\<lambda>s. s\<lparr>im_sect := (im_sect s)(sec := buf)\<rparr>)"

definition rsect :: "u32 \<Rightarrow> u8 list M" where
  "rsect sec = (\<lambda>s. if sec < FSSIZE then Ok (im_sect s sec) s else Panic ''read'')"

definition winode :: "u32 \<Rightarrow> dinode \<Rightarrow> unit M" where
  "winode inum ip =
     (let bn = IBLOCK inum mkfs_sb in
     kbind (rsect bn) (\<lambda>buf.
     wsect bn (put_dinode buf (ioffset inum) ip)))"

definition rinode :: "u32 \<Rightarrow> dinode M" where
  "rinode inum =
     (let bn = IBLOCK inum mkfs_sb in
     kbind (rsect bn) (\<lambda>buf.
     kret (get_dinode buf (ioffset inum))))"

definition mk_ialloc :: "u16 \<Rightarrow> u32 M" where
  "mk_ialloc typ =
     kbind (kget im_freeinode) (\<lambda>inum.
     kseq (kmod (\<lambda>s. s\<lparr>im_freeinode := inum + 1\<rparr>)) (
     kseq (winode inum \<lparr>di_type = typ, di_major = 0, di_minor = 0, di_nlink = 1, di_size = 0,
       di_addrs = replicate (NDIRECT + 1) 0\<rparr>) (
     kret inum)))"

text \<open>The bit map: the first \<open>used\<close> blocks are in use.\<close>

definition used_bits :: "nat \<Rightarrow> u8 list" where
  "used_bits used = fold (\<lambda>i buf. buf[i div 8 := buf ! (i div 8) OR push_bit (i mod 8) 1]) [0..<used] (replicate BSIZE 0)"

definition mk_balloc :: "nat \<Rightarrow> unit M" where
  "mk_balloc used =
     (if \<not> used < BSIZE * 8 then kpanic ''assert''
      else wsect (sb_bmapstart mkfs_sb) (used_bits used))"

section \<open>Appending to a file\<close>

text \<open>\<open>freeblock++\<close>.\<close>

definition next_block :: "u32 M" where
  "next_block =
     kbind (kget im_freeblock) (\<lambda>b.
     kseq (kmod (\<lambda>s. s\<lparr>im_freeblock := b + 1\<rparr>)) (kret b))"

text \<open>The sector of block \<open>fbn\<close> of the file, allocated if need be, with the inode.\<close>

definition file_block :: "dinode \<Rightarrow> nat \<Rightarrow> (u32 \<times> dinode) M" where
  "file_block din fbn =
     (if fbn < NDIRECT then
        if di_addrs din ! fbn = 0 then
          kbind next_block (\<lambda>b.
          kret (b, din\<lparr>di_addrs := (di_addrs din)[fbn := b]\<rparr>))
        else kret (di_addrs din ! fbn, din)
      else
        kbind (if di_addrs din ! NDIRECT = 0 then
                 kbind next_block (\<lambda>b.
                 kret (din\<lparr>di_addrs := (di_addrs din)[NDIRECT := b]\<rparr>))
               else kret din) (\<lambda>din.
        kbind (rsect (di_addrs din ! NDIRECT)) (\<lambda>indirect.
        if get32 indirect (4 * (fbn - NDIRECT)) = 0 then
          kbind next_block (\<lambda>b.
          kseq (wsect (di_addrs din ! NDIRECT) (put32 indirect (4 * (fbn - NDIRECT)) b)) (
          kret (b, din)))
        else kret (get32 indirect (4 * (fbn - NDIRECT)), din))))"

text \<open>The \<open>while\<close> loop, over the pieces of the range that lie in one block each.\<close>

fun iappend_loop :: "dinode \<Rightarrow> (nat \<times> nat) list \<Rightarrow> u8 list \<Rightarrow> dinode M" where
  "iappend_loop din [] p = kret din"
| "iappend_loop din ((off, n1) # cs) p =
     (let fbn = off div BSIZE in
      if \<not> fbn < MAXFILE then kpanic ''assert''
      else
        kbind (file_block din fbn) (\<lambda>(x, din).
        kbind (rsect x) (\<lambda>buf.
        kseq (wsect x (put_bytes buf (off - fbn * BSIZE) (take n1 p))) (
        iappend_loop din cs (drop n1 p)))))"

definition iappend :: "u32 \<Rightarrow> u8 list \<Rightarrow> unit M" where
  "iappend inum p =
     kbind (rinode inum) (\<lambda>din.
     let off = unat (di_size din) in
     kbind (iappend_loop din (chunks off (length p)) p) (\<lambda>din.
     winode inum (din\<lparr>di_size := di_size din + of_nat (length p)\<rparr>)))"

section \<open>The program\<close>

definition add_entry :: "u32 \<Rightarrow> u32 \<Rightarrow> u8 list \<Rightarrow> unit M" where
  "add_entry dir inum name = iappend dir (put_dirent \<lparr>de_inum = ucast inum, de_name = name\<rparr>)"

text \<open>A file of the command line: its name and what the reads of \<open>BSIZE\<close> bytes return.\<close>

definition add_file :: "u8 list \<Rightarrow> u8 list list \<Rightarrow> unit M" where
  "add_file name reads =
     (if 47 \<in> set name then kpanic ''assert''
      else
        let name = (if name \<noteq> [] \<and> hd name = 95 then tl name else name) in
        kbind (mk_ialloc T_FILE) (\<lambda>inum.
        kseq (add_entry ROOTINO inum (strncpy (lview name) 14)) (
        kfor reads (iappend inum))))"

definition mkfs :: "(u8 list \<times> u8 list list) list \<Rightarrow> unit M" where
  "mkfs files =
     kseq (kmod (\<lambda>s. s\<lparr>im_freeblock := of_nat nmeta\<rparr>)) (
     kseq (kfor [0..<unat FSSIZE] (\<lambda>i. wsect (of_nat i) (replicate BSIZE 0))) (
     kseq (wsect 1 (put_words (replicate BSIZE 0) 0 (sb_words mkfs_sb))) (
     kbind (mk_ialloc T_DIR) (\<lambda>rootino.
     if rootino \<noteq> ROOTINO then kpanic ''assert''
     else
       kseq (add_entry rootino rootino (strncpy (lview [46]) 14)) (
       kseq (add_entry rootino rootino (strncpy (lview [46, 46]) 14)) (
       kseq (kfor files (\<lambda>(name, reads). add_file name reads)) (
       kbind (rinode rootino) (\<lambda>din.
       let off = di_size din in
       let off = (off div of_nat BSIZE + 1) * of_nat BSIZE in
       kseq (winode rootino (din\<lparr>di_size := off\<rparr>)) (
       kbind (kget im_freeblock) (\<lambda>used.
       mk_balloc (unat used)))))))))))"

end
