(* ===== verification/Mkfs_Files.thy ===== *)
theory Mkfs_Files
  imports Mkfs
begin

text \<open>
  The files of an image made by \<open>mkfs.c\<close>: the sectors that the inodes refer to are
  distinct, so that appending to one file changes that file only and by exactly the
  bytes appended.
\<close>

section \<open>References to sectors\<close>

text \<open>Block \<open>k\<close> of a file (\<open>Some k\<close>) and its indirect block (\<open>None\<close>); 0 when not allocated.\<close>

fun ref :: "(u32 \<Rightarrow> u8 list) \<Rightarrow> dinode \<Rightarrow> nat option \<Rightarrow> u32" where
  "ref S di None = di_addrs di ! NDIRECT"
| "ref S di (Some k) =
     (if k < NDIRECT then di_addrs di ! k
      else if MAXFILE \<le> k \<or> di_addrs di ! NDIRECT = 0 then 0
      else get32 (S (di_addrs di ! NDIRECT)) (4 * (k - NDIRECT)))"

text \<open>References go to data blocks in use and no two are equal.\<close>

definition refs_ok :: "('i \<Rightarrow> nat option \<Rightarrow> u32) \<Rightarrow> u32 \<Rightarrow> bool" where
  "refs_ok R fb \<longleftrightarrow>
     (\<forall>i p. R i p \<noteq> 0 \<longrightarrow> nmeta \<le> unat (R i p) \<and> unat (R i p) < unat fb) \<and>
     (\<forall>i p j q. R i p \<noteq> 0 \<and> R i p = R j q \<longrightarrow> i = j \<and> p = q)"

abbreviation set_ref :: "('i \<Rightarrow> nat option \<Rightarrow> u32) \<Rightarrow> 'i \<Rightarrow> nat option \<Rightarrow> u32 \<Rightarrow> 'i \<Rightarrow> nat option \<Rightarrow> u32" where
  "set_ref R i p b \<equiv> R(i := (R i)(p := b))"

lemma refs_okD:
  assumes "refs_ok R fb"
  shows "R i p \<noteq> 0 \<Longrightarrow> nmeta \<le> unat (R i p)" "R i p \<noteq> 0 \<Longrightarrow> unat (R i p) < unat fb"
    "R i p \<noteq> 0 \<Longrightarrow> R i p = R j q \<Longrightarrow> i = j \<and> p = q"
  using assms unfolding refs_ok_def by blast+

lemma unat_next: "unat (fb :: u32) \<le> 1000 \<Longrightarrow> unat (fb + 1) = unat fb + 1"
  by (simp add: unat_word_ariths)

lemma refs_ok_alloc:
  assumes R: "refs_ok R fb" and fb: "nmeta \<le> unat fb" "unat fb \<le> 1000"
  shows "refs_ok (set_ref R i p fb) (fb + 1)"
proof -
  have lt: "unat (R j q) < unat fb" if "R j q \<noteq> 0" for j q using refs_okD(2) [OF R that] .
  have ne: "R j q \<noteq> fb" if "R j q \<noteq> 0" for j q using lt [OF that] by auto
  show ?thesis
    unfolding refs_ok_def
  proof (intro conjI allI impI)
    fix j q
    assume "set_ref R i p fb j q \<noteq> 0"
    then have "set_ref R i p fb j q = fb \<or> set_ref R i p fb j q = R j q \<and> R j q \<noteq> 0" by (auto split: if_splits)
    then show "nmeta \<le> unat (set_ref R i p fb j q)" "unat (set_ref R i p fb j q) < unat (fb + 1)"
      using fb refs_okD(1) [OF R] lt unat_next [OF fb(2)] by (metis less_add_one, metis less_SucI Suc_eq_plus1 lessI)
  next
    fix j q k r
    assume h: "set_ref R i p fb j q \<noteq> 0 \<and> set_ref R i p fb j q = set_ref R i p fb k r"
    show "j = k" "q = r"
      using h ne refs_okD(3) [OF R, of j q k r] by (auto split: if_splits)
  qed
qed

section \<open>Tidy images\<close>

abbreviation zeros :: "u8 list" where
  "zeros \<equiv> replicate BSIZE 0"

text \<open>\<open>nd\<close> gives the inodes; the blocks from \<open>fb\<close> on are unused and zero.\<close>

definition tidy :: "(u32 \<Rightarrow> u8 list) \<Rightarrow> (u32 \<Rightarrow> dinode) \<Rightarrow> u32 \<Rightarrow> bool" where
  "tidy S nd fb \<longleftrightarrow> (\<forall>b. unat b < 1000 \<longrightarrow> length (S b) = BSIZE) \<and>
     (\<forall>i. length (di_addrs (nd i)) = NDIRECT + 1) \<and>
     (\<forall>b. unat fb \<le> unat b \<and> unat b < 1000 \<longrightarrow> S b = zeros) \<and>
     nmeta \<le> unat fb \<and> unat fb \<le> 1000 \<and> refs_ok (\<lambda>i. ref S (nd i)) fb"

lemma tidyD:
  assumes "tidy S nd fb"
  shows "unat b < 1000 \<Longrightarrow> length (S b) = BSIZE" "length (di_addrs (nd i)) = NDIRECT + 1"
    "unat fb \<le> unat b \<Longrightarrow> unat b < 1000 \<Longrightarrow> S b = zeros" "nmeta \<le> unat fb" "unat fb \<le> 1000"
    "refs_ok (\<lambda>i. ref S (nd i)) fb"
  using assms unfolding tidy_def by blast+

lemma get32_zeros: "i + 4 \<le> BSIZE \<Longrightarrow> get32 zeros i = 0"
  by (simp add: get32_def)

lemma tidyI:
  assumes "\<And>b. unat b < 1000 \<Longrightarrow> length (S b) = BSIZE" "\<And>i. length (di_addrs (nd i)) = NDIRECT + 1"
    "\<And>b. unat fb \<le> unat b \<Longrightarrow> unat b < 1000 \<Longrightarrow> S b = zeros" "nmeta \<le> unat fb" "unat fb \<le> 1000"
    "refs_ok (\<lambda>i. ref S (nd i)) fb"
  shows "tidy S nd fb"
  using assms unfolding tidy_def by blast

text \<open>One more block is in use; the sector that changed is in use.\<close>

lemma tidy_grow:
  assumes T: "tidy S nd fb" and fb: "unat fb < 1000"
    and S': "\<And>b. S' b = S b \<or> unat b < unat fb \<and> length (S' b) = BSIZE"
    and nd': "\<And>i. length (di_addrs (nd' i)) = NDIRECT + 1"
    and R: "(\<lambda>i. ref S' (nd' i)) = set_ref (\<lambda>i. ref S (nd i)) j p fb"
  shows "tidy S' nd' (fb + 1)"
proof -
  note D = tidyD [OF T]
  have up: "unat (fb + 1) = unat fb + 1" using D(5) by (rule unat_next)
  show ?thesis
  proof (rule tidyI)
    show "length (S' b) = BSIZE" if "unat b < 1000" for b using S' [of b] D(1) [OF that] by metis
    show "S' b = zeros" if "unat (fb + 1) \<le> unat b" "unat b < 1000" for b
    proof -
      have "unat fb \<le> unat b" "\<not> unat b < unat fb" using that(1) unfolding up by linarith+
      then show ?thesis using S' [of b] D(3) [of b] that(2) by metis
    qed
    show "nmeta \<le> unat (fb + 1)" "unat (fb + 1) \<le> 1000" unfolding up using D(4) fb by linarith+
    show "refs_ok (\<lambda>i. ref S' (nd' i)) (fb + 1)" unfolding R by (rule refs_ok_alloc [OF D(6,4,5)])
  qed (rule nd')
qed

text \<open>An address in the inode is set.\<close>

lemma tidy_addr:
  assumes T: "tidy S nd fb" and fb: "unat fb < 1000" and k: "k < NDIRECT + 1" "di_addrs (nd i) ! k = 0"
  defines "di \<equiv> (nd i)\<lparr>di_addrs := (di_addrs (nd i))[k := fb]\<rparr>"
  shows "tidy S (nd(i := di)) (fb + 1)"
    and "(\<lambda>j. ref S ((nd(i := di)) j)) = set_ref (\<lambda>j. ref S (nd j)) i (if k < NDIRECT then Some k else None) fb"
proof -
  note D = tidyD [OF T]
  have len: "length (di_addrs (nd i)) = 13" using D(2) [of i] by simp
  have "fb \<noteq> 0" using D(4) by (auto simp: nmeta_def)
  have zero: "S fb = zeros" using D(3) [of fb] fb by simp
  show R: "(\<lambda>j. ref S ((nd(i := di)) j)) = set_ref (\<lambda>j. ref S (nd j)) i (if k < NDIRECT then Some k else None) fb"
  proof (intro ext)
    fix j p
    show "ref S ((nd(i := di)) j) p = set_ref (\<lambda>j. ref S (nd j)) i (if k < NDIRECT then Some k else None) fb j p"
    proof (cases "j = i")
      case True
      show ?thesis
      proof (cases p)
        case None
        with True k len show ?thesis by (auto simp: di_def nth_list_update)
      next
        case (Some m)
        have "m < NDIRECT \<or> k < NDIRECT \<or> m \<ge> MAXFILE \<or> get32 zeros (4 * (m - NDIRECT)) = 0"
          using get32_zeros [of "4 * (m - NDIRECT)"] by (cases "m < MAXFILE") auto
        moreover have "k < 12 \<or> k = 12" using k(1) by auto
        ultimately show ?thesis
          using True Some k(2) len zero \<open>fb \<noteq> 0\<close> by (auto simp: di_def nth_list_update)
      qed
    qed simp
  qed
  have "length (di_addrs ((nd(i := di)) j)) = NDIRECT + 1" for j
    using D(2) [of j] len by (simp add: di_def)
  then show "tidy S (nd(i := di)) (fb + 1)"
    by (intro tidy_grow [OF T fb _ _ R]) simp_all
qed

text \<open>An entry of an indirect block is set.\<close>

lemma tidy_entry:
  assumes T: "tidy S nd fb" and fb: "unat fb < 1000" and k: "NDIRECT \<le> k" "k < MAXFILE"
    and I: "I = di_addrs (nd i) ! NDIRECT" "I \<noteq> 0" and zero: "ref S (nd i) (Some k) = 0"
  defines "S' \<equiv> S(I := put32 (S I) (4 * (k - NDIRECT)) fb)"
  shows "tidy S' nd (fb + 1)" and "(\<lambda>j. ref S' (nd j)) = set_ref (\<lambda>j. ref S (nd j)) i (Some k) fb"
proof -
  note D = tidyD [OF T]
  have RI: "ref S (nd i) None = I" using I(1) by simp
  have Ib: "nmeta \<le> unat I" "unat I < unat fb" using refs_okD(1,2) [OF D(6), of i None] I(2) RI by simp_all
  have "unat I < 1000" using Ib(2) D(5) by linarith
  then have lenI: "length (S I) = 512" using D(1) by auto
  have other: "di_addrs (nd j) ! 12 \<noteq> I" if "j \<noteq> i" for j
  proof
    assume "di_addrs (nd j) ! 12 = I"
    then have "ref S (nd i) None = ref S (nd j) None" using RI by simp
    moreover have "ref S (nd i) None \<noteq> 0" using RI I(2) by simp
    ultimately show False using refs_okD(3) [OF D(6), of i None j None] that by blast
  qed
  show R: "(\<lambda>j. ref S' (nd j)) = set_ref (\<lambda>j. ref S (nd j)) i (Some k) fb"
  proof (intro ext)
    fix j p
    show "ref S' (nd j) p = set_ref (\<lambda>j. ref S (nd j)) i (Some k) fb j p"
    proof (cases p)
      case (Some m)
      show ?thesis
      proof (cases "j = i \<and> m = k")
        case True
        then show ?thesis using Some I k lenI by (simp add: S'_def get32_put32_same)
      next
        case False
        have "get32 (S' (di_addrs (nd j) ! 12)) (4 * (m - 12)) = get32 (S (di_addrs (nd j) ! 12)) (4 * (m - 12))"
          if "12 \<le> m"
        proof (cases "j = i")
          case True
          with False have "m \<noteq> k" by simp
          with that k(1) have "4 * (m - 12) + 4 \<le> 4 * (k - 12) \<or> 4 * (k - 12) + 4 \<le> 4 * (m - 12)" by arith
          with True I(1) show ?thesis by (simp add: S'_def get32_put32_other)
        qed (simp add: S'_def other)
        with Some False show ?thesis by auto
      qed
    qed simp
  qed
  have "S' b = S b \<or> unat b < unat fb \<and> length (S' b) = BSIZE" for b
    using Ib(2) lenI by (simp add: S'_def)
  then show "tidy S' nd (fb + 1)"
    using D(2) by (intro tidy_grow [OF T fb _ _ R])
qed

text \<open>A data block is written.\<close>

lemma tidy_data:
  assumes T: "tidy S nd fb" and x: "x = ref S (nd i) (Some k)" "x \<noteq> 0" and d: "length d = BSIZE"
  shows "tidy (S(x := d)) nd fb" and "(\<lambda>j. ref (S(x := d)) (nd j)) = (\<lambda>j. ref S (nd j))"
proof -
  note D = tidyD [OF T]
  have xb: "unat x < unat fb" using refs_okD(2) [OF D(6), of i "Some k"] x by simp
  have "di_addrs (nd j) ! 12 \<noteq> x" for j
    using refs_okD(3) [OF D(6), of i "Some k" j None] x by auto
  then show R: "(\<lambda>j. ref (S(x := d)) (nd j)) = (\<lambda>j. ref S (nd j))"
    by (intro ext) (rename_tac j p, case_tac p, auto)
  show "tidy (S(x := d)) nd fb"
    by (rule tidyI) (use D(2,4,5,6) R xb d in \<open>auto simp: D(1,3)\<close>)
qed

section \<open>The bytes of a file\<close>

definition data :: "(u32 \<Rightarrow> u8 list) \<Rightarrow> dinode \<Rightarrow> nat \<Rightarrow> u8 list" where
  "data S di k = (if ref S di (Some k) = 0 then zeros else S (ref S di (Some k)))"

lemma data_alloc:
  assumes T: "tidy S nd fb" and fb: "unat fb < 1000"
    and R: "(\<lambda>j. ref S' (nd' j)) = set_ref (\<lambda>j. ref S (nd j)) i p fb"
    and zero: "ref S (nd i) p = 0"
    and S': "\<And>j m. ref S (nd j) (Some m) \<noteq> 0 \<Longrightarrow> S' (ref S (nd j) (Some m)) = S (ref S (nd j) (Some m))" "S' fb = zeros"
  shows "data S' (nd' j) m = data S (nd j) m"
proof -
  have "fb \<noteq> 0" using tidyD(4) [OF T] by (auto simp: nmeta_def)
  have "ref S' (nd' j) (Some m) = (if j = i \<and> p = Some m then fb else ref S (nd j) (Some m))"
    using fun_cong [OF fun_cong [OF R], of j "Some m"] by (auto simp: fun_upd_def)
  then show ?thesis using zero S' \<open>fb \<noteq> 0\<close> by (auto simp: data_def)
qed

lemma data_addr:
  assumes T: "tidy S nd fb" and fb: "unat fb < 1000" and k: "k < NDIRECT + 1" "di_addrs (nd i) ! k = 0"
  shows "data S ((nd(i := (nd i)\<lparr>di_addrs := (di_addrs (nd i))[k := fb]\<rparr>)) j) m = data S (nd j) m"
proof (rule data_alloc [OF T fb tidy_addr(2) [OF T fb k]])
  have "k < NDIRECT \<or> k = NDIRECT" using k(1) by auto
  then show "ref S (nd i) (if k < NDIRECT then Some k else None) = 0" using k(2) by auto
  show "S fb = zeros" using tidyD(3) [OF T, of fb] fb by simp
qed (rule refl)

lemma data_entry:
  assumes T: "tidy S nd fb" and fb: "unat fb < 1000" and k: "NDIRECT \<le> k" "k < MAXFILE"
    and I: "I = di_addrs (nd i) ! NDIRECT" "I \<noteq> 0" and zero: "ref S (nd i) (Some k) = 0"
  shows "data (S(I := put32 (S I) (4 * (k - NDIRECT)) fb)) (nd j) m = data S (nd j) m"
proof (rule data_alloc [OF T fb tidy_entry(2) [OF T fb k I zero] zero])
  note D = tidyD [OF T]
  have RI: "ref S (nd i) None = I" using I(1) by simp
  show "(S(I := put32 (S I) (4 * (k - NDIRECT)) fb)) (ref S (nd j) (Some m)) = S (ref S (nd j) (Some m))"
    if "ref S (nd j) (Some m) \<noteq> 0" for j m
    using refs_okD(3) [OF D(6) that, of i None] unfolding RI by auto
  have "unat I < unat fb" using refs_okD(2) [OF D(6), of i None] I(2) unfolding RI by blast
  then have "I \<noteq> fb" by blast
  then show "(S(I := put32 (S I) (4 * (k - NDIRECT)) fb)) fb = zeros"
    using D(3) [of fb] fb by simp
qed

lemma data_data:
  assumes T: "tidy S nd fb" and x: "x = ref S (nd i) (Some k)" "x \<noteq> 0" and d: "length d = BSIZE"
  shows "data (S(x := d)) (nd j) m = (if j = i \<and> m = k then d else data S (nd j) m)"
proof -
  have R: "ref (S(x := d)) (nd j) (Some m) = ref S (nd j) (Some m)"
    using fun_cong [OF fun_cong [OF tidy_data(2) [OF T x d]], of j "Some m"] .
  have "ref S (nd j) (Some m) = x \<longleftrightarrow> j = i \<and> m = k"
    using refs_okD(3) [OF tidyD(6) [OF T], of i "Some k" j "Some m"] x by (metis option.inject)
  then show ?thesis using x(2) unfolding data_def R by (auto simp del: ref.simps)
qed

lemma length_data:
  assumes T: "tidy S nd fb"
  shows "length (data S (nd j) m) = BSIZE"
proof (cases "ref S (nd j) (Some m) = 0")
  case False
  have "unat (ref S (nd j) (Some m)) < 1000"
    by (rule less_le_trans [OF refs_okD(2) [OF tidyD(6) [OF T] False] tidyD(5) [OF T]])
  from tidyD(1) [OF T this] show ?thesis using False unfolding data_def by (simp only: if_False)
qed (simp add: data_def)

section \<open>Files without holes\<close>

text \<open>The sectors that the first \<open>n\<close> bytes of a file take, its indirect block included.\<close>

definition blocks :: "nat \<Rightarrow> nat" where
  "blocks n = (n + 511) div 512 + (if 6144 < n then 1 else 0)"

definition full :: "(u32 \<Rightarrow> u8 list) \<Rightarrow> dinode \<Rightarrow> nat \<Rightarrow> bool" where
  "full S di n \<longleftrightarrow> (ref S di None \<noteq> 0 \<longleftrightarrow> 6144 < n) \<and>
     (\<forall>k<MAXFILE. ref S di (Some k) \<noteq> 0 \<longleftrightarrow> 512 * k < n)"

text \<open>The end of a chunk needs the sectors that its first byte needs.\<close>

lemma chunk_end:
  assumes m: "0 < m" "m \<le> 512 - off mod 512"
  shows "full S di (off + m) = full S di (off + 1)" "blocks (off + m) = blocks (off + 1)"
proof -
  define q r where qr: "q = off div 512" "r = off mod 512"
  then have off: "off = 512 * q + r" and r: "r < 512" by simp_all
  have lt: "512 * k < off + n \<longleftrightarrow> k \<le> q" if "0 < n" "n \<le> 512 - r" for k n
    using that r unfolding off by auto
  have same: "512 * k < off + m \<longleftrightarrow> 512 * k < off + 1" for k
    using lt [of m k] lt [of 1 k] m r qr(2) by auto
  then show "full S di (off + m) = full S di (off + 1)"
    using same [of 12] unfolding full_def by simp
  have "(off + n + 511) div 512 = q + 1" if "0 < n" "n \<le> 512 - r" for n
    using that r unfolding off by (intro div_nat_eqI) auto
  from this [of m] this [of 1] show "blocks (off + m) = blocks (off + 1)"
    using same [of 12] m r qr(2) unfolding blocks_def by simp
qed

lemma blocks_step:
  "blocks (off + 1) = blocks off + (if off mod 512 = 0 then 1 else 0) + (if off = 6144 then 1 else 0)"
proof -
  define q r where qr: "q = off div 512" "r = off mod 512"
  then have off: "off = 512 * q + r" and r: "r < 512" by simp_all
  have "(off + 1 + 511) div 512 = q + 1" using r unfolding off by (intro div_nat_eqI) auto
  moreover have "(off + 511) div 512 = q + (if r = 0 then 0 else 1)"
    using r unfolding off by (intro div_nat_eqI) auto
  ultimately show ?thesis unfolding blocks_def qr by auto
qed

lemma full_step:
  assumes F: "full S di off"
    and R: "\<And>p. ref S' di' p \<noteq> 0 \<longleftrightarrow> ref S di p \<noteq> 0 \<or> p = Some (off div 512) \<or> p = None \<and> off = 6144"
  shows "full S' di' (off + 1)"
proof -
  define q r where "q = off div 512" "r = off mod 512"
  then have off: "off = 512 * q + r" and r: "r < 512" and q: "off div 512 = q" by simp_all
  have lt: "512 * k < off + 1 \<longleftrightarrow> 512 * k < off \<or> k = q" for k using r unfolding off by auto
  show ?thesis
    unfolding full_def
  proof (intro conjI allI impI)
    have "ref S di None \<noteq> 0 \<longleftrightarrow> 6144 < off" using F unfolding full_def by (rule conjunct1)
    moreover have "6144 < off + 1 \<longleftrightarrow> 6144 < off \<or> off = 6144" by linarith
    ultimately show "ref S' di' None \<noteq> 0 \<longleftrightarrow> 6144 < off + 1" using R [of None] by blast
  next
    fix k
    assume "k < MAXFILE"
    then have "ref S di (Some k) \<noteq> 0 \<longleftrightarrow> 512 * k < off" using F unfolding full_def by blast
    then show "ref S' di' (Some k) \<noteq> 0 \<longleftrightarrow> 512 * k < off + 1"
      unfolding R [of "Some k"] lt q by blast
  qed
qed

text \<open>Blocks are added to inode \<open>i\<close> and no byte of a file changes.\<close>

definition quiet :: "u32 \<Rightarrow> image \<Rightarrow> (u32 \<Rightarrow> dinode) \<Rightarrow> image \<Rightarrow> (u32 \<Rightarrow> dinode) \<Rightarrow> bool" where
  "quiet i s nd s' nd' \<longleftrightarrow> tidy (im_sect s') nd' (im_freeblock s') \<and>
     (\<forall>j k. data (im_sect s') (nd' j) k = data (im_sect s) (nd j) k) \<and>
     (\<forall>b. unat b < nmeta \<longrightarrow> im_sect s' b = im_sect s b) \<and>
     im_freeinode s' = im_freeinode s \<and>
     (\<forall>j. j \<noteq> i \<longrightarrow> nd' j = nd j \<and> ref (im_sect s') (nd' j) = ref (im_sect s) (nd j)) \<and>
     (\<exists>as. nd' i = (nd i)\<lparr>di_addrs := as\<rparr>)"

lemma quietD:
  assumes "quiet i s nd s' nd'"
  shows "tidy (im_sect s') nd' (im_freeblock s')" "data (im_sect s') (nd' j) k = data (im_sect s) (nd j) k"
    "unat b < nmeta \<Longrightarrow> im_sect s' b = im_sect s b" "im_freeinode s' = im_freeinode s"
    "j \<noteq> i \<Longrightarrow> nd' j = nd j" "j \<noteq> i \<Longrightarrow> ref (im_sect s') (nd' j) = ref (im_sect s) (nd j)"
    "\<exists>as. nd' i = (nd i)\<lparr>di_addrs := as\<rparr>"
  using assms unfolding quiet_def by blast+

lemma quiet_refl:
  assumes "tidy (im_sect s) nd (im_freeblock s)"
  shows "quiet i s nd s nd"
proof -
  have "\<exists>as. nd i = (nd i)\<lparr>di_addrs := as\<rparr>" by (rule exI [of _ "di_addrs (nd i)"]) simp
  then show ?thesis unfolding quiet_def using assms by simp
qed

lemma quiet_trans:
  assumes Q: "quiet i s nd s1 nd1" and Q': "quiet i s1 nd1 s2 nd2"
  shows "quiet i s nd s2 nd2"
  unfolding quiet_def
proof (intro conjI allI impI)
  from quietD(7) [OF Q] quietD(7) [OF Q'] show "\<exists>as. nd2 i = (nd i)\<lparr>di_addrs := as\<rparr>" by auto
  fix j
  assume "j \<noteq> i"
  show "nd2 j = nd j" using quietD(5) [OF Q \<open>j \<noteq> i\<close>] quietD(5) [OF Q' \<open>j \<noteq> i\<close>] by (rule trans [rotated])
  show "ref (im_sect s2) (nd2 j) = ref (im_sect s) (nd j)"
    using quietD(6) [OF Q \<open>j \<noteq> i\<close>] quietD(6) [OF Q' \<open>j \<noteq> i\<close>] by (rule trans [rotated])
qed (simp_all only: quietD(1) [OF Q'] quietD(2-4) [OF Q'] quietD(2-4) [OF Q])

lemma quiet_addr:
  assumes T: "tidy (im_sect s) nd fb" and fb: "fb = im_freeblock s" "unat fb < 1000"
    and k: "k < NDIRECT + 1" "di_addrs (nd i) ! k = 0"
  shows "quiet i s nd (s\<lparr>im_freeblock := fb + 1\<rparr>) (nd(i := (nd i)\<lparr>di_addrs := (di_addrs (nd i))[k := fb]\<rparr>))"
  unfolding quiet_def
  using tidy_addr(1) [OF T fb(2) k] data_addr [OF T fb(2) k] by (auto simp del: ref.simps)

lemma quiet_entry:
  assumes T: "tidy (im_sect s) nd fb" and fb: "fb = im_freeblock s" "unat fb < 1000"
    and k: "NDIRECT \<le> k" "k < MAXFILE"
    and I: "I = di_addrs (nd i) ! NDIRECT" "I \<noteq> 0" and zero: "ref (im_sect s) (nd i) (Some k) = 0"
  shows "quiet i s nd (s\<lparr>im_freeblock := fb + 1,
    im_sect := (im_sect s)(I := put32 (im_sect s I) (4 * (k - NDIRECT)) fb)\<rparr>) nd"
proof -
  have "nmeta \<le> unat I" using refs_okD(1) [OF tidyD(6) [OF T], of i None] I by simp
  then have "b \<noteq> I" if "unat b < nmeta" for b using that by auto
  moreover have "ref ((im_sect s)(I := put32 (im_sect s I) (4 * (k - NDIRECT)) fb)) (nd j) =
      ref (im_sect s) (nd j)" if "j \<noteq> i" for j
    using fun_cong [OF tidy_entry(2) [OF T fb(2) k I zero], of j] that by (simp del: ref.simps)
  moreover have "\<exists>as. nd i = (nd i)\<lparr>di_addrs := as\<rparr>" by (rule exI [of _ "di_addrs (nd i)"]) simp
  ultimately show ?thesis
    unfolding quiet_def
    using tidy_entry(1) [OF T fb(2) k I zero] data_entry [OF T fb(2) k I zero] by (simp del: ref.simps)
qed

section \<open>The sector of a block\<close>

lemma rsect_ok: "unat sec < 1000 \<Longrightarrow> rsect sec s = Ok (im_sect s sec) s"
  by (simp add: rsect_def word_less_nat_alt)

text \<open>What \<open>file_block\<close> establishes for block \<open>off div 512\<close> of inode \<open>i\<close>.\<close>

definition found :: "u32 \<Rightarrow> nat \<Rightarrow> image \<Rightarrow> (u32 \<Rightarrow> dinode) \<Rightarrow> u32 \<Rightarrow> dinode \<Rightarrow> image \<Rightarrow> bool" where
  "found i off s nd x di s' \<longleftrightarrow> quiet i s nd s' (nd(i := di)) \<and> x \<noteq> 0 \<and>
     x = ref (im_sect s') di (Some (off div 512)) \<and> full (im_sect s') di (off + 1) \<and>
     unat (im_freeblock s') + blocks off = unat (im_freeblock s) + blocks (off + 1)"

lemma found_old:
  assumes T: "tidy (im_sect s) nd (im_freeblock s)" and F: "full (im_sect s) (nd i) off"
    and k: "off div 512 < MAXFILE" and x: "x = ref (im_sect s) (nd i) (Some (off div 512))" "x \<noteq> 0"
  shows "found i off s nd x (nd i) s"
proof -
  have "512 * (off div 512) < off" using F k x unfolding full_def by metis
  moreover have "off = 512 * (off div 512) + off mod 512" by simp
  ultimately have "off mod 512 \<noteq> 0" by linarith
  then have "off \<noteq> 6144" by auto
  have "blocks (off + 1) = blocks off" using \<open>off mod 512 \<noteq> 0\<close> \<open>off \<noteq> 6144\<close> unfolding blocks_step by simp
  moreover have "full (im_sect s) (nd i) (off + 1)"
    by (rule full_step [OF F]) (use x \<open>off \<noteq> 6144\<close> in blast)
  ultimately show ?thesis unfolding found_def using x quiet_refl [OF T] by simp
qed

lemma found_new:
  assumes F: "full (im_sect s) (nd i) off" and Q: "quiet i s nd s' (nd(i := di))"
    and R: "ref (im_sect s') di = (ref (im_sect s) (nd i))(Some (off div 512) := fb)"
    and x: "fb = im_freeblock s" "fb \<noteq> 0" "unat fb < 1000" and s': "im_freeblock s' = fb + 1"
    and off: "off mod 512 = 0" "off \<noteq> 6144"
  shows "found i off s nd fb di s'"
proof -
  have "full (im_sect s') di (off + 1)"
    by (rule full_step [OF F]) (use R x(2) off(2) in \<open>auto simp del: ref.simps\<close>)
  moreover have "unat (fb + 1) = unat fb + 1" using x(3) by (simp add: unat_next)
  ultimately show ?thesis
    unfolding found_def s' blocks_step using Q R x off by (simp del: ref.simps)
qed

text \<open>The first block behind the direct ones takes the indirect block with it.\<close>

lemma found_first:
  assumes F: "full (im_sect s) (nd i) 6144" and Q: "quiet i s nd s' (nd(i := di))"
    and R: "ref (im_sect s') di = (ref (im_sect s) (nd i))(None := fb, Some 12 := fb + 1)"
    and x: "fb = im_freeblock s" "fb \<noteq> 0" "unat fb < 999" and s': "im_freeblock s' = fb + 1 + 1"
  shows "found i 6144 s nd (fb + 1) di s'"
proof -
  have u: "unat (fb + 1) = unat fb + 1" using x(3) by (intro unat_next) simp
  moreover from this have "unat (fb + 1 + 1) = unat fb + 2" using x(3) unat_next [of "fb + 1"] by simp
  moreover have nz: "fb + 1 \<noteq> 0" using u by (metis add_is_0 one_neq_zero unat_0)
  moreover have "full (im_sect s') di (6144 + 1)"
    by (rule full_step [OF F]) (use R x(2) nz in \<open>auto simp del: ref.simps\<close>)
  ultimately show ?thesis
    unfolding found_def s' blocks_step using Q R x by (simp del: ref.simps)
qed

text \<open>The block is allocated in the indirect block \<open>I\<close>.\<close>

lemma file_block_indirect:
  assumes T: "tidy (im_sect s) nd fb" and k: "NDIRECT \<le> k" "k < MAXFILE"
    and I: "I = di_addrs (nd i) ! NDIRECT" "I \<noteq> 0" and fb: "fb = im_freeblock s"
  shows "file_block (nd i) k s =
    (let x = ref (im_sect s) (nd i) (Some k) in
     if x = 0 then Ok (fb, nd i) (s\<lparr>im_freeblock := fb + 1,
       im_sect := (im_sect s)(I := put32 (im_sect s I) (4 * (k - NDIRECT)) fb)\<rparr>)
     else Ok (x, nd i) s)"
proof -
  have "unat (ref (im_sect s) (nd i) None) < unat fb"
    by (rule refs_okD(2) [OF tidyD(6) [OF T]]) (use I in simp)
  then have "unat I < 1000" using tidyD(5) [OF T] I(1) by simp
  then show ?thesis
    using k I fb by (simp add: file_block_def krun rsect_ok next_block_def wsect_def Let_def)
qed

lemma file_block_old:
  assumes T: "tidy (im_sect s) nd (im_freeblock s)" and F: "full (im_sect s) (nd i) off"
    and k: "off div 512 < MAXFILE" and x: "x = ref (im_sect s) (nd i) (Some (off div 512))" "x \<noteq> 0"
  shows "file_block (nd i) (off div 512) s = Ok (x, nd i) s"
proof (cases "off div 512 < NDIRECT")
  case True
  then show ?thesis using x by (simp add: file_block_def krun)
next
  case False
  then have "di_addrs (nd i) ! NDIRECT \<noteq> 0" using x by (auto split: if_splits)
  from file_block_indirect [OF T _ k refl this refl] False x show ?thesis by (simp add: Let_def del: ref.simps)
qed

lemma file_block_direct:
  assumes T: "tidy (im_sect s) nd fb" and F: "full (im_sect s) (nd i) off" and fb: "fb = im_freeblock s" "unat fb < 1000" "fb \<noteq> 0"
    and off: "off mod 512 = 0" "off div 512 < NDIRECT" and zero: "di_addrs (nd i) ! (off div 512) = 0"
  shows "\<exists>x di s'. file_block (nd i) (off div 512) s = Ok (x, di) s' \<and> found i off s nd x di s'"
proof -
  let ?di = "(nd i)\<lparr>di_addrs := (di_addrs (nd i))[off div 512 := fb]\<rparr>" let ?s = "s\<lparr>im_freeblock := fb + 1\<rparr>"
  have k: "off div 512 < NDIRECT + 1" using off(2) by simp
  have "file_block (nd i) (off div 512) s = Ok (fb, ?di) ?s"
    using off zero fb(1) by (simp add: file_block_def krun next_block_def)
  moreover have "off \<noteq> 6144" using off(2) by auto
  moreover have "ref (im_sect ?s) ?di = (ref (im_sect s) (nd i))(Some (off div 512) := fb)"
    using fun_cong [OF tidy_addr(2) [OF T fb(2) k zero], of i] off(2) by (simp del: ref.simps)
  ultimately show ?thesis
    using found_new [OF F quiet_addr [OF T fb(1,2) k zero] _ fb(1,3,2) _ off(1)] by auto
qed

lemma file_block_entry:
  assumes T: "tidy (im_sect s) nd fb" and F: "full (im_sect s) (nd i) off" and fb: "fb = im_freeblock s" "unat fb < 1000" "fb \<noteq> 0"
    and off: "off mod 512 = 0" "NDIRECT \<le> off div 512" "off div 512 < MAXFILE"
    and I: "I = di_addrs (nd i) ! NDIRECT" "I \<noteq> 0" and zero: "ref (im_sect s) (nd i) (Some (off div 512)) = 0"
  shows "\<exists>x di s'. file_block (nd i) (off div 512) s = Ok (x, di) s' \<and> found i off s nd x di s'"
proof -
  let ?s = "s\<lparr>im_freeblock := fb + 1,
    im_sect := (im_sect s)(I := put32 (im_sect s I) (4 * (off div 512 - NDIRECT)) fb)\<rparr>"
  have "file_block (nd i) (off div 512) s = Ok (fb, nd i) ?s"
    using file_block_indirect [OF T off(2,3) I fb(1)] zero by (simp add: Let_def del: ref.simps)
  moreover have "6144 < off" using I F unfolding full_def by simp
  moreover have "quiet i s nd ?s (nd(i := nd i))"
    using quiet_entry [OF T fb(1,2) off(2,3) I zero] by simp
  moreover have "ref (im_sect ?s) (nd i) = (ref (im_sect s) (nd i))(Some (off div 512) := fb)"
    using fun_cong [OF tidy_entry(2) [OF T fb(2) off(2,3) I zero], of i] by (simp del: ref.simps)
  ultimately show ?thesis
    using found_new [of s nd i off ?s "nd i" fb, OF F _ _ fb(1,3,2) _ off(1)] by auto
qed

lemma file_block_first:
  assumes T: "tidy (im_sect s) nd fb" and F: "full (im_sect s) (nd i) 6144" and fb: "fb = im_freeblock s" "unat fb < 999" "fb \<noteq> 0"
  shows "\<exists>x di s'. file_block (nd i) 12 s = Ok (x, di) s' \<and> found i 6144 s nd x di s'"
proof -
  let ?di = "(nd i)\<lparr>di_addrs := (di_addrs (nd i))[12 := fb]\<rparr>" let ?s1 = "s\<lparr>im_freeblock := fb + 1\<rparr>"
  let ?nd1 = "nd(i := ?di)"
  have zero: "di_addrs (nd i) ! 12 = 0" using F unfolding full_def by simp
  have len: "length (di_addrs (nd i)) = 13" using tidyD(2) [OF T, of i] by simp
  have fb': "unat fb < 1000" using fb(2) by simp
  have k: "(12 :: nat) < NDIRECT + 1" "NDIRECT \<le> (12 :: nat)" "(12 :: nat) < MAXFILE" by simp_all
  note Q1 = quiet_addr [OF T fb(1) fb' k(1) zero]
  have T1: "tidy (im_sect ?s1) ?nd1 (fb + 1)" using quietD(1) [OF Q1] by simp
  have R1: "ref (im_sect ?s1) (?nd1 i) = (ref (im_sect s) (nd i))(None := fb)"
    using fun_cong [OF tidy_addr(2) [OF T fb' k(1) zero], of i] by (simp del: ref.simps)
  have I1: "fb = di_addrs (?nd1 i) ! NDIRECT" using len by simp
  have zero1: "ref (im_sect ?s1) (?nd1 i) (Some 12) = 0" using zero unfolding R1 by simp
  have fb1: "fb + 1 = im_freeblock ?s1" "unat (fb + 1) < 1000" using fb(2) unat_next [of fb] by simp_all
  let ?s2 = "?s1\<lparr>im_freeblock := fb + 1 + 1, im_sect := (im_sect ?s1)(fb := put32 (im_sect ?s1 fb) (4 * (12 - NDIRECT)) (fb + 1))\<rparr>"
  note Q2 = quiet_entry [OF T1 fb1 k(2,3) I1 fb(3) zero1]
  have "file_block (nd i) 12 s = file_block (?nd1 i) 12 ?s1"
    using zero fb(1,3) len by (simp add: file_block_def krun next_block_def)
  also have "\<dots> = Ok (fb + 1, ?di) ?s2"
    using file_block_indirect [OF T1 k(2,3) I1 fb(3) fb1(1)] zero1 by (simp add: Let_def del: ref.simps)
  finally have run: "file_block (nd i) 12 s = Ok (fb + 1, ?di) ?s2" .
  have "ref (im_sect ?s2) ?di = (ref (im_sect s) (nd i))(None := fb, Some 12 := fb + 1)"
    using fun_cong [OF tidy_entry(2) [OF T1 fb1(2) k(2,3) I1 fb(3) zero1], of i] R1 by (simp del: ref.simps)
  then have "found i 6144 s nd (fb + 1) ?di ?s2"
    by (rule found_first [OF F quiet_trans [OF Q1 Q2] _ fb(1,3,2)]) simp
  with run show ?thesis by blast
qed

lemma file_block_runs:
  assumes T: "tidy (im_sect s) nd (im_freeblock s)" and F: "full (im_sect s) (nd i) off"
    and k: "off div 512 < MAXFILE" and room: "unat (im_freeblock s) + blocks (off + 1) \<le> 1000 + blocks off"
  shows "\<exists>x di s'. file_block (nd i) (off div 512) s = Ok (x, di) s' \<and> found i off s nd x di s'"
proof (cases "ref (im_sect s) (nd i) (Some (off div 512)) = 0")
  case False
  then show ?thesis using file_block_old [OF T F k refl] found_old [OF T F k refl] by blast
next
  case zero: True
  let ?fb = "im_freeblock s" let ?k = "off div 512"
  have "\<not> 512 * ?k < off" using F k zero unfolding full_def by blast
  then have off: "off mod 512 = 0" "off = 512 * ?k" by (simp_all add: minus_mod_eq_mult_div [symmetric])
  have fb: "unat ?fb < 1000" and nz: "?fb \<noteq> 0"
    using room off(1) tidyD(4) [OF T] unfolding blocks_step by (auto simp: nmeta_def)
  consider "?k < NDIRECT" | "NDIRECT \<le> ?k" "di_addrs (nd i) ! NDIRECT \<noteq> 0" | "NDIRECT \<le> ?k" "di_addrs (nd i) ! NDIRECT = 0"
    by linarith
  then show ?thesis
  proof cases
    case 1
    with zero show ?thesis by (intro file_block_direct [OF T F refl fb nz off(1) 1]) simp
  next
    case 2
    show ?thesis by (rule file_block_entry [OF T F refl fb nz off(1) 2(1) k refl 2(2) zero])
  next
    case 3
    have "\<not> 6144 < off" using 3(2) F unfolding full_def by simp
    then have "off = 6144" using 3(1) off(2) by linarith
    with room have "unat ?fb < 999" unfolding blocks_step by simp
    from file_block_first [OF T _ refl this nz, of i] F \<open>off = 6144\<close> show ?thesis by simp
  qed
qed

end
