(* ===== verification/Mkfs_Image.thy ===== *)
theory Mkfs_Image
  imports Mkfs_Files
begin

text \<open>
  What \<open>mkfs\<close> writes: \<open>iappend\<close> appends to one file, and the image that \<open>mkfs\<close>
  makes holds the files of its command line, under their names.
\<close>

declare ref.simps [simp del]

section \<open>One chunk\<close>

definition byte :: "(u32 \<Rightarrow> u8 list) \<Rightarrow> dinode \<Rightarrow> nat \<Rightarrow> u8" where
  "byte S di q = data S di (q div 512) ! (q mod 512)"

text \<open>The bytes \<open>p\<close> are appended to inode \<open>i\<close>, which had \<open>off\<close> bytes.\<close>

definition appended :: "u32 \<Rightarrow> nat \<Rightarrow> u8 list \<Rightarrow> image \<Rightarrow> (u32 \<Rightarrow> dinode) \<Rightarrow> image \<Rightarrow> (u32 \<Rightarrow> dinode) \<Rightarrow> bool" where
  "appended i off p s nd s' nd' \<longleftrightarrow> tidy (im_sect s') nd' (im_freeblock s') \<and>
     full (im_sect s') (nd' i) (off + length p) \<and>
     unat (im_freeblock s') + blocks off = unat (im_freeblock s) + blocks (off + length p) \<and>
     (\<forall>b. unat b < nmeta \<longrightarrow> im_sect s' b = im_sect s b) \<and> im_freeinode s' = im_freeinode s \<and>
     (\<forall>j. j \<noteq> i \<longrightarrow> nd' j = nd j \<and> ref (im_sect s') (nd' j) = ref (im_sect s) (nd j) \<and>
        data (im_sect s') (nd' j) = data (im_sect s) (nd j)) \<and>
     (\<exists>as. nd' i = (nd i)\<lparr>di_addrs := as\<rparr>) \<and>
     map (byte (im_sect s') (nd' i)) [0..<off + length p] = map (byte (im_sect s) (nd i)) [0..<off] @ p"

lemma appendedD:
  assumes "appended i off p s nd s' nd'"
  shows "tidy (im_sect s') nd' (im_freeblock s')" "full (im_sect s') (nd' i) (off + length p)"
    "unat (im_freeblock s') + blocks off = unat (im_freeblock s) + blocks (off + length p)"
    "unat b < nmeta \<Longrightarrow> im_sect s' b = im_sect s b" "im_freeinode s' = im_freeinode s"
    "j \<noteq> i \<Longrightarrow> nd' j = nd j" "j \<noteq> i \<Longrightarrow> ref (im_sect s') (nd' j) = ref (im_sect s) (nd j)"
    "j \<noteq> i \<Longrightarrow> data (im_sect s') (nd' j) = data (im_sect s) (nd j)"
    "\<exists>as. nd' i = (nd i)\<lparr>di_addrs := as\<rparr>"
    "map (byte (im_sect s') (nd' i)) [0..<off + length p] = map (byte (im_sect s) (nd i)) [0..<off] @ p"
  using assms unfolding appended_def by blast+

lemma appended_Nil:
  assumes "tidy (im_sect s) nd (im_freeblock s)" "full (im_sect s) (nd i) off"
  shows "appended i off [] s nd s nd"
proof -
  have "\<exists>as. nd i = (nd i)\<lparr>di_addrs := as\<rparr>" by (rule exI [of _ "di_addrs (nd i)"]) simp
  then show ?thesis unfolding appended_def using assms by simp
qed

lemma appended_append:
  assumes A: "appended i off p s nd s1 nd1" and B: "appended i (off + length p) q s1 nd1 s2 nd2"
  shows "appended i off (p @ q) s nd s2 nd2"
  unfolding appended_def length_append add.assoc [symmetric]
proof (intro conjI allI impI)
  show "unat (im_freeblock s2) + blocks off = unat (im_freeblock s) + blocks (off + length p + length q)"
    using appendedD(3) [OF A] appendedD(3) [OF B] by linarith
  from appendedD(9) [OF A] appendedD(9) [OF B] show "\<exists>as. nd2 i = (nd i)\<lparr>di_addrs := as\<rparr>" by auto
  show "map (byte (im_sect s2) (nd2 i)) [0..<off + length p + length q] = map (byte (im_sect s) (nd i)) [0..<off] @ p @ q"
    unfolding appendedD(10) [OF B] appendedD(10) [OF A] by simp
  show "tidy (im_sect s2) nd2 (im_freeblock s2)" "full (im_sect s2) (nd2 i) (off + length p + length q)"
    by (rule appendedD(1,2) [OF B])+
  show "im_freeinode s2 = im_freeinode s" using appendedD(5) [OF A] appendedD(5) [OF B] by simp
  fix b :: u32
  assume "unat b < nmeta"
  then show "im_sect s2 b = im_sect s b" using appendedD(4) [OF A] appendedD(4) [OF B] by metis
next
  fix j
  assume j: "j \<noteq> i"
  note A = appendedD(6-8) [OF A j] and B = appendedD(6-8) [OF B j]
  show "nd2 j = nd j" by (rule trans [OF B(1) A(1)])
  show "ref (im_sect s2) (nd2 j) = ref (im_sect s) (nd j)" by (rule trans [OF B(2) A(2)])
  show "data (im_sect s2) (nd2 j) = data (im_sect s) (nd j)" by (rule trans [OF B(3) A(3)])
qed

text \<open>The bytes \<open>xs\<close> are written at \<open>r\<close> into a block.\<close>

lemma nth_put_bytes:
  assumes "r + length xs \<le> length d" "t < length d"
  shows "put_bytes d r xs ! t = (if t < r \<or> r + length xs \<le> t then d ! t else xs ! (t - r))"
  using assms by (auto simp: put_bytes_def nth_append)

lemma length_put_bytes: "r + length xs \<le> length d \<Longrightarrow> length (put_bytes d r xs) = length d"
  by (simp add: put_bytes_def)

lemma byte_put:
  assumes xs: "off mod 512 + length xs \<le> 512" "length d = 512"
    and new: "\<And>k. data S' di' k = (if k = off div 512 then put_bytes d (off mod 512) xs else data S di k)"
    and d: "d = data S di (off div 512)"
  shows "map (byte S' di') [0..<off + length xs] = map (byte S di) [0..<off] @ xs"
proof (rule nth_equalityI)
  fix q
  assume "q < length (map (byte S' di') [0..<off + length xs])"
  then have q: "q < off + length xs" by simp
  have len: "off mod 512 + length xs \<le> length d" and t: "q mod 512 < length d" using xs by simp_all
  have off: "off = 512 * (off div 512) + off mod 512" and qq: "q = 512 * (q div 512) + q mod 512" by simp_all
  show "map (byte S' di') [0..<off + length xs] ! q = (map (byte S di) [0..<off] @ xs) ! q"
  proof (cases "q < off")
    case True
    then have "q div 512 = off div 512 \<Longrightarrow> q mod 512 < off mod 512" using off qq by linarith
    then show ?thesis
      using True q nth_put_bytes [OF len t] by (auto simp: byte_def new d nth_append)
  next
    case False
    have "q div 512 = off div 512"
      using False q off xs(1) mult_Suc_right [of 512 "off div 512"] by (intro div_nat_eqI) linarith+
    moreover obtain u where u: "q = off + u" "u < length xs" using False q by (metis le_add_diff_inverse linorder_not_le nat_add_left_cancel_less)
    moreover have "q mod 512 = off mod 512 + u" using u(1) calculation(1) off qq by linarith
    ultimately show ?thesis using nth_put_bytes [OF len t] by (simp add: byte_def new nth_append)
  qed
qed simp

lemma chunk_appended:
  assumes F: "found i off s nd x di s1" and T: "tidy (im_sect s) nd (im_freeblock s)"
    and xs: "0 < length xs" "off mod 512 + length xs \<le> 512"
  defines "s2 \<equiv> s1\<lparr>im_sect := (im_sect s1)(x := put_bytes (im_sect s1 x) (off mod 512) xs)\<rparr>"
  shows "appended i off xs s nd s2 (nd(i := di))" "unat x < 1000"
proof -
  let ?nd = "nd(i := di)" let ?d = "im_sect s1 x" let ?e = "put_bytes ?d (off mod 512) xs"
  from F have Q: "quiet i s nd s1 ?nd" and x: "x = ref (im_sect s1) (?nd i) (Some (off div 512))" "x \<noteq> 0"
    and full: "full (im_sect s1) (?nd i) (off + 1)"
    and room: "unat (im_freeblock s1) + blocks off = unat (im_freeblock s) + blocks (off + 1)"
    unfolding found_def fun_upd_same by blast+
  note T1 = quietD(1) [OF Q]
  have xb: "nmeta \<le> unat x" "unat x < unat (im_freeblock s1)"
    using refs_okD(1,2) [OF tidyD(6) [OF T1], of i "Some (off div 512)"] x by simp_all
  then show "unat x < 1000" using tidyD(5) [OF T1] by linarith
  then have d: "length ?d = 512" using tidyD(1) [OF T1] by blast
  then have e: "length ?e = BSIZE" using xs(2) by (simp add: length_put_bytes)
  note T2 = tidy_data [OF T1 x e] and D = data_data [OF T1 x e]
  have old: "?d = data (im_sect s1) (?nd i) (off div 512)" using x unfolding data_def by (simp only: if_False)
  have ends: "full S y (off + length xs) = full S y (off + 1)" "blocks (off + length xs) = blocks (off + 1)" for S y
    by (rule chunk_end; use xs in linarith)+
  have R: "ref ((im_sect s1)(x := ?e)) (?nd j) = ref (im_sect s1) (?nd j)" for j
    using fun_cong [OF T2(2), of j] .
  show "appended i off xs s nd s2 ?nd"
    unfolding appended_def
  proof (intro conjI allI impI)
    show "tidy (im_sect s2) ?nd (im_freeblock s2)" unfolding s2_def using T2(1) by (simp del: fun_upd_apply)
    show "full (im_sect s2) (?nd i) (off + length xs)"
      unfolding ends(1) using full unfolding full_def s2_def by (simp add: R del: fun_upd_apply)
    show "unat (im_freeblock s2) + blocks off = unat (im_freeblock s) + blocks (off + length xs)"
      unfolding ends(2) using room unfolding s2_def by simp
    show "im_freeinode s2 = im_freeinode s" using quietD(4) [OF Q] unfolding s2_def by simp
    show "\<exists>as. ?nd i = (nd i)\<lparr>di_addrs := as\<rparr>" by (rule quietD(7) [OF Q])
    have "map (byte (im_sect s2) (?nd i)) [0..<off + length xs] = map (byte (im_sect s1) (?nd i)) [0..<off] @ xs"
      by (rule byte_put [OF xs(2) d _ old]) (simp add: s2_def D del: fun_upd_apply)
    moreover have "byte (im_sect s1) (?nd i) = byte (im_sect s) (nd i)"
      by (rule ext) (simp only: byte_def quietD(2) [OF Q])
    ultimately show "map (byte (im_sect s2) (?nd i)) [0..<off + length xs] = map (byte (im_sect s) (nd i)) [0..<off] @ xs"
      by (simp only:)
    fix b :: u32
    assume b: "unat b < nmeta"
    then have "b \<noteq> x" using xb(1) by auto
    then show "im_sect s2 b = im_sect s b" using quietD(3) [OF Q b] unfolding s2_def by simp
  next
    fix j
    assume j: "j \<noteq> i"
    show "?nd j = nd j" by (rule quietD(5) [OF Q j])
    show "ref (im_sect s2) (?nd j) = ref (im_sect s) (nd j)"
      using R [of j] quietD(6) [OF Q j] unfolding s2_def by (simp del: fun_upd_apply)
    show "data (im_sect s2) (?nd j) = data (im_sect s) (nd j)"
      using D [of j] quietD(2) [OF Q, of j] j unfolding s2_def by (intro ext) (simp del: fun_upd_apply)
  qed
qed

section \<open>The loop\<close>

lemma blocks_mono: "a \<le> b \<Longrightarrow> blocks a \<le> blocks b"
proof -
  assume "a \<le> b"
  then have "(a + 511) div 512 \<le> (b + 511) div 512" by (intro div_le_mono) simp
  with \<open>a \<le> b\<close> show ?thesis by (simp add: blocks_def)
qed

lemma iappend_loop_runs:
  assumes "tidy (im_sect s) nd (im_freeblock s)" "full (im_sect s) (nd i) off"
    "off + length p \<le> BSIZE * MAXFILE" "unat (im_freeblock s) + blocks (off + length p) \<le> 1000 + blocks off"
  shows "\<exists>di s'. iappend_loop (nd i) (chunks off (length p)) p s = Ok di s' \<and>
    appended i off p s nd s' (nd(i := di))"
  using assms
proof (induction "length p" arbitrary: p off s nd rule: less_induct)
  case less
  note T = less.prems(1) and F = less.prems(2)
  show ?case
  proof (cases "p = []")
    case True
    then show ?thesis using appended_Nil [OF T F] by (subst chunks.simps) (simp add: kret_def)
  next
    case False
    define m where "m = min (length p) (512 - off mod 512)"
    have "off mod 512 < 512" by simp
    then have m: "0 < m" "m \<le> length p" "m \<le> 512 - off mod 512" "off mod 512 + m \<le> 512"
      using False unfolding m_def by auto
    have cs: "chunks off (length p) = (off, m) # chunks (off + m) (length (drop m p))"
      using False by (subst chunks.simps) (simp add: m_def Let_def)
    have k: "off div 512 < MAXFILE" using less.prems(3) m(1,2) by (simp add: div_less_iff_less_mult)
    have "blocks (off + 1) \<le> blocks (off + length p)" using m by (intro blocks_mono) simp
    then have "unat (im_freeblock s) + blocks (off + 1) \<le> 1000 + blocks off" using less.prems(4) by simp
    from file_block_runs [OF T F k this] obtain x di s1
      where b: "file_block (nd i) (off div 512) s = Ok (x, di) s1" and found: "found i off s nd x di s1" by blast
    have xs: "0 < length (take m p)" "off mod 512 + length (take m p) \<le> 512" using m by simp_all
    define s2 where "s2 = s1\<lparr>im_sect := (im_sect s1)(x := put_bytes (im_sect s1 x) (off mod 512) (take m p))\<rparr>"
    note A = chunk_appended [OF found T xs, folded s2_def]
    have len: "length (take m p) = m" using m(2) by simp
    note A1 = appendedD(1-3) [OF A(1), unfolded len]
    have step: "iappend_loop (nd i) (chunks off (length p)) p s =
        iappend_loop di (chunks (off + m) (length (drop m p))) (drop m p) s2"
      unfolding cs using k b A(2)
      by (simp add: krun rsect_ok wsect_def s2_def minus_div_mult_eq_mod del: length_drop)
    have "\<exists>di' s'. iappend_loop ((nd(i := di)) i) (chunks (off + m) (length (drop m p))) (drop m p) s2 = Ok di' s' \<and>
        appended i (off + m) (drop m p) s2 (nd(i := di)) s' ((nd(i := di))(i := di'))"
    proof (rule less.hyps)
      show "length (drop m p) < length p" using m by simp
      show "tidy (im_sect s2) (nd(i := di)) (im_freeblock s2)" "full (im_sect s2) ((nd(i := di)) i) (off + m)"
        by (rule A1)+
      show "off + m + length (drop m p) \<le> BSIZE * MAXFILE" using less.prems(3) m(2) by simp
      have "off + m + length (drop m p) = off + length p" using m(2) by simp
      then show "unat (im_freeblock s2) + blocks (off + m + length (drop m p)) \<le> 1000 + blocks (off + m)"
        using A1(3) less.prems(4) by simp
    qed
    then obtain di' s' where r: "iappend_loop di (chunks (off + m) (length (drop m p))) (drop m p) s2 = Ok di' s'"
      and B: "appended i (off + m) (drop m p) s2 (nd(i := di)) s' (nd(i := di'))" by auto
    from appended_append [OF A(1), unfolded len, OF B] step r show ?thesis by auto
  qed
qed

section \<open>Inodes on the disk\<close>

definition nodes :: "(u32 \<Rightarrow> u8 list) \<Rightarrow> u32 \<Rightarrow> dinode" where
  "nodes S i = (if unat i < 208 then get_dinode (S (IBLOCK i mkfs_sb)) (ioffset i) else get_dinode zeros 0)"

lemma length_get_dinode: "length (di_addrs (get_dinode d a)) = NDIRECT + 1"
  by (simp add: get_dinode_def)

lemma length_nodes: "length (di_addrs (nodes S i)) = NDIRECT + 1"
  by (simp add: nodes_def length_get_dinode)

lemma unat_IBLOCK: "unat i < 208 \<Longrightarrow> unat (IBLOCK i mkfs_sb) = 32 + unat i div 8"
proof -
  assume i: "unat i < 208"
  have "unat (i div 8) = unat i div 8" by (simp add: unat_div)
  then show ?thesis using i by (simp add: IBLOCK_def mkfs_sb_def nlog_def unat_word_ariths)
qed

lemma nmeta_value: "nmeta = 59"
  by (simp add: nmeta_def nlog_def ninodeblocks_def nbitmap_def)

lemma IBLOCK_low: "unat i < 208 \<Longrightarrow> 32 \<le> unat (IBLOCK i mkfs_sb) \<and> unat (IBLOCK i mkfs_sb) < 58"
  using unat_IBLOCK by (auto simp: div_less_iff_less_mult)

lemma nodes_low: "(\<And>b. 32 \<le> unat b \<Longrightarrow> unat b < 58 \<Longrightarrow> S' b = S b) \<Longrightarrow> nodes S' = nodes S"
  using IBLOCK_low by (intro ext) (simp add: nodes_def)

lemma nodes_put:
  assumes i: "unat i < 208" and di: "length (di_addrs di) = NDIRECT + 1" and len: "length (S (IBLOCK i mkfs_sb)) = BSIZE"
  shows "nodes (S(IBLOCK i mkfs_sb := put_dinode (S (IBLOCK i mkfs_sb)) (ioffset i) di)) = (nodes S)(i := di)"
proof (rule ext)
  fix j
  have off: "ioffset i + 64 \<le> BSIZE" by (simp add: ioffset_def)
  show "nodes (S(IBLOCK i mkfs_sb := put_dinode (S (IBLOCK i mkfs_sb)) (ioffset i) di)) j = ((nodes S)(i := di)) j"
  proof (cases "j \<noteq> i \<and> unat j < 208 \<and> IBLOCK j mkfs_sb = IBLOCK i mkfs_sb")
    case True
    then have "unat j div 8 = unat i div 8" using unat_IBLOCK [of j] unat_IBLOCK [OF i] by simp
    moreover have "unat j \<noteq> unat i" using True by (simp add: word_unat_eq_iff)
    ultimately have "unat j mod 8 \<noteq> unat i mod 8" by (metis mult_div_mod_eq)
    then have "ioffset j + 64 \<le> ioffset i \<or> ioffset i + 64 \<le> ioffset j" unfolding ioffset_def by auto
    with True show ?thesis by (simp add: nodes_def get_put_dinode_other [OF di])
  next
    case False
    then show ?thesis using i off len di by (auto simp: nodes_def get_put_dinode_same)
  qed
qed

text \<open>A write below the data blocks.\<close>

lemma tidy_low:
  assumes T: "tidy S nd fb" and b: "unat b < nmeta" and d: "length d = BSIZE"
  shows "ref (S(b := d)) (nd j) = ref S (nd j)" "data (S(b := d)) (nd j) = data S (nd j)" "tidy (S(b := d)) nd fb"
proof -
  note D = tidyD [OF T]
  have ne: "ref S (nd j) p \<noteq> b" if "ref S (nd j) p \<noteq> 0" for j p
    using refs_okD(1) [OF D(6) that] b by auto
  have R: "ref (S(b := d)) (nd j) = ref S (nd j)" for j
  proof (rule ext)
    show "ref (S(b := d)) (nd j) p = ref S (nd j) p" for p
      using ne [of j None] by (cases p) (auto simp: ref.simps)
  qed
  then show "ref (S(b := d)) (nd j) = ref S (nd j)" .
  show "data (S(b := d)) (nd j) = data S (nd j)" using ne [of j] by (intro ext) (auto simp: data_def R)
  show "tidy (S(b := d)) nd fb"
  proof (rule tidyI)
    show "refs_ok (\<lambda>i. ref (S(b := d)) (nd i)) fb" unfolding R by (rule D(6))
    show "(S(b := d)) c = zeros" if "unat fb \<le> unat c" "unat c < 1000" for c
      using D(3) [OF that] D(4) b that by (auto simp: fun_upd_def)
    show "length ((S(b := d)) c) = BSIZE" if "unat c < 1000" for c using D(1) [OF that] d by simp
  qed (rule D)+
qed

lemma winode_runs:
  assumes i: "unat i < 208" and T: "tidy (im_sect s) ((nodes (im_sect s))(i := di)) (im_freeblock s)"
  defines "s' \<equiv> s\<lparr>im_sect := (im_sect s)(IBLOCK i mkfs_sb := put_dinode (im_sect s (IBLOCK i mkfs_sb)) (ioffset i) di)\<rparr>"
  shows "winode i di s = Ok () s'" "nodes (im_sect s') = (nodes (im_sect s))(i := di)"
    "tidy (im_sect s') (nodes (im_sect s')) (im_freeblock s')"
    "ref (im_sect s') (nodes (im_sect s') j) = ref (im_sect s) (nodes (im_sect s') j)"
    "data (im_sect s') (nodes (im_sect s') j) = data (im_sect s) (nodes (im_sect s') j)"
    "unat b < 32 \<Longrightarrow> im_sect s' b = im_sect s b"
proof -
  let ?b = "IBLOCK i mkfs_sb"
  have b: "unat ?b < nmeta" "unat ?b < 1000" and b32: "32 \<le> unat ?b" using IBLOCK_low [OF i] by (simp_all add: nmeta_value)
  have len: "length (im_sect s ?b) = BSIZE" using tidyD(1) [OF T b(2)] .
  show "winode i di s = Ok () s'"
    using rsect_ok [OF b(2)] by (simp add: winode_def krun wsect_def s'_def Let_def)
  have di: "length (di_addrs di) = NDIRECT + 1" using tidyD(2) [OF T, of i] by simp
  show N: "nodes (im_sect s') = (nodes (im_sect s))(i := di)"
    unfolding s'_def using nodes_put [where S = "im_sect s", OF i di len] by simp
  have d: "length (put_dinode (im_sect s ?b) (ioffset i) di) = BSIZE" using len by simp
  note L = tidy_low [OF T b(1) d]
  show "tidy (im_sect s') (nodes (im_sect s')) (im_freeblock s')"
    unfolding N using L(3) unfolding s'_def by (simp del: fun_upd_apply)
  show "ref (im_sect s') (nodes (im_sect s') j) = ref (im_sect s) (nodes (im_sect s') j)"
    "data (im_sect s') (nodes (im_sect s') j) = data (im_sect s) (nodes (im_sect s') j)"
    unfolding N using L(1,2) [of j] unfolding s'_def by (simp_all del: fun_upd_apply)
  show "unat b < 32 \<Longrightarrow> im_sect s' b = im_sect s b" using b32 unfolding s'_def by auto
qed

lemma rinode_runs:
  assumes "unat i < 208"
  shows "rinode i s = Ok (nodes (im_sect s) i) s"
proof -
  have "unat (IBLOCK i mkfs_sb) < 1000" using IBLOCK_low [OF assms] by simp
  then show ?thesis using assms by (simp add: rinode_def krun rsect_ok nodes_def Let_def)
qed

text \<open>Only the addresses of an inode matter for its blocks.\<close>

lemma ref_addrs: "di_addrs di = di_addrs di' \<Longrightarrow> ref S di = ref S di'"
proof (rule ext)
  show "ref S di p = ref S di' p" if "di_addrs di = di_addrs di'" for p using that by (cases p) (auto simp: ref.simps)
qed

lemma data_addrs: "di_addrs di = di_addrs di' \<Longrightarrow> data S di = data S di'"
  using ref_addrs [of di di' S] by (intro ext) (simp add: data_def)

lemma byte_addrs: "di_addrs di = di_addrs di' \<Longrightarrow> byte S di = byte S di'"
  using data_addrs [of di di' S] by (intro ext) (simp add: byte_def)

lemma full_addrs: "di_addrs di = di_addrs di' \<Longrightarrow> full S di = full S di'"
  using ref_addrs [of di di' S] by (intro ext) (simp add: full_def)

lemma tidy_addrs:
  assumes "tidy S nd fb" and "\<And>j. di_addrs (nd' j) = di_addrs (nd j)"
  shows "tidy S nd' fb"
proof -
  have "(\<lambda>i. ref S (nd' i)) = (\<lambda>i. ref S (nd i))" by (intro ext) (simp add: ref_addrs [OF assms(2)])
  then show ?thesis using assms by (simp add: tidy_def)
qed

section \<open>Images\<close>

definition file_of :: "(u32 \<Rightarrow> u8 list) \<Rightarrow> u32 \<Rightarrow> u8 list" where
  "file_of S i = map (byte S (nodes S i)) [0..<unat (di_size (nodes S i))]"

definition sound_image :: "image \<Rightarrow> bool" where
  "sound_image s \<longleftrightarrow> tidy (im_sect s) (nodes (im_sect s)) (im_freeblock s) \<and>
     (\<forall>i. full (im_sect s) (nodes (im_sect s) i) (unat (di_size (nodes (im_sect s) i))))"

text \<open>An image and the files in it: inode \<open>k + 1\<close> has the type and the contents of
  entry \<open>k\<close> of the list, and the blocks in use are those that the files need.\<close>

definition blocks_of :: "(u16 \<times> u8 list) list \<Rightarrow> nat" where
  "blocks_of fs = sum_list (map (\<lambda>(t, c). blocks (length c)) fs)"

definition represents :: "image \<Rightarrow> (u16 \<times> u8 list) list \<Rightarrow> bool" where
  "represents s fs \<longleftrightarrow> sound_image s \<and> im_freeinode s = of_nat (Suc (length fs)) \<and>
     length fs < 208 \<and> unat (im_freeblock s) = nmeta + blocks_of fs \<and>
     (\<forall>k<length fs. let i = of_nat (Suc k); di = nodes (im_sect s) i in
        di_type di = fst (fs ! k) \<and> di_nlink di = 1 \<and> file_of (im_sect s) i = snd (fs ! k))"

section \<open>Operations on images\<close>

text \<open>\<open>iappend\<close> changes one file of a sound image.\<close>

lemma iappend_runs:
  assumes G: "sound_image s" and i: "unat i < 208" and off: "off = unat (di_size (nodes (im_sect s) i))"
    and p: "off + length p \<le> BSIZE * MAXFILE" "unat (im_freeblock s) + blocks (off + length p) \<le> 1000 + blocks off"
  obtains s' as where "iappend i p s = Ok () s'" "sound_image s'"
    "nodes (im_sect s') = (nodes (im_sect s))(i := (nodes (im_sect s) i)\<lparr>di_addrs := as, di_size := of_nat (off + length p)\<rparr>)"
    "file_of (im_sect s') i = file_of (im_sect s) i @ p" "\<And>j. j \<noteq> i \<Longrightarrow> file_of (im_sect s') j = file_of (im_sect s) j"
    "unat (im_freeblock s') + blocks off = unat (im_freeblock s) + blocks (off + length p)"
    "im_freeinode s' = im_freeinode s" "\<And>b. unat b < 32 \<Longrightarrow> im_sect s' b = im_sect s b"
proof -
  let ?nd = "nodes (im_sect s)"
  from G have T: "tidy (im_sect s) ?nd (im_freeblock s)" and F: "\<And>j. full (im_sect s) (?nd j) (unat (di_size (?nd j)))"
    unfolding sound_image_def by blast+
  from iappend_loop_runs [OF T _ p, of i] F [of i] obtain di s1
    where r: "iappend_loop (?nd i) (chunks off (length p)) p s = Ok di s1" and A: "appended i off p s ?nd s1 (?nd(i := di))"
    unfolding off by blast
  note A' = appendedD [OF A]
  from A'(9) obtain as where as: "di = (?nd i)\<lparr>di_addrs := as\<rparr>" by auto
  define di2 where "di2 = di\<lparr>di_size := di_size di + of_nat (length p)\<rparr>"
  have size: "di_size di2 = of_nat (off + length p)" unfolding di2_def as off by (simp add: unat_of_nat)
  have usize: "unat (di_size di2) = off + length p" unfolding size using p(1) by (simp add: unat_of_nat take_bit_nat_eq_self del: of_nat_add)
  have N: "nodes (im_sect s1) = ?nd" by (rule nodes_low) (rule A'(4), simp add: nmeta_value)
  have T1: "tidy (im_sect s1) ((nodes (im_sect s1))(i := di2)) (im_freeblock s1)"
    by (rule tidy_addrs [OF A'(1)]) (simp add: N di2_def)
  define s' where "s' = s1\<lparr>im_sect := (im_sect s1)(IBLOCK i mkfs_sb := put_dinode (im_sect s1 (IBLOCK i mkfs_sb)) (ioffset i) di2)\<rparr>"
  note W = winode_runs [OF i T1, folded s'_def]
  have N': "nodes (im_sect s') = ?nd(i := di2)" using W(2) unfolding N .
  have ext: "full (im_sect s') (nodes (im_sect s') j) = full (im_sect s1) ((?nd(i := di)) j)"
    "byte (im_sect s') (nodes (im_sect s') j) = byte (im_sect s1) ((?nd(i := di)) j)" for j
  proof -
    have e: "di_addrs (nodes (im_sect s') j) = di_addrs ((?nd(i := di)) j)" unfolding N' by (simp add: di2_def)
    show "full (im_sect s') (nodes (im_sect s') j) = full (im_sect s1) ((?nd(i := di)) j)"
      unfolding full_addrs [OF e, symmetric] by (rule ext) (simp only: full_def W(4))
    show "byte (im_sect s') (nodes (im_sect s') j) = byte (im_sect s1) ((?nd(i := di)) j)"
      unfolding byte_addrs [OF e, symmetric] by (rule ext) (simp only: byte_def W(5))
  qed
  have other: "full (im_sect s1) ((?nd(i := di)) j) = full (im_sect s) (?nd j)"
    "byte (im_sect s1) ((?nd(i := di)) j) = byte (im_sect s) (?nd j)" if "j \<noteq> i" for j
    using A'(7,8) [OF that] by (auto simp only: full_def byte_def fun_eq_iff)
  show thesis
  proof
    show "iappend i p s = Ok () s'"
      using r W(1) by (simp add: iappend_def krun rinode_runs [OF i] off [symmetric] di2_def Let_def)
    show "nodes (im_sect s') = ?nd(i := (?nd i)\<lparr>di_addrs := as, di_size := of_nat (off + length p)\<rparr>)"
      unfolding N' using size by (simp add: di2_def as)
    show "file_of (im_sect s') i = file_of (im_sect s) i @ p"
      unfolding file_of_def ext(2) using A'(10) usize by (simp add: N' off)
    show "file_of (im_sect s') j = file_of (im_sect s) j" if "j \<noteq> i" for j
      unfolding file_of_def ext(2) other(2) [OF that] using that by (simp add: N')
    show "unat (im_freeblock s') + blocks off = unat (im_freeblock s) + blocks (off + length p)"
      "im_freeinode s' = im_freeinode s"
      using A'(3,5) unfolding s'_def by simp_all
    show "im_sect s' b = im_sect s b" if "unat b < 32" for b
      using W(6) [OF that] A'(4) [of b] that by (simp add: nmeta_value)
    have "full (im_sect s') (nodes (im_sect s') j) (unat (di_size (nodes (im_sect s') j)))" for j
      unfolding ext(1) using A'(2) F [of j] other(1) [of j] usize by (cases "j = i") (simp_all add: N')
    then show "sound_image s'" unfolding sound_image_def using W(3) by blast
  qed
qed

lemma length_file_of: "length (file_of S i) = unat (di_size (nodes S i))"
  by (simp add: file_of_def)

lemma blocks_of_simps [simp]:
  "blocks_of [] = 0" "blocks_of (x # xs) = blocks (length (snd x)) + blocks_of xs"
  "blocks_of (xs @ ys) = blocks_of xs + blocks_of ys"
  by (simp_all add: blocks_of_def split_beta)

lemma blocks_of_update:
  assumes "k < length fs"
  shows "blocks_of (fs[k := x]) + blocks (length (snd (fs ! k))) = blocks_of fs + blocks (length (snd x))"
  using arg_cong [OF id_take_nth_drop [OF assms], of blocks_of] upd_conv_take_nth_drop [OF assms, of x] by simp

lemma unat_inum: "k < 208 \<Longrightarrow> unat (of_nat k :: u32) = k"
  by (simp add: unat_of_nat take_bit_nat_eq_self)

lemma inum_eq:
  assumes "k < 207" "l < 207"
  shows "(of_nat (Suc k) :: u32) = of_nat (Suc l) \<longleftrightarrow> k = l"
proof
  assume "(of_nat (Suc k) :: u32) = of_nat (Suc l)"
  then have "unat (of_nat (Suc k) :: u32) = unat (of_nat (Suc l) :: u32)" by (rule arg_cong)
  then show "k = l" using unat_inum [of "Suc k"] unat_inum [of "Suc l"] assms by simp
qed simp

lemma representsD:
  assumes "represents s fs"
  shows "sound_image s" "im_freeinode s = of_nat (Suc (length fs))" "length fs < 208"
    "unat (im_freeblock s) = nmeta + blocks_of fs"
    "k < length fs \<Longrightarrow> di_type (nodes (im_sect s) (of_nat (Suc k))) = fst (fs ! k)"
    "k < length fs \<Longrightarrow> di_nlink (nodes (im_sect s) (of_nat (Suc k))) = 1"
    "k < length fs \<Longrightarrow> file_of (im_sect s) (of_nat (Suc k)) = snd (fs ! k)"
  using assms unfolding represents_def Let_def by blast+

lemma iappend_represents:
  assumes R: "represents s fs" and k: "k < length fs" "fs ! k = (t, c)"
    and p: "length c + length p \<le> BSIZE * MAXFILE" "nmeta + blocks_of (fs[k := (t, c @ p)]) \<le> 1000"
  shows "\<exists>s'. iappend (of_nat (Suc k)) p s = Ok () s' \<and> represents s' (fs[k := (t, c @ p)]) \<and>
    (\<forall>b. unat b < 32 \<longrightarrow> im_sect s' b = im_sect s b)"
proof -
  note D = representsD [OF R]
  let ?i = "of_nat (Suc k) :: u32"
  have k207: "k < 207" using k(1) D(3) by simp
  have i: "unat ?i < 208" using unat_inum [of "Suc k"] k207 by linarith
  have off: "length c = unat (di_size (nodes (im_sect s) ?i))" using D(7) [OF k(1)] k(2) length_file_of [of "im_sect s" ?i] by simp
  have B: "blocks_of (fs[k := (t, c @ p)]) + blocks (length c) = blocks_of fs + blocks (length c + length p)"
    using blocks_of_update [OF k(1), of "(t, c @ p)"] k(2) by simp
  have room: "unat (im_freeblock s) + blocks (length c + length p) \<le> 1000 + blocks (length c)"
    using B p(2) unfolding D(4) by linarith
  from iappend_runs [OF D(1) i off p(1) room] obtain s' as where s': "iappend ?i p s = Ok () s'" "sound_image s'"
    and N: "nodes (im_sect s') = (nodes (im_sect s))(?i := (nodes (im_sect s) ?i)\<lparr>di_addrs := as, di_size := of_nat (length c + length p)\<rparr>)"
    and files: "file_of (im_sect s') ?i = file_of (im_sect s) ?i @ p" "\<And>j. j \<noteq> ?i \<Longrightarrow> file_of (im_sect s') j = file_of (im_sect s) j"
    and fb: "unat (im_freeblock s') + blocks (length c) = unat (im_freeblock s) + blocks (length c + length p)"
    and rest: "im_freeinode s' = im_freeinode s" "\<And>b. unat b < 32 \<Longrightarrow> im_sect s' b = im_sect s b"
    by blast
  have "represents s' (fs[k := (t, c @ p)])"
    unfolding represents_def Let_def
  proof (intro conjI allI impI)
    show "unat (im_freeblock s') = nmeta + blocks_of (fs[k := (t, c @ p)])" using fb B unfolding D(4) by linarith
    fix l
    assume "l < length (fs[k := (t, c @ p)])"
    then have l: "l < length fs" by simp
    then have ne: "(of_nat (Suc l) :: u32) = ?i \<longleftrightarrow> l = k" using D(3) k207 by (intro inum_eq) simp_all
    show "di_type (nodes (im_sect s') (of_nat (Suc l))) = fst (fs[k := (t, c @ p)] ! l)"
      "di_nlink (nodes (im_sect s') (of_nat (Suc l))) = 1"
      using D(5,6) [OF l] ne k unfolding N by (cases "l = k"; simp del: of_nat_Suc)+
    show "file_of (im_sect s') (of_nat (Suc l)) = snd (fs[k := (t, c @ p)] ! l)"
      using D(7) [OF l] files ne k by (cases "l = k"; simp del: of_nat_Suc)
  qed (use D s' rest in simp_all)
  with s'(1) rest(2) show ?thesis by blast
qed

text \<open>A new inode has no blocks.\<close>

lemma blank_refs:
  assumes "di_addrs di = replicate (NDIRECT + 1) 0"
  shows "ref S di p = 0"
  using assms by (cases p) (simp_all add: ref.simps nth_replicate del: replicate.simps)

lemma refs_ok_clear:
  assumes R: "refs_ok R fb"
  shows "refs_ok (R(i := (\<lambda>_. 0))) fb"
proof -
  have old: "(R(i := (\<lambda>_. 0))) j p = R j p" if "(R(i := (\<lambda>_. 0))) j p \<noteq> 0" for j p
    using that by (cases "j = i") simp_all
  show ?thesis
    unfolding refs_ok_def
  proof (intro conjI allI impI)
    fix j p k q
    let ?R = "R(i := (\<lambda>_. 0))"
    { assume h: "?R j p \<noteq> 0"
      show "nmeta \<le> unat (?R j p)" "unat (?R j p) < unat fb"
        using refs_okD(1,2) [OF R, of j p] h unfolding old [OF h] by blast+ }
    assume h: "?R j p \<noteq> 0 \<and> ?R j p = ?R k q"
    then have "R j p \<noteq> 0" "R j p = R k q" using old [of j p] old [of k q] by metis+
    then show "j = k" "p = q" using refs_okD(3) [OF R, of j p k q] by blast+
  qed
qed

lemma tidy_blank:
  assumes T: "tidy S nd fb" and di: "di_addrs di = replicate (NDIRECT + 1) 0"
  shows "tidy S (nd(i := di)) fb"
proof -
  note D = tidyD [OF T] and Z = blank_refs [OF di, of S]
  show ?thesis
  proof (rule tidyI)
    have "(\<lambda>j. ref S ((nd(i := di)) j)) = (\<lambda>j. ref S (nd j))(i := (\<lambda>_. 0))" using Z by (auto simp: fun_eq_iff)
    then show "refs_ok (\<lambda>j. ref S ((nd(i := di)) j)) fb" using refs_ok_clear [OF D(6)] by simp
    show "length (di_addrs ((nd(i := di)) j)) = NDIRECT + 1" for j using D(2) di by simp
  qed (rule D(1) D(3-5); assumption)+
qed

lemma mk_ialloc_represents:
  assumes R: "represents s fs" and n: "length fs < 207"
  shows "\<exists>s'. mk_ialloc t s = Ok (of_nat (Suc (length fs))) s' \<and> represents s' (fs @ [(t, [])]) \<and>
    (\<forall>b. unat b < 32 \<longrightarrow> im_sect s' b = im_sect s b)"
proof -
  note D = representsD [OF R]
  let ?i = "of_nat (Suc (length fs)) :: u32" let ?nd = "nodes (im_sect s)"
  let ?di = "\<lparr>di_type = t, di_major = 0, di_minor = 0, di_nlink = 1, di_size = 0, di_addrs = replicate (NDIRECT + 1) 0\<rparr>"
  define s1 where "s1 = s\<lparr>im_freeinode := ?i + 1\<rparr>"
  have i: "unat ?i < 208" using unat_inum [of "Suc (length fs)"] n by linarith
  have G: "tidy (im_sect s1) (nodes (im_sect s1)) (im_freeblock s1)" "\<And>j. full (im_sect s1) (?nd j) (unat (di_size (?nd j)))"
    using D(1) unfolding sound_image_def s1_def by simp_all
  have T1: "tidy (im_sect s1) ((nodes (im_sect s1))(i := ?di)) (im_freeblock s1)" for i
    by (rule tidy_blank [OF G(1)]) simp
  define s' where "s' = s1\<lparr>im_sect := (im_sect s1)(IBLOCK ?i mkfs_sb := put_dinode (im_sect s1 (IBLOCK ?i mkfs_sb)) (ioffset ?i) ?di)\<rparr>"
  note W = winode_runs [OF i T1, folded s'_def]
  have N: "nodes (im_sect s') = ?nd(?i := ?di)" using W(2) unfolding s1_def by simp
  have full: "full (im_sect s') (nodes (im_sect s') j) (unat (di_size (nodes (im_sect s') j)))" for j
  proof (cases "j = ?i")
    case True
    then show ?thesis using blank_refs [of ?di "im_sect s'"] unfolding N full_def by simp
  next
    case False
    then have "nodes (im_sect s') j = ?nd j" unfolding N by simp
    then show ?thesis using G(2) [of j] W(4) [of j] by (simp add: full_def)
  qed
  have files: "file_of (im_sect s') j = (if j = ?i then [] else file_of (im_sect s) j)" for j
  proof -
    have "byte (im_sect s') (nodes (im_sect s') j) = byte (im_sect s) (nodes (im_sect s') j)"
      by (rule ext) (simp add: byte_def W(5) s1_def)
    then show ?thesis unfolding file_of_def N by simp
  qed
  have "represents s' (fs @ [(t, [])])"
    unfolding represents_def Let_def sound_image_def
  proof (intro conjI allI impI W(3) full)
    fix l
    assume "l < length (fs @ [(t, [])])"
    then have l: "l < length fs \<or> l = length fs" by auto
    then have ne: "(of_nat (Suc l) :: u32) = ?i \<longleftrightarrow> l = length fs" using n by (intro inum_eq) auto
    show "di_type (nodes (im_sect s') (of_nat (Suc l))) = fst ((fs @ [(t, [])]) ! l)"
      "di_nlink (nodes (im_sect s') (of_nat (Suc l))) = 1"
      "file_of (im_sect s') (of_nat (Suc l)) = snd ((fs @ [(t, [])]) ! l)"
      using l D(5-7) [of l] ne unfolding N files by (auto simp: nth_append simp del: of_nat_Suc)
  qed (use D n in \<open>simp_all add: s'_def s1_def blocks_def\<close>)
  moreover have "mk_ialloc t s = Ok ?i s'"
    using W(1) unfolding s1_def by (simp add: mk_ialloc_def krun D(2))
  ultimately show ?thesis using W(6) unfolding s1_def by auto
qed

end
