(* ===== verification/Readi.thy ===== *)
theory Readi
  imports Recovery Mkfs_Image
begin

text \<open>
  Reading files through the block cache (\<open>fs.c\<close>): \<open>ilock\<close> loads the inode that is on the
  disk, and \<open>readi\<close> returns the bytes of the blocks that the inode refers to.
\<close>

section \<open>Reading a block\<close>

text \<open>The state after an operation that only reads blocks: nothing is held, no block has
  changed and the inode cache, the superblock and the process are as before.\<close>

definition unmoved :: "kernel \<Rightarrow> kernel \<Rightarrow> bool" where
  "unmoved s v \<longleftrightarrow> calm v \<and> same_blocks s v \<and> k_icache v = k_icache s \<and> k_sb v = k_sb s \<and>
     k_curproc v = k_curproc s"

definition readable :: "kernel \<Rightarrow> bool" where
  "readable s \<longleftrightarrow> calm s \<and> k_disksize s = FSSIZE \<and> card (dirty_blocks s) < NBUF"

lemma unmoved_refl: "calm s \<Longrightarrow> unmoved s s"
  by (simp add: unmoved_def same_blocks_refl)

lemma unmoved_trans: "unmoved s t \<Longrightarrow> unmoved t v \<Longrightarrow> unmoved s v"
  by (simp add: unmoved_def same_blocks_def)

lemma unmoved_readable: "readable s \<Longrightarrow> unmoved s v \<Longrightarrow> readable v"
  by (simp add: unmoved_def readable_def same_blocks_def)

lemma unmoved_view: "unmoved s v \<Longrightarrow> view v = view s"
  by (auto simp: unmoved_def same_blocks_def)

lemma icache_blind [simp]:
  "view (s\<lparr>k_icache := ic\<rparr>) = view s" "dirty_blocks (s\<lparr>k_icache := ic\<rparr>) = dirty_blocks s"
  "ready (s\<lparr>k_icache := ic\<rparr>) \<longleftrightarrow> ready s" "calm (s\<lparr>k_icache := ic\<rparr>) \<longleftrightarrow> calm s"
  "readable (s\<lparr>k_icache := ic\<rparr>) \<longleftrightarrow> readable s"
  by (auto simp: view_def dirty_blocks_def ready_def cache_ok_def calm_def readable_def fun_eq_iff cong: option.case_cong)

lemma keeps_brelse_rest: "keeps (\<lambda>s. (k_icache s, k_sb s, k_curproc s) = z) (brelse b)"
  unfolding brelse_def holdingsleep_def releasesleep_def set_slock_def wakeup_def wakeup1_def get_buf_def
    set_next_def set_prev_def upd_buf_def
  by (intro keep_intros keeps_kmod) (auto simp: mem_blind_def acquire_def release_def intro!: keep_intros keeps_kmod)

lemma read_step:
  assumes s: "readable s" and n: "n < FSSIZE"
  obtains x t where "bread 1 n s = Ok x t" "b_data (k_bcache t ! x) = view s n" "k_icache t = k_icache s" "k_sb t = k_sb s"
    "\<forall>ic. \<exists>v. brelse x (t\<lparr>k_icache := ic\<rparr>) = Ok () v \<and> unmoved (s\<lparr>k_icache := ic\<rparr>) v"
proof -
  from s have rs: "ready s" and free: "\<And>j. j < NBUF \<Longrightarrow> \<not> blocked (k_bcache s ! j)" and d: "card (dirty_blocks s) < NBUF"
    and n': "n < k_disksize s" using n by (simp_all add: readable_def calm_def)
  have ok: "cache_ok s" using rs by (simp add: ready_def)
  obtain j0 where "j0 < NBUF" "\<not> dirty (k_bcache s ! j0)"
    using clean_buffers [OF ok, of "{}"] d by auto
  then obtain x t where x: "bread 1 n s = Ok x t" "opens s n x t"
    using bread_opens [OF rs n'] free by blast
  note rt = opens_ready [OF rs x(2)] and bx = opens_buffer [OF x(2) cache_okD(1) [OF ok]]
  have rest: "k_icache t = k_icache s" "k_sb t = k_sb s" "k_curproc t = k_curproc s" using x(2) by (auto simp: opens_def)
  show thesis
  proof (rule that [OF x(1) bx(4) rest(1,2)], rule allI)
    fix ic
    let ?t = "t\<lparr>k_icache := ic\<rparr>"
    obtain v where v: "brelse x ?t = Ok () v" "ready v" "same_blocks ?t v"
        "\<And>j. blocked (k_bcache v ! j) \<longleftrightarrow> j \<noteq> x \<and> blocked (k_bcache ?t ! j)"
      using brelse_same [of ?t x] rt(1) bx(1,3) by auto
    have "calm v" using v(2,4) free opens_other [OF x(2)] by (auto simp: calm_def)
    moreover have "same_blocks (s\<lparr>k_icache := ic\<rparr>) v"
      using v(3) rt(2) opens_rest [OF x(2)] opens_dirty_blocks [OF rs x(2)]
      by (simp add: same_blocks_def)
    moreover have "(k_icache v, k_sb v, k_curproc v) = (ic, k_sb s, k_curproc s)"
      by (rule keeps_OkD [OF keeps_brelse_rest _ v(1)]) (simp add: rest)
    ultimately show "\<exists>v. brelse x ?t = Ok () v \<and> unmoved (s\<lparr>k_icache := ic\<rparr>) v"
      using v(1) by (auto simp: unmoved_def)
  qed
qed

lemma read_release:
  assumes s: "readable s" and n: "n < FSSIZE"
  obtains x t v where "bread 1 n s = Ok x t" "b_data (k_bcache t ! x) = view s n" "k_icache t = k_icache s"
    "brelse x t = Ok () v" "unmoved s v"
proof (rule read_step [OF s n])
  fix x t
  assume t: "bread 1 n s = Ok x t" "b_data (k_bcache t ! x) = view s n" "k_icache t = k_icache s"
    and rel: "\<forall>ic. \<exists>v. brelse x (t\<lparr>k_icache := ic\<rparr>) = Ok () v \<and> unmoved (s\<lparr>k_icache := ic\<rparr>) v"
  have "t\<lparr>k_icache := k_icache s\<rparr> = t" unfolding t(3) [symmetric] by simp
  with spec [OF rel, of "k_icache s"] that [OF t] show thesis by auto
qed

section \<open>The blocks of a file\<close>

definition node_of :: "inode \<Rightarrow> dinode" where
  "node_of q = \<lparr>di_type = ip_type q, di_major = ip_major q, di_minor = ip_minor q, di_nlink = ip_nlink q,
     di_size = ip_size q, di_addrs = ip_addrs q\<rparr>"

text \<open>The blocks that hold the first \<open>n\<close> bytes of a file are on the disk.\<close>

definition has_bytes :: "(u32 \<Rightarrow> u8 list) \<Rightarrow> dinode \<Rightarrow> nat \<Rightarrow> bool" where
  "has_bytes S di n \<longleftrightarrow> ref S di None < FSSIZE \<and>
     (\<forall>k. BSIZE * k < n \<longrightarrow> k < MAXFILE \<and> ref S di (Some k) \<noteq> 0 \<and> ref S di (Some k) < FSSIZE \<and>
        length (S (ref S di (Some k))) = BSIZE)"

lemma bmap_runs:
  assumes s: "readable s" and q: "q = k_icache s ! ip" "ip_dev q = 1"
    and b: "has_bytes (view s) (node_of q) n" and k: "BSIZE * k < n"
  shows "\<exists>v. bmap ip k s = Ok (ref (view s) (node_of q) (Some k)) v \<and> unmoved s v"
proof -
  let ?x = "ref (view s) (node_of q) (Some k)"
  have x: "k < MAXFILE" "?x \<noteq> 0" and I: "ip_addrs q ! NDIRECT < FSSIZE"
    using b k unfolding has_bytes_def by (auto simp: ref.simps(1) node_of_def)
  show ?thesis
  proof (cases "k < NDIRECT")
    case True
    then have "?x = ip_addrs q ! k" by (simp add: ref.simps node_of_def)
    then have "bmap ip k s = Ok ?x s" using True x(2) q by (simp add: bmap_def get_inode_def krun)
    then show ?thesis using unmoved_refl s by (auto simp: readable_def)
  next
    case False
    then have ind: "ip_addrs q ! NDIRECT \<noteq> 0" "?x = get32 (view s (ip_addrs q ! NDIRECT)) (4 * (k - NDIRECT))"
      using x by (auto simp: ref.simps node_of_def split: if_splits)
    obtain y t v where t: "bread 1 (ip_addrs q ! NDIRECT) s = Ok y t" "b_data (k_bcache t ! y) = view s (ip_addrs q ! NDIRECT)"
      and v: "brelse y t = Ok () v" "unmoved s v"
      by (rule read_release [OF s I])
    have "k - NDIRECT < NINDIRECT" using x(1) False by simp
    then have "bmap ip k s = Ok ?x v"
      using False x(2) ind t(1,2) v(1) q by (simp add: bmap_def get_inode_def buf_data_def krun)
    with v(2) show ?thesis by blast
  qed
qed

lemma chunk_block:
  fixes j off :: nat
  assumes "off \<le> j" "j < off + k" "k \<le> 512 - off mod 512"
  shows "j div 512 = off div 512"
proof -
  have "off = 512 * (off div 512) + off mod 512" "off mod 512 < 512" by simp_all
  then show ?thesis using assms mult_Suc_right [of 512 "off div 512"] by (intro div_nat_eqI) linarith+
qed

lemma get_bytes_chunk:
  assumes "m \<le> 512 - off mod 512" "length d = 512"
  shows "get_bytes d (off mod 512) m = map (\<lambda>j. d ! (j mod 512)) [off..<off + m]"
proof (rule nth_equalityI)
  have r: "off mod 512 + m \<le> 512" using assms(1) mod_less_divisor [of 512 off] by linarith
  then show "length (get_bytes d (off mod 512) m) = length (map (\<lambda>j. d ! (j mod 512)) [off..<off + m])"
    using assms(2) by (simp add: get_bytes_def)
  fix u
  assume "u < length (get_bytes d (off mod 512) m)"
  then have u: "u < m" by (simp add: get_bytes_def)
  have "off + u = 512 * (off div 512) + (off mod 512 + u)" by simp
  then have "(off + u) mod 512 = off mod 512 + u" using u r by (metis mod_mult_self4 mod_less less_le_trans add_less_cancel_left)
  then show "get_bytes d (off mod 512) m ! u = map (\<lambda>j. d ! (j mod 512)) [off..<off + m] ! u"
    using u r assms(2) by (simp add: get_bytes_def)
qed

text \<open>The loop of \<open>readi\<close> returns the bytes of the range.\<close>

lemma readi_loop_runs:
  assumes "readable s" "q = k_icache s ! ip" "ip_dev q = 1" "has_bytes (view s) (node_of q) n" "off + m \<le> n"
  shows "\<exists>v. readi_loop ip (chunks off m) s = Ok (map (byte (view s) (node_of q)) [off..<off + m]) v \<and> unmoved s v"
  using assms
proof (induction m arbitrary: off s rule: less_induct)
  case (less m)
  note s = less.prems(1) and q = less.prems(2,3) and b = less.prems(4)
  show ?case
  proof (cases "m = 0")
    case True
    then show ?thesis using unmoved_refl s by (subst chunks.simps) (auto simp: kret_def readable_def)
  next
    case False
    define k where "k = min m (512 - off mod 512)"
    have "off mod 512 < 512" by simp
    then have k: "0 < k" "k \<le> m" "k \<le> 512 - off mod 512" using False unfolding k_def by auto
    have cs: "chunks off m = (off, k) # chunks (off + k) (m - k)"
      using False by (subst chunks.simps) (simp add: k_def Let_def)
    let ?b = "off div 512" let ?x = "ref (view s) (node_of q) (Some ?b)"
    have "off < n" using less.prems(5) k by simp
    then have kn: "BSIZE * ?b < n" using times_div_less_eq_dividend [of 512 off] by linarith
    from bmap_runs [OF s q b kn] obtain s1 where s1: "bmap ip ?b s = Ok ?x s1" "unmoved s s1" by blast
    have x: "?x \<noteq> 0" "?x < FSSIZE" "length (view s ?x) = 512" using b kn unfolding has_bytes_def by blast+
    note r1 = unmoved_readable [OF s s1(2)] and v1 = unmoved_view [OF s1(2)]
    have q1: "q = k_icache s1 ! ip" using q(1) s1(2) by (simp add: unmoved_def)
    obtain y t v where t: "bread 1 ?x s1 = Ok y t" "b_data (k_bcache t ! y) = view s1 ?x"
      and v: "brelse y t = Ok () v" "unmoved s1 v" by (rule read_release [OF r1 x(2)])
    note sv = unmoved_trans [OF s1(2) v(2)]
    have q2: "q = k_icache v ! ip" using q(1) sv by (simp add: unmoved_def)
    have "\<exists>w. readi_loop ip (chunks (off + k) (m - k)) v = Ok (map (byte (view v) (node_of q)) [off + k..<off + k + (m - k)]) w \<and> unmoved v w"
      by (rule less.IH [OF _ unmoved_readable [OF s sv] q2 q(2)]) (use b k less.prems(5) in \<open>simp_all add: unmoved_view [OF sv]\<close>)
    then obtain w where w: "readi_loop ip (chunks (off + k) (m - k)) v = Ok (map (byte (view s) (node_of q)) [off + k..<off + m]) w" "unmoved v w"
      using k(2) by (auto simp: unmoved_view [OF sv])
    have "byte (view s) (node_of q) j = view s ?x ! (j mod 512)" if "j \<in> set [off..<off + k]" for j
    proof -
      have "j div 512 = ?b" using that k(3) by (intro chunk_block [of off j k]) simp_all
      then show ?thesis using x(1) by (simp add: byte_def data_def)
    qed
    then have "map (byte (view s) (node_of q)) [off..<off + k] = get_bytes (view s ?x) (off mod 512) k"
      using get_bytes_chunk [OF k(3) x(3)] by (simp del: set_upt)
    moreover have "[off..<off + m] = [off..<off + k] @ [off + k..<off + m]"
      using k(2) by (metis le_add_diff_inverse upt_add_eq_append le_add1 add.assoc)
    ultimately have "readi_loop ip (chunks off m) s = Ok (map (byte (view s) (node_of q)) [off..<off + m]) w"
      unfolding cs using s1(1) q1 [symmetric] q(2) t v1 v(1) w(1) by (simp add: get_inode_def buf_data_def krun)
    with unmoved_trans [OF sv w(2)] show ?thesis by blast
  qed
qed

lemma sint_small: "unat (x :: u32) < 2 ^ 31 \<Longrightarrow> sint x = int (unat x)"
proof -
  assume "unat x < 2 ^ 31"
  then have "int (unat x) < int (2 ^ 31)" by (simp only: of_nat_less_iff)
  then have "uint x < 2 ^ 31" by simp
  then have "signed_take_bit 31 (uint x) = uint x"
    using unsigned_greater_eq [of x, where 'a = int] by (intro signed_take_bit_int_eq_self) linarith+
  then show ?thesis by (simp add: sint_uint)
qed

lemma has_bytes_bound: "has_bytes S di n \<Longrightarrow> n \<le> BSIZE * MAXFILE"
  unfolding has_bytes_def by (metis less_irrefl not_le_imp_less)

lemma readi_runs:
  assumes s: "readable s" and q: "q = k_icache s ! ip" "ip_dev q = 1" "ip_type q \<noteq> T_DEV"
    and off: "off \<le> ip_size q" "off \<le> off + n"
  defines "m \<equiv> min (unat n) (unat (ip_size q) - unat off)"
  assumes b: "has_bytes (view s) (node_of q) N" and fit: "unat off + m \<le> N"
  shows "\<exists>v. readi ip off n s = Ok (int m, map (byte (view s) (node_of q)) [unat off..<unat off + m]) v \<and> unmoved s v"
proof -
  let ?n = "if off + n > ip_size q then ip_size q - off else n"
  have o: "unat off \<le> unat (ip_size q)" using off(1) by (simp add: word_le_nat_alt)
  have sum: "unat (off + n) = unat off + unat n" using off(2) unat_plus_simple by blast
  have n: "unat ?n = m"
    using o sum off(1) unfolding m_def by (auto simp: word_less_nat_alt unat_sub)
  have small: "m < 2 ^ 31" using has_bytes_bound [OF b] fit by simp
  obtain v where v: "readi_loop ip (chunks (unat off) m) s = Ok (map (byte (view s) (node_of q)) [unat off..<unat off + m]) v" "unmoved s v"
    using readi_loop_runs [OF s q(1,2) b fit] by blast
  have "\<not> (off > ip_size q \<or> off + n < off)" using off by auto
  moreover have "sint ?n = int m" using sint_small [of ?n] small unfolding n by simp
  ultimately have "readi ip off n s = Ok (int m, map (byte (view s) (node_of q)) [unat off..<unat off + m]) v"
    using v(1) q(1) [symmetric] q(3) unfolding readi_def Let_def by (simp add: get_inode_def krun n)
  with v(2) show ?thesis by blast
qed

section \<open>Loading an inode\<close>

text \<open>An inode in the cache that no one has locked; what \<open>ilock\<close> makes of it.\<close>

definition loaded :: "(u32 \<Rightarrow> u8 list) \<Rightarrow> superblock \<Rightarrow> inode \<Rightarrow> inode" where
  "loaded S sb q =
     (if ip_valid q then q
      else let di = get_dinode (S (IBLOCK (ip_inum q) sb)) (ioffset (ip_inum q)) in
        q\<lparr>ip_type := di_type di, ip_major := di_major di, ip_minor := di_minor di, ip_nlink := di_nlink di,
          ip_size := di_size di, ip_addrs := di_addrs di, ip_valid := True\<rparr>)"

lemma ilock_runs:
  assumes s: "readable s" and ip: "ip < length (k_icache s)" and q: "q = k_icache s ! ip" "ip_dev q = 1" "1 \<le> ip_ref q" "\<not> sl_locked (ip_lock q)"
    and b: "IBLOCK (ip_inum q) (k_sb s) < FSSIZE" and ty: "ip_type (loaded (view s) (k_sb s) q) \<noteq> 0 \<or> ip_valid q"
  shows "\<exists>v l. ilock ip s = Ok () v \<and> sl_locked l \<and>
    unmoved (s\<lparr>k_icache := (k_icache s)[ip := (loaded (view s) (k_sb s) q)\<lparr>ip_lock := l\<rparr>]\<rparr>) v"
proof -
  from s obtain p where p: "k_curproc s = Some p" "k_held s = []" "calm s" by (auto simp: readable_def calm_def ready_def)
  let ?l = "\<lparr>sl_locked = True, sl_pid = p_pid (k_ptable s ! p)\<rparr>"
  let ?q1 = "q\<lparr>ip_lock := ?l\<rparr>" let ?s1 = "s\<lparr>k_icache := (k_icache s)[ip := ?q1]\<rparr>"
  have lock: "acquiresleep (InodeSleep ip) s = Ok () ?s1"
    using p q ip by (simp add: acquiresleep_def acquiresleep_loop_def get_slock_def set_slock_def curproc_def krun)
  show ?thesis
  proof (cases "ip_valid q")
    case True
    then have "ilock ip s = Ok () ?s1" using lock q ip by (simp add: ilock_def get_inode_def krun)
    moreover have "unmoved ?s1 ?s1" using unmoved_refl [of ?s1] p(3) by simp
    ultimately show ?thesis using True by (intro exI [of _ ?s1] exI [of _ ?l]) (simp add: loaded_def)
  next
    case False
    have s1: "readable ?s1" using s by simp
    obtain x t where t: "bread 1 (IBLOCK (ip_inum q) (k_sb s)) ?s1 = Ok x t"
        "b_data (k_bcache t ! x) = view s (IBLOCK (ip_inum q) (k_sb s))" "k_icache t = (k_icache s)[ip := ?q1]"
      and rel: "\<forall>ic. \<exists>v. brelse x (t\<lparr>k_icache := ic\<rparr>) = Ok () v \<and> unmoved (s\<lparr>k_icache := ic\<rparr>) v"
      by (rule read_step [OF s1 b]) simp
    let ?di = "get_dinode (view s (IBLOCK (ip_inum q) (k_sb s))) (ioffset (ip_inum q))"
    let ?q2 = "?q1\<lparr>ip_type := di_type ?di, ip_major := di_major ?di, ip_minor := di_minor ?di, ip_nlink := di_nlink ?di,
          ip_size := di_size ?di, ip_addrs := di_addrs ?di\<rparr>"
    from spec [OF rel, of "(k_icache s)[ip := ?q2]"] obtain v
      where v: "brelse x (t\<lparr>k_icache := (k_icache s)[ip := ?q2]\<rparr>) = Ok () v" "unmoved (s\<lparr>k_icache := (k_icache s)[ip := ?q2]\<rparr>) v"
      by blast
    let ?v = "v\<lparr>k_icache := (k_icache s)[ip := ?q2\<lparr>ip_valid := True\<rparr>]\<rparr>"
    have ic: "k_icache v = (k_icache s)[ip := ?q2]" using v(2) by (simp add: unmoved_def)
    have "di_type ?di \<noteq> 0" using ty False by (simp add: loaded_def Let_def)
    then have "ilock ip s = Ok () ?v"
      using lock q ip False t v(1) ic by (simp add: ilock_def get_inode_def upd_inode_def buf_data_def krun Let_def)
    moreover have "unmoved (s\<lparr>k_icache := (k_icache s)[ip := ?q2\<lparr>ip_valid := True\<rparr>]\<rparr>) ?v"
      using v(2) by (simp add: unmoved_def same_blocks_def)
    moreover have "?q2\<lparr>ip_valid := True\<rparr> = (loaded (view s) (k_sb s) q)\<lparr>ip_lock := ?l\<rparr>"
      using False by (cases q) (simp add: loaded_def Let_def)
    ultimately show ?thesis by (intro exI [of _ ?v] exI [of _ ?l]) (simp only: sleeplock.simps simp_thms)
  qed
qed

end
