(* ===== verification/Mkfs_Build.thy ===== *)
theory Mkfs_Build
  imports Mkfs_Image
begin

text \<open>
  The image that \<open>mkfs\<close> builds: the directory names every file of the command line, the
  inodes hold their contents, the bit map marks the blocks in use.
\<close>

section \<open>The files of an image\<close>

definition entry :: "nat \<Rightarrow> u8 list \<Rightarrow> u8 list" where
  "entry i name = put_dirent \<lparr>de_inum = of_nat i, de_name = strncpy (lview name) 14\<rparr>"

definition stored_name :: "u8 list \<Rightarrow> u8 list" where
  "stored_name name = (if name \<noteq> [] \<and> hd name = 95 then tl name else name)"

definition directory :: "(u8 list \<times> u8 list list) list \<Rightarrow> u8 list" where
  "directory files = entry 1 [46] @ entry 1 [46, 46] @
     concat (map (\<lambda>(i, name, reads). entry i (stored_name name)) (enumerate 2 files))"

definition image_files :: "(u8 list \<times> u8 list list) list \<Rightarrow> (u16 \<times> u8 list) list" where
  "image_files files = (T_DIR, directory files) # map (\<lambda>(name, reads). (T_FILE, concat reads)) files"

text \<open>The files fit: no name has a slash, no file is longer than an inode can hold, and
  there are inodes and blocks for all of them.\<close>

definition fits_image :: "(u8 list \<times> u8 list list) list \<Rightarrow> bool" where
  "fits_image files \<longleftrightarrow> list_all (\<lambda>(name, reads). 47 \<notin> set name \<and> length (concat reads) \<le> BSIZE * MAXFILE) files \<and>
     Suc (length files) < NINODES \<and> nmeta + blocks_of (image_files files) \<le> unat FSSIZE"

lemma length_entry [simp]: "length (entry i name) = 16"
  by (simp add: entry_def put_dirent_def strncpy_def)

lemma directory_snoc: "directory (files @ [(name, reads)]) = directory files @ entry (length files + 2) (stored_name name)"
  by (simp add: directory_def enumerate_append_eq)

lemma length_directory: "length (directory files) = 16 * (length files + 2)"
  by (induction files rule: rev_induct) (auto simp: directory_snoc, simp add: directory_def)

lemma length_image_files [simp]: "length (image_files files) = Suc (length files)"
  by (simp add: image_files_def)

lemma blocks_of_prefix: "blocks_of (image_files xs) \<le> blocks_of (image_files (xs @ ys))"
proof (induction ys rule: rev_induct)
  case (snoc y ys)
  have "blocks (length (directory (xs @ ys))) \<le> blocks (length (directory (xs @ ys @ [y])))"
    by (intro blocks_mono) (simp add: length_directory)
  then show ?case using snoc by (simp add: image_files_def)
qed simp

lemma fits_prefix: "fits_image (xs @ ys) \<Longrightarrow> fits_image xs"
  using blocks_of_prefix [of xs ys] by (auto simp: fits_image_def)

section \<open>One file\<close>

lemma blocks_of_more: "k < length fs \<Longrightarrow> blocks_of (fs[k := (t, c)]) \<le> blocks_of (fs[k := (t, c @ q)])"
  using blocks_of_update [of k fs "(t, c)"] blocks_of_update [of k fs "(t, c @ q)"]
    blocks_mono [of "length c" "length (c @ q)"] by simp

lemma reads_represent:
  assumes "represents s fs" "k < length fs" "fs ! k = (t, c)"
    "length c + length (concat reads) \<le> BSIZE * MAXFILE" "nmeta + blocks_of (fs[k := (t, c @ concat reads)]) \<le> 1000"
  shows "\<exists>s'. kfor reads (iappend (of_nat (Suc k))) s = Ok () s' \<and> represents s' (fs[k := (t, c @ concat reads)]) \<and>
    (\<forall>b. unat b < 32 \<longrightarrow> im_sect s' b = im_sect s b)"
  using assms
proof (induction reads arbitrary: s fs c)
  case Nil
  then show ?case by (simp add: krun) (metis list_update_id)
next
  case (Cons p reads)
  let ?fs = "fs[k := (t, c @ p)]"
  have "nmeta + blocks_of ?fs \<le> 1000" "length c + length p \<le> BSIZE * MAXFILE"
    using Cons.prems(4,5) blocks_of_more [OF Cons.prems(2), of t "c @ p" "concat reads"] by simp_all
  from iappend_represents [OF Cons.prems(1-3) this(2,1)] obtain s1
    where s1: "iappend (of_nat (Suc k)) p s = Ok () s1" "represents s1 ?fs" "\<forall>b. unat b < 32 \<longrightarrow> im_sect s1 b = im_sect s b"
    by blast
  from Cons.IH [OF s1(2), of "c @ p"] Cons.prems obtain s'
    where "kfor reads (iappend (of_nat (Suc k))) s1 = Ok () s'" "represents s' (?fs[k := (t, (c @ p) @ concat reads)])"
      "\<forall>b. unat b < 32 \<longrightarrow> im_sect s' b = im_sect s1 b"
    by auto
  with s1 show ?case by (auto simp: krun simp del: of_nat_Suc)
qed

lemma ucast_inum: "(ucast (of_nat i :: u32) :: u16) = of_nat i"
  by (simp add: unsigned_of_nat word_of_nat_eq_iff)

lemma add_entry_appends: "add_entry ROOTINO (of_nat i) (strncpy (lview name) 14) = iappend (of_nat (Suc 0)) (entry i name)"
  by (simp add: add_entry_def entry_def ucast_inum)

lemma add_file_represents:
  assumes R: "represents s (image_files files)" and fit: "fits_image (files @ [(name, reads)])"
  shows "\<exists>s'. add_file name reads s = Ok () s' \<and> represents s' (image_files (files @ [(name, reads)])) \<and>
    (\<forall>b. unat b < 32 \<longrightarrow> im_sect s' b = im_sect s b)"
proof -
  let ?n = "Suc (length files)" let ?fs = "image_files files" let ?e = "entry (Suc ?n) (stored_name name)"
  have name: "47 \<notin> set name" and len: "length (concat reads) \<le> BSIZE * MAXFILE" and n: "?n < 199"
    and room: "nmeta + blocks_of (image_files (files @ [(name, reads)])) \<le> 1000"
    using fit by (simp_all add: fits_image_def)
  have final: "image_files (files @ [(name, reads)]) =
      (T_DIR, directory files @ ?e) # map (\<lambda>(name, reads). (T_FILE, concat reads)) files @ [(T_FILE, concat reads)]"
    by (simp add: image_files_def directory_snoc)
  from mk_ialloc_represents [OF R, of T_FILE] n obtain s1
    where s1: "mk_ialloc T_FILE s = Ok (of_nat (Suc ?n)) s1" "represents s1 (?fs @ [(T_FILE, [])])"
      "\<forall>b. unat b < 32 \<longrightarrow> im_sect s1 b = im_sect s b"
    by auto
  define fs2 where "fs2 = (?fs @ [(T_FILE, [])])[0 := (T_DIR, directory files @ ?e)]"
  have fs2: "fs2 = (T_DIR, directory files @ ?e) # map (\<lambda>(name, reads). (T_FILE, concat reads)) files @ [(T_FILE, [])]"
    by (simp add: fs2_def image_files_def)
  have "nmeta + blocks_of fs2 \<le> 1000" using room unfolding fs2 final by (simp add: blocks_def)
  moreover have "length (directory files) + length ?e \<le> BSIZE * MAXFILE" using n by (simp add: length_directory)
  ultimately have "\<exists>s'. iappend (of_nat (Suc 0)) ?e s1 = Ok () s' \<and> represents s' fs2 \<and>
      (\<forall>b. unat b < 32 \<longrightarrow> im_sect s' b = im_sect s1 b)"
    unfolding fs2_def by (intro iappend_represents [OF s1(2)]) (simp_all add: image_files_def)
  then obtain s2 where s2: "iappend (of_nat (Suc 0)) ?e s1 = Ok () s2" "represents s2 fs2"
      "\<forall>b. unat b < 32 \<longrightarrow> im_sect s2 b = im_sect s1 b" by blast
  have last: "fs2 ! ?n = (T_FILE, [])" "?n < length fs2" "fs2[?n := (T_FILE, [] @ concat reads)] = image_files (files @ [(name, reads)])"
    unfolding fs2 final by (simp_all add: nth_append list_update_append)
  from reads_represent [OF s2(2) last(2,1), of reads] len room obtain s3
    where "kfor reads (iappend (of_nat (Suc ?n))) s2 = Ok () s3" "represents s3 (image_files (files @ [(name, reads)]))"
      "\<forall>b. unat b < 32 \<longrightarrow> im_sect s3 b = im_sect s2 b"
    unfolding last(3) by auto
  with s1 s2 name show ?thesis
    by (auto simp: add_file_def krun Let_def stored_name_def [symmetric] add_entry_appends [of "Suc ?n", unfolded stored_name_def] simp del: of_nat_Suc)
qed

lemma add_files_represent:
  assumes "represents s (image_files before)" "fits_image (before @ files)"
  shows "\<exists>s'. kfor files (\<lambda>(name, reads). add_file name reads) s = Ok () s' \<and> represents s' (image_files (before @ files)) \<and>
    (\<forall>b. unat b < 32 \<longrightarrow> im_sect s' b = im_sect s b)"
  using assms
proof (induction files arbitrary: s before)
  case (Cons f files)
  obtain name reads where f: "f = (name, reads)" by (cases f)
  have "fits_image (before @ [(name, reads)])" using fits_prefix [of "before @ [f]" files] Cons.prems(2) f by simp
  from add_file_represents [OF Cons.prems(1) this] obtain s1
    where s1: "add_file name reads s = Ok () s1" "represents s1 (image_files (before @ [f]))"
      "\<forall>b. unat b < 32 \<longrightarrow> im_sect s1 b = im_sect s b" unfolding f by blast
  from Cons.IH [OF s1(2)] Cons.prems(2) s1(1,3) show ?case by (auto simp: krun f)
qed (auto simp: krun)

section \<open>The empty image\<close>

lemma wsect_loop:
  "kfor ks (\<lambda>k. wsect (of_nat k) z) s = Ok () (s\<lparr>im_sect := \<lambda>b. if b \<in> of_nat ` set ks then z else im_sect s b\<rparr>)"
proof (induction ks arbitrary: s)
  case (Cons k ks)
  let ?s = "s\<lparr>im_sect := (im_sect s)(of_nat k := z)\<rparr>"
  have "(\<lambda>b. if b \<in> of_nat ` set ks then z else im_sect ?s b) =
      (\<lambda>b. if b \<in> of_nat ` set (k # ks) then z else im_sect s b)"
    by (rule ext) auto
  moreover have "wsect (of_nat k) z s = Ok () ?s" by (simp add: wsect_def krun)
  ultimately show ?case using Cons [of ?s] by (simp add: krun)
qed (simp add: krun)

lemma zero_dinode:
  assumes "a + 64 \<le> BSIZE"
  shows "di_addrs (get_dinode zeros a) = replicate (NDIRECT + 1) 0" "di_size (get_dinode zeros a) = 0"
proof -
  have "map (\<lambda>i. get32 zeros (a + 12 + 4 * i)) [0..<NDIRECT + 1] = map (\<lambda>i. 0) [0..<NDIRECT + 1]"
    using assms by (intro map_cong refl get32_zeros) auto
  then show "di_addrs (get_dinode zeros a) = replicate (NDIRECT + 1) 0" by (simp add: get_dinode_def map_replicate_const)
  show "di_size (get_dinode zeros a) = 0" using assms get32_zeros [of "a + 8"] by (simp add: get_dinode_def)
qed

lemma zero_nodes:
  assumes "\<And>b. 32 \<le> unat b \<Longrightarrow> unat b < 58 \<Longrightarrow> S b = zeros"
  shows "di_addrs (nodes S i) = replicate (NDIRECT + 1) 0" "di_size (nodes S i) = 0"
proof -
  have "\<exists>a. nodes S i = get_dinode zeros a \<and> a + 64 \<le> BSIZE"
  proof (cases "unat i < 208")
    case True
    then have "S (IBLOCK i mkfs_sb) = zeros" using IBLOCK_low assms by blast
    then show ?thesis using True by (intro exI [of _ "ioffset i"]) (simp add: nodes_def ioffset_def)
  next
    case False
    then show ?thesis by (intro exI [of _ 0]) (simp add: nodes_def)
  qed
  then show "di_addrs (nodes S i) = replicate (NDIRECT + 1) 0" "di_size (nodes S i) = 0"
    using zero_dinode by auto
qed

lemma empty_image_represents:
  assumes S: "\<And>b. unat b < 1000 \<Longrightarrow> unat b \<noteq> 1 \<Longrightarrow> im_sect s b = zeros" "length (im_sect s 1) = BSIZE"
    and s: "im_freeblock s = of_nat nmeta" "im_freeinode s = 1"
  shows "represents s []"
proof -
  have R: "ref (im_sect s) (nodes (im_sect s) i) p = 0" for i p
    by (rule blank_refs) (rule zero_nodes(1), rule S(1), simp_all)
  have fb: "unat (im_freeblock s) = nmeta" using s(1) by (simp add: nmeta_value)
  have "tidy (im_sect s) (nodes (im_sect s)) (im_freeblock s)"
  proof (rule tidyI)
    show "length (im_sect s b) = BSIZE" if "unat b < 1000" for b
    proof (cases "unat b = 1")
      case True
      then have "b = 1" by (metis unat_1 word_unat_eq_iff)
      then show ?thesis using S(2) by simp
    qed (use S(1) [OF that] in simp)
    show "im_sect s b = zeros" if "unat (im_freeblock s) \<le> unat b" "unat b < 1000" for b
      using S(1) [OF that(2)] that(1) unfolding fb nmeta_value by simp
    show "refs_ok (\<lambda>i. ref (im_sect s) (nodes (im_sect s) i)) (im_freeblock s)" unfolding refs_ok_def R by simp
  qed (simp_all add: length_nodes fb nmeta_value)
  moreover have "full (im_sect s) (nodes (im_sect s) i) (unat (di_size (nodes (im_sect s) i)))" for i
  proof -
    have "di_size (nodes (im_sect s) i) = 0" by (rule zero_nodes(2), rule S(1)) simp_all
    then show ?thesis unfolding full_def R by simp
  qed
  ultimately show ?thesis unfolding represents_def sound_image_def using s fb by simp
qed

section \<open>The bit map\<close>

lemma bit_clear_iff: "bit_clear d b \<longleftrightarrow> \<not> bit (d ! (b div 8)) (b mod 8)"
  by (simp add: bit_clear_def bit_iff_and_push_bit_not_eq_0)

lemma length_used_bits [simp]: "length (used_bits u) = BSIZE"
  by (induction u) (simp_all add: used_bits_def)

lemma used_bits_Suc: "used_bits (Suc u) = (used_bits u)[u div 8 := used_bits u ! (u div 8) OR push_bit (u mod 8) 1]"
  by (simp add: used_bits_def)

lemma used_bits_clear:
  assumes "u \<le> 4096" "b < 4096"
  shows "bit_clear (used_bits u) b \<longleftrightarrow> u \<le> b"
  using assms
proof (induction u)
  case 0
  then show ?case by (simp add: bit_clear_iff used_bits_def div_less_iff_less_mult)
next
  case (Suc u)
  have "u div 8 < 512" "b div 8 < 512" using Suc.prems by (simp_all add: div_less_iff_less_mult)
  moreover have "bit (push_bit (u mod 8) 1 :: u8) (b mod 8) \<longleftrightarrow> b mod 8 = u mod 8"
    by (auto simp: bit_exp_iff possible_bit_def)
  moreover have "b = u \<longleftrightarrow> b div 8 = u div 8 \<and> b mod 8 = u mod 8" by (metis div_mult_mod_eq)
  ultimately show ?case
    using Suc by (auto simp: bit_clear_iff used_bits_Suc nth_list_update bit_or_iff)
qed

section \<open>The whole image\<close>

lemma mkfs_files_represent:
  assumes fit: "fits_image files" and s: "im_freeinode s = 1"
  obtains s0 s1 s2 s3 s4 where
    "s0 = s\<lparr>im_freeblock := of_nat nmeta, im_sect := (\<lambda>b. if unat b < 1000 then zeros else im_sect s b)
       (1 := put_words zeros 0 (sb_words mkfs_sb))\<rparr>"
    "mk_ialloc T_DIR s0 = Ok ROOTINO s1" "add_entry ROOTINO ROOTINO (strncpy (lview [46]) 14) s1 = Ok () s2"
    "add_entry ROOTINO ROOTINO (strncpy (lview [46, 46]) 14) s2 = Ok () s3"
    "kfor files (\<lambda>(name, reads). add_file name reads) s3 = Ok () s4" "represents s4 (image_files files)"
    "im_sect s4 1 = put_words zeros 0 (sb_words mkfs_sb)"
proof -
  define s0 where "s0 = s\<lparr>im_freeblock := of_nat nmeta, im_sect := (\<lambda>b. if unat b < 1000 then zeros else im_sect s b)
       (1 := put_words zeros 0 (sb_words mkfs_sb))\<rparr>"
  have R0: "represents s0 []" unfolding s0_def using s by (intro empty_image_represents) auto
  from mk_ialloc_represents [OF R0, of T_DIR] obtain s1
    where s1: "mk_ialloc T_DIR s0 = Ok 1 s1" "represents s1 [(T_DIR, [])]" "\<forall>b. unat b < 32 \<longrightarrow> im_sect s1 b = im_sect s0 b"
    by auto
  note small = nmeta_value blocks_def
  from iappend_represents [OF s1(2), of 0 T_DIR "[]" "entry 1 [46]"] obtain s2
    where s2: "iappend (of_nat (Suc 0)) (entry 1 [46]) s1 = Ok () s2" "represents s2 [(T_DIR, entry 1 [46])]"
      "\<forall>b. unat b < 32 \<longrightarrow> im_sect s2 b = im_sect s1 b"
    by (auto simp: small)
  from iappend_represents [OF s2(2), of 0 T_DIR "entry 1 [46]" "entry 1 [46, 46]"] obtain s3
    where s3: "iappend (of_nat (Suc 0)) (entry 1 [46, 46]) s2 = Ok () s3" "represents s3 (image_files [])"
      "\<forall>b. unat b < 32 \<longrightarrow> im_sect s3 b = im_sect s2 b"
    by (auto simp: small image_files_def directory_def)
  from add_files_represent [OF s3(2)] fit obtain s4
    where s4: "kfor files (\<lambda>(name, reads). add_file name reads) s3 = Ok () s4" "represents s4 (image_files files)"
      "\<forall>b. unat b < 32 \<longrightarrow> im_sect s4 b = im_sect s3 b"
    by auto
  have "im_sect s4 1 = im_sect s0 1" using s1(3) s2(3) s3(3) s4(3) by simp
  then have "im_sect s4 1 = put_words zeros 0 (sb_words mkfs_sb)" by (simp add: s0_def)
  with that s0_def s1(1) s2(1) s3(1) s4(1,2) show thesis
    using add_entry_appends [of 1 "[46]"] add_entry_appends [of 1 "[46, 46]"] by simp
qed

text \<open>The last steps of \<open>main\<close>: the size of the directory is rounded up, the bit map written.\<close>

lemma finish_runs:
  assumes R: "represents s (image_files files)" and fit: "fits_image files"
    and din: "din = nodes (im_sect s) ROOTINO" and sz: "sz = (di_size din div of_nat BSIZE + 1) * of_nat BSIZE"
  obtains s' where "winode ROOTINO (din\<lparr>di_size := sz\<rparr>) s = Ok () s'"
    "im_freeblock s' = im_freeblock s" "im_sect s' 1 = im_sect s 1"
    "tidy (im_sect s') (nodes (im_sect s')) (im_freeblock s')"
    "nodes (im_sect s') = (nodes (im_sect s))(ROOTINO := din\<lparr>di_size := sz\<rparr>)"
    "\<And>i. i \<noteq> ROOTINO \<Longrightarrow> file_of (im_sect s') i = file_of (im_sect s) i"
    "take (length (directory files)) (file_of (im_sect s') ROOTINO) = directory files"
    "\<And>j. full (im_sect s') (nodes (im_sect s') j) = full (im_sect s) (nodes (im_sect s) j)"
    "unat (di_size din) = length (directory files)"
proof -
  note D = representsD [OF R]
  let ?nd = "nodes (im_sect s)"
  from D(1) have T: "tidy (im_sect s) ?nd (im_freeblock s)" unfolding sound_image_def by blast
  have T': "tidy (im_sect s) (?nd(ROOTINO := din\<lparr>di_size := sz\<rparr>)) (im_freeblock s)"
    by (rule tidy_addrs [OF T]) (simp add: din)
  have root: "unat ROOTINO < 208" by simp
  define s' where "s' = s\<lparr>im_sect := (im_sect s)(IBLOCK ROOTINO mkfs_sb :=
    put_dinode (im_sect s (IBLOCK ROOTINO mkfs_sb)) (ioffset ROOTINO) (din\<lparr>di_size := sz\<rparr>))\<rparr>"
  note W = winode_runs [OF root T', folded s'_def]
  have B: "byte (im_sect s') (nodes (im_sect s') j) = byte (im_sect s) (?nd j)" for j
  proof -
    have "di_addrs (nodes (im_sect s') j) = di_addrs (?nd j)" unfolding W(2) by (simp add: din)
    from byte_addrs [OF this] show ?thesis by (simp add: byte_def fun_eq_iff W(5))
  qed
  have full: "full (im_sect s') (nodes (im_sect s') j) = full (im_sect s) (?nd j)" for j
  proof -
    have "di_addrs (nodes (im_sect s') j) = di_addrs (?nd j)" unfolding W(2) by (simp add: din)
    from full_addrs [OF this] show ?thesis by (simp add: full_def fun_eq_iff W(4))
  qed
  have dir: "file_of (im_sect s) ROOTINO = directory files" using D(7) [of 0] by (simp add: image_files_def)
  have len: "unat (di_size din) = length (directory files)"
    using length_file_of [of "im_sect s" ROOTINO] unfolding dir din by simp
  have "length (directory files) \<le> 3200" using fit by (simp add: length_directory fits_image_def)
  then have "unat sz = (length (directory files) div 512 + 1) * 512"
    unfolding sz by (simp add: unat_word_ariths unat_div len)
  then have long: "length (directory files) < unat sz" by (simp add: dividend_less_div_times)
  show thesis
  proof (rule that [OF W(1)])
    show "im_sect s' 1 = im_sect s 1" by (rule W(6)) simp
    show "nodes (im_sect s') = ?nd(ROOTINO := din\<lparr>di_size := sz\<rparr>)" by (rule W(2))
    show "file_of (im_sect s') i = file_of (im_sect s) i" if "i \<noteq> ROOTINO" for i
      unfolding file_of_def B using that by (simp add: W(2))
    have "take (length (directory files)) (file_of (im_sect s') ROOTINO) = map (byte (im_sect s) (?nd ROOTINO)) [0..<length (directory files)]"
      unfolding file_of_def B using long by (simp add: W(2) take_map)
    also have "\<dots> = directory files" using dir len by (simp add: file_of_def din)
    finally show "take (length (directory files)) (file_of (im_sect s') ROOTINO) = directory files" .
  qed (use W(3) full len in \<open>simp_all add: s'_def\<close>)
qed

text \<open>The write of the bit map leaves the files alone.\<close>

lemma file_of_low:
  assumes T: "tidy S (nodes S) fb" and b: "b = sb_bmapstart mkfs_sb" and d: "length d = BSIZE"
  shows "file_of (S(b := d)) i = file_of S i" "nodes (S(b := d)) = nodes S" "tidy (S(b := d)) (nodes S) fb"
    "full (S(b := d)) (nodes S i) = full S (nodes S i)"
proof -
  have "unat b = 58" by (simp add: b mkfs_sb_def nlog_def ninodeblocks_def)
  then show N: "nodes (S(b := d)) = nodes S" by (intro nodes_low) auto
  have low: "unat b < nmeta" using \<open>unat b = 58\<close> by (simp add: nmeta_value)
  note L = tidy_low [OF T low d]
  have "byte (S(b := d)) (nodes S i) = byte S (nodes S i)" by (rule ext) (simp only: byte_def L(2))
  then show "file_of (S(b := d)) i = file_of S i" unfolding file_of_def N by simp
  show "tidy (S(b := d)) (nodes S) fb" by (rule L(3))
  show "full (S(b := d)) (nodes S i) = full S (nodes S i)" by (rule ext) (simp only: full_def L(1))
qed

lemma wsect_run: "wsect sec buf s = Ok () (s\<lparr>im_sect := (im_sect s)(sec := buf)\<rparr>)"
  by (simp add: wsect_def krun)

lemma zeroed_sectors: "of_nat ` {0..<1000} = {b :: u32. unat b < 1000}"
proof
  show "{b :: u32. unat b < 1000} \<subseteq> of_nat ` {0..<1000}"
  proof
    fix b :: u32
    assume "b \<in> {b. unat b < 1000}"
    then show "b \<in> of_nat ` {0..<1000}" by (intro image_eqI [of b of_nat "unat b"]) simp_all
  qed
qed (auto simp: unat_of_nat take_bit_nat_eq_self)

lemma zero_image:
  "kfor [0..<unat FSSIZE] (\<lambda>i. wsect (of_nat i) zeros) (s\<lparr>im_freeblock := fb\<rparr>) =
     Ok () (s\<lparr>im_freeblock := fb, im_sect := \<lambda>b. if unat b < 1000 then zeros else im_sect s b\<rparr>)"
  by (simp add: wsect_loop zeroed_sectors cong: if_cong)

lemma mkfs_ends:
  assumes fit: "fits_image files" and s: "im_freeinode s = 1"
  obtains s4 s5 where "represents s4 (image_files files)" "im_sect s5 1 = put_words zeros 0 (sb_words mkfs_sb)"
    "im_freeblock s5 = im_freeblock s4" "tidy (im_sect s5) (nodes (im_sect s5)) (im_freeblock s5)"
    "nodes (im_sect s5) = (nodes (im_sect s4))(ROOTINO := (nodes (im_sect s4) ROOTINO)
       \<lparr>di_size := (di_size (nodes (im_sect s4) ROOTINO) div of_nat BSIZE + 1) * of_nat BSIZE\<rparr>)"
    "\<And>i. i \<noteq> ROOTINO \<Longrightarrow> file_of (im_sect s5) i = file_of (im_sect s4) i"
    "take (length (directory files)) (file_of (im_sect s5) ROOTINO) = directory files"
    "\<And>j. full (im_sect s5) (nodes (im_sect s5) j) = full (im_sect s4) (nodes (im_sect s4) j)"
    "unat (di_size (nodes (im_sect s4) ROOTINO)) = length (directory files)"
    "mkfs files s = Ok () (s5\<lparr>im_sect := (im_sect s5)(sb_bmapstart mkfs_sb := used_bits (unat (im_freeblock s4)))\<rparr>)"
proof -
  from mkfs_files_represent [OF fit s] obtain s0 s1 s2 s3 s4 where
    s0: "s0 = s\<lparr>im_freeblock := of_nat nmeta, im_sect := (\<lambda>b. if unat b < 1000 then zeros else im_sect s b)
       (1 := put_words zeros 0 (sb_words mkfs_sb))\<rparr>"
    and runs: "mk_ialloc T_DIR s0 = Ok ROOTINO s1" "add_entry ROOTINO ROOTINO (strncpy (lview [46]) 14) s1 = Ok () s2"
      "add_entry ROOTINO ROOTINO (strncpy (lview [46, 46]) 14) s2 = Ok () s3"
      "kfor files (\<lambda>(name, reads). add_file name reads) s3 = Ok () s4"
    and R: "represents s4 (image_files files)" and sb: "im_sect s4 1 = put_words zeros 0 (sb_words mkfs_sb)" .
  note D = representsD [OF R]
  have start: "mkfs files s = (kbind (rinode ROOTINO) (\<lambda>din. kseq (winode ROOTINO (din\<lparr>di_size := (di_size din div of_nat BSIZE + 1) * of_nat BSIZE\<rparr>))
      (kbind (kget im_freeblock) (\<lambda>used. mk_balloc (unat used))))) s4"
    using runs unfolding s0 by (simp add: mkfs_def krun zero_image [simplified] wsect_run Let_def)
  have u: "unat (im_freeblock s4) \<le> 1000" using D(4) fit by (simp add: fits_image_def)
  show thesis
  proof (rule finish_runs [OF R fit refl refl])
    fix s5
    assume W: "winode ROOTINO ((nodes (im_sect s4) ROOTINO)\<lparr>di_size := (di_size (nodes (im_sect s4) ROOTINO) div of_nat BSIZE + 1) * of_nat BSIZE\<rparr>) s4 = Ok () s5"
        "im_freeblock s5 = im_freeblock s4" "im_sect s5 1 = im_sect s4 1"
      and rest: "tidy (im_sect s5) (nodes (im_sect s5)) (im_freeblock s5)"
        "nodes (im_sect s5) = (nodes (im_sect s4))(ROOTINO := (nodes (im_sect s4) ROOTINO)\<lparr>di_size := (di_size (nodes (im_sect s4) ROOTINO) div of_nat BSIZE + 1) * of_nat BSIZE\<rparr>)"
        "\<And>i. i \<noteq> ROOTINO \<Longrightarrow> file_of (im_sect s5) i = file_of (im_sect s4) i"
        "take (length (directory files)) (file_of (im_sect s5) ROOTINO) = directory files"
        "\<And>j. full (im_sect s5) (nodes (im_sect s5) j) = full (im_sect s4) (nodes (im_sect s4) j)"
        "unat (di_size (nodes (im_sect s4) ROOTINO)) = length (directory files)"
    have "mkfs files s = Ok () (s5\<lparr>im_sect := (im_sect s5)(sb_bmapstart mkfs_sb := used_bits (unat (im_freeblock s4)))\<rparr>)"
      unfolding start using rinode_runs [of ROOTINO s4] W(1,2) u by (simp add: krun mk_balloc_def wsect_def)
    with that [OF R _ W(2) rest] W(3) sb show thesis by simp
  qed
qed

lemma mkfs_runs:
  assumes fit: "fits_image files" and s: "im_freeinode s = 1"
  shows "\<exists>s'. mkfs files s = Ok () s' \<and>
    im_sect s' 1 = put_words zeros 0 (sb_words mkfs_sb) \<and>
    di_type (nodes (im_sect s') ROOTINO) = T_DIR \<and>
    take (length (directory files)) (file_of (im_sect s') ROOTINO) = directory files \<and>
    (\<forall>k<length files. di_type (nodes (im_sect s') (of_nat (k + 2))) = T_FILE \<and>
       file_of (im_sect s') (of_nat (k + 2)) = concat (snd (files ! k))) \<and>
    refs_ok (\<lambda>i. ref (im_sect s') (nodes (im_sect s') i)) (im_freeblock s') \<and>
    (\<forall>b<BPB. bit_clear (im_sect s' (BBLOCK 0 mkfs_sb)) b \<longleftrightarrow> unat (im_freeblock s') \<le> b) \<and>
    tidy (im_sect s') (nodes (im_sect s')) (im_freeblock s') \<and>
    di_nlink (nodes (im_sect s') ROOTINO) = 1 \<and>
    full (im_sect s') (nodes (im_sect s') ROOTINO) (length (directory files)) \<and>
    (\<forall>i. i \<noteq> ROOTINO \<longrightarrow> full (im_sect s') (nodes (im_sect s') i) (unat (di_size (nodes (im_sect s') i))))"
proof (rule mkfs_ends [OF fit s])
  fix s4 s5
  assume R: "represents s4 (image_files files)" and sb: "im_sect s5 1 = put_words zeros 0 (sb_words mkfs_sb)"
    and fb: "im_freeblock s5 = im_freeblock s4" and T: "tidy (im_sect s5) (nodes (im_sect s5)) (im_freeblock s5)"
    and N: "nodes (im_sect s5) = (nodes (im_sect s4))(ROOTINO := (nodes (im_sect s4) ROOTINO)\<lparr>di_size := (di_size (nodes (im_sect s4) ROOTINO) div of_nat BSIZE + 1) * of_nat BSIZE\<rparr>)"
    and F: "\<And>i. i \<noteq> ROOTINO \<Longrightarrow> file_of (im_sect s5) i = file_of (im_sect s4) i"
      "take (length (directory files)) (file_of (im_sect s5) ROOTINO) = directory files"
    and full: "\<And>j. full (im_sect s5) (nodes (im_sect s5) j) = full (im_sect s4) (nodes (im_sect s4) j)"
    and len: "unat (di_size (nodes (im_sect s4) ROOTINO)) = length (directory files)"
    and run: "mkfs files s = Ok () (s5\<lparr>im_sect := (im_sect s5)(sb_bmapstart mkfs_sb := used_bits (unat (im_freeblock s4)))\<rparr>)"
  note D = representsD [OF R]
  let ?u = "unat (im_freeblock s4)" let ?s6 = "s5\<lparr>im_sect := (im_sect s5)(sb_bmapstart mkfs_sb := used_bits ?u)\<rparr>"
  note L = file_of_low [OF T refl length_used_bits [of ?u]]
  have u: "?u \<le> 1000" using D(4) fit by (simp add: fits_image_def)
  have full4: "full (im_sect s4) (nodes (im_sect s4) i) (unat (di_size (nodes (im_sect s4) i)))" for i
    using D(1) by (simp add: sound_image_def)
  have full6: "full (im_sect ?s6) (nodes (im_sect ?s6) i) = full (im_sect s4) (nodes (im_sect s4) i)" for i
    using L(4) [of i] full [of i] by (simp add: L(2) del: fun_upd_apply)
  have files: "di_type (nodes (im_sect ?s6) (of_nat (k + 2))) = T_FILE \<and>
      file_of (im_sect ?s6) (of_nat (k + 2)) = concat (snd (files ! k))" if k: "k < length files" for k
  proof -
    have "Suc k < 207" using k fit by (simp add: fits_image_def)
    then have root: "(of_nat (k + 2) :: u32) \<noteq> ROOTINO" using inum_eq [of "Suc k" 0] by simp
    have "image_files files ! Suc k = (T_FILE, concat (snd (files ! k)))" using k by (simp add: image_files_def split_beta)
    then show ?thesis using D(5,7) [of "Suc k"] k root F(1) [OF root] by (simp add: L(1,2) N add.commute)
  qed
  show ?thesis
  proof (intro exI [of _ ?s6] conjI allI impI run)
    show "im_sect ?s6 1 = put_words zeros 0 (sb_words mkfs_sb)" using sb by (simp add: mkfs_sb_def nlog_def ninodeblocks_def)
    show "di_type (nodes (im_sect ?s6) ROOTINO) = T_DIR" "di_nlink (nodes (im_sect ?s6) ROOTINO) = 1"
      using D(5,6) [of 0] by (simp_all add: L(2) N image_files_def del: fun_upd_apply) simp_all
    show "take (length (directory files)) (file_of (im_sect ?s6) ROOTINO) = directory files"
      using F(2) by (simp add: L(1) del: fun_upd_apply)
    show "refs_ok (\<lambda>i. ref (im_sect ?s6) (nodes (im_sect ?s6) i)) (im_freeblock ?s6)"
      using tidyD(6) [OF L(3)] by (simp add: L(2) del: fun_upd_apply)
    show "bit_clear (im_sect ?s6 (BBLOCK 0 mkfs_sb)) b \<longleftrightarrow> unat (im_freeblock ?s6) \<le> b" if "b < BPB" for b
      using used_bits_clear [of ?u b] u that fb by (simp add: BBLOCK_def)
    show "tidy (im_sect ?s6) (nodes (im_sect ?s6)) (im_freeblock ?s6)"
      using L(3) by (simp add: L(2) del: fun_upd_apply)
    show "full (im_sect ?s6) (nodes (im_sect ?s6) ROOTINO) (length (directory files))"
      unfolding full6 using full4 [of ROOTINO] len by simp
    show "full (im_sect ?s6) (nodes (im_sect ?s6) i) (unat (di_size (nodes (im_sect ?s6) i)))" if "i \<noteq> ROOTINO" for i
      unfolding full6 using full4 [of i] that by (simp add: L(2) N)
  qed (use files in blast)+
qed

text \<open>C2 (mkfs.c): \<open>mkfs\<close> builds the file system it is asked for. If the files fit (no slash in
  a name, no file longer than an inode can hold, inodes and blocks for all of them), the
  program runs to its end without a failed assertion, whatever was in the image file
  before. The superblock is in sector 1. The directory of the root inode starts with
  \<open>.\<close>, \<open>..\<close> and one entry per file, under its name without a leading underscore; the inode
  of the entry is a plain file with exactly the bytes read from that file. No two blocks
  of files share a sector, every block in use lies between the meta data and the first
  free block, and the bit map, as the kernel tests it, marks exactly the blocks below the
  first free one.\<close>

theorem mkfs_builds_image:
  assumes fit: "fits_image files" and s: "im_freeinode s = 1"
  shows "\<exists>s'. mkfs files s = Ok () s' \<and>
    im_sect s' 1 = put_words zeros 0 (sb_words mkfs_sb) \<and>
    di_type (nodes (im_sect s') ROOTINO) = T_DIR \<and>
    take (length (directory files)) (file_of (im_sect s') ROOTINO) = directory files \<and>
    (\<forall>k<length files. di_type (nodes (im_sect s') (of_nat (k + 2))) = T_FILE \<and>
       file_of (im_sect s') (of_nat (k + 2)) = concat (snd (files ! k))) \<and>
    refs_ok (\<lambda>i. ref (im_sect s') (nodes (im_sect s') i)) (im_freeblock s') \<and>
    (\<forall>b<BPB. bit_clear (im_sect s' (BBLOCK 0 mkfs_sb)) b \<longleftrightarrow> unat (im_freeblock s') \<le> b)"
  using mkfs_runs [OF fit s] by blast

theorem mkfs_builds_image_witness:
  "\<exists>s'. mkfs [([95, 115, 104], [[1, 2, 3], [4]])] \<lparr>im_sect = \<lambda>_. [], im_freeinode = 1, im_freeblock = 0\<rparr> = Ok () s' \<and>
    file_of (im_sect s') 2 = [1, 2, 3, 4] \<and> take 48 (file_of (im_sect s') ROOTINO) = directory [([95, 115, 104], [[1, 2, 3], [4]])]"
proof -
  let ?files = "[([95, 115, 104], [[1, 2, 3], [4]])] :: (u8 list \<times> u8 list list) list"
  have "fits_image ?files"
    by (simp add: fits_image_def image_files_def length_directory blocks_def nmeta_value)
  from mkfs_builds_image [OF this, of "\<lparr>im_sect = \<lambda>_. [], im_freeinode = 1, im_freeblock = 0\<rparr>"]
  obtain s' where s': "mkfs ?files \<lparr>im_sect = \<lambda>_. [], im_freeinode = 1, im_freeblock = 0\<rparr> = Ok () s'"
    "take (length (directory ?files)) (file_of (im_sect s') ROOTINO) = directory ?files"
    "\<forall>k<length ?files. file_of (im_sect s') (of_nat (k + 2)) = concat (snd (?files ! k))" by auto
  have "file_of (im_sect s') 2 = [1, 2, 3, 4]" using spec [OF s'(3), of 0] by simp
  moreover have "length (directory ?files) = 48" by (simp add: length_directory)
  ultimately show ?thesis using s'(1,2) by auto
qed

end
