(* ===== verification/Mkfs_Boot.thy ===== *)
theory Mkfs_Boot
  imports Readi Mkfs_Build
begin

text \<open>
  The kernel on an image built by \<open>mkfs\<close>: \<open>iinit\<close> reads the superblock, \<open>namei\<close> finds
  the files in the root directory by their names and \<open>readi\<close> returns their contents.
\<close>

section \<open>Names and entries\<close>

definition name_ok :: "u8 list \<Rightarrow> bool" where
  "name_ok nm \<longleftrightarrow> nm \<noteq> [] \<and> length nm \<le> DIRSIZ \<and> 0 \<notin> set nm \<and> 47 \<notin> set nm"

lemma cstr_name: "0 \<notin> set nm \<Longrightarrow> length nm \<le> n \<Longrightarrow> cstr (lview nm) 0 n = nm"
proof (induction nm arbitrary: n)
  case Nil
  then show ?case by (cases n) (simp_all add: lview_def)
next
  case (Cons c nm)
  then show ?case by (cases n) (simp_all add: cstr_lview_Cons)
qed

lemma namecmp_stored:
  assumes "name_ok a" "name_ok b"
  shows "namecmp a (strncpy (lview b) 14) = 0 \<longleftrightarrow> a = b"
  using assms cstr_name [of a 14] cstr_name [of b 14]
  by (simp add: namecmp_def strncmp_def strncmp_from_0_iff strncpy_def strncpy_from_cstr name_ok_def)

definition listing :: "(u8 list \<times> u8 list list) list \<Rightarrow> (nat \<times> u8 list) list" where
  "listing files = [(1, [46]), (1, [46, 46])] @ map (\<lambda>(i, name, reads). (i, stored_name name)) (enumerate 2 files)"

lemma directory_listing: "directory files = concat (map (\<lambda>(i, nm). entry i nm) (listing files))"
  by (simp add: directory_def listing_def comp_def) (simp add: case_prod_unfold)

lemma length_listing [simp]: "length (listing files) = length files + 2"
  by (simp add: listing_def)

lemma listing_file: "k < length files \<Longrightarrow> listing files ! (k + 2) = (k + 2, stored_name (fst (files ! k)))"
  by (simp add: listing_def nth_append nth_enumerate_eq split_beta)

lemma concat_slice:
  assumes "\<forall>e\<in>set es. length e = c" "j < length es" "u < c"
  shows "concat es ! (c * j + u) = es ! j ! u"
  using assms
proof (induction es arbitrary: j)
  case (Cons e es)
  then show ?case by (cases j) (auto simp: nth_append)
qed simp

lemma directory_slice:
  assumes "j < length files + 2"
  shows "map ((!) (directory files)) [16 * j..<16 * j + 16] = (case listing files ! j of (i, nm) \<Rightarrow> entry i nm)"
proof (rule nth_equalityI)
  show "length (map ((!) (directory files)) [16 * j..<16 * j + 16]) = length (case listing files ! j of (i, nm) \<Rightarrow> entry i nm)"
    by (simp add: split_beta)
  fix u
  assume "u < length (map ((!) (directory files)) [16 * j..<16 * j + 16])"
  then show "map ((!) (directory files)) [16 * j..<16 * j + 16] ! u = (case listing files ! j of (i, nm) \<Rightarrow> entry i nm) ! u"
    unfolding directory_listing using assms concat_slice [of "map (\<lambda>(i, nm). entry i nm) (listing files)" 16 j u]
    by (auto simp: split_beta)
qed

lemma get_dirent_entry: "get_dirent (entry i nm) = \<lparr>de_inum = of_nat i, de_name = strncpy (lview nm) 14\<rparr>"
  using join16 [of "of_nat i"]
  by (simp add: get_dirent_def entry_def put_dirent_def get16_def get_bytes_def strncpy_def)

section \<open>What is on the disk\<close>

definition holds_files :: "(u8 list \<times> u8 list list) list \<Rightarrow> (u32 \<Rightarrow> u8 list) \<Rightarrow> bool" where
  "holds_files files S \<longleftrightarrow> S 1 = put_words zeros 0 (sb_words mkfs_sb) \<and>
     di_type (nodes S ROOTINO) = T_DIR \<and> has_bytes S (nodes S ROOTINO) (length (directory files)) \<and>
     length (directory files) \<le> unat (di_size (nodes S ROOTINO)) \<and> di_nlink (nodes S ROOTINO) \<noteq> 0 \<and>
     map (byte S (nodes S ROOTINO)) [0..<length (directory files)] = directory files \<and>
     (\<forall>k<length files. di_type (nodes S (of_nat (k + 2))) = T_FILE \<and>
        has_bytes S (nodes S (of_nat (k + 2))) (unat (di_size (nodes S (of_nat (k + 2))))) \<and>
        file_of S (of_nat (k + 2)) = concat (snd (files ! k)))"

lemma full_has_bytes:
  assumes T: "tidy S nd fb" and F: "full S (nd i) n" and n: "n \<le> BSIZE * MAXFILE"
  shows "has_bytes S (nd i) n"
proof -
  have lt: "ref S (nd i) p < FSSIZE \<and> length (S (ref S (nd i) p)) = BSIZE" if "ref S (nd i) p \<noteq> 0" for p
  proof -
    have "unat (ref S (nd i) p) < 1000"
      by (rule less_le_trans [OF refs_okD(2) [OF tidyD(6) [OF T] that] tidyD(5) [OF T]])
    then show ?thesis using tidyD(1) [OF T] by (simp add: word_less_nat_alt)
  qed
  show ?thesis
    unfolding has_bytes_def
  proof (intro conjI allI impI)
    show "ref S (nd i) None < FSSIZE" using lt [of None] by (cases "ref S (nd i) None = 0") simp_all
    fix k
    assume k: "BSIZE * k < n"
    then show "k < MAXFILE" using n by simp
    then have "ref S (nd i) (Some k) \<noteq> 0" using F k unfolding full_def by blast
    then show "ref S (nd i) (Some k) \<noteq> 0" "ref S (nd i) (Some k) < FSSIZE" "length (S (ref S (nd i) (Some k))) = BSIZE"
      using lt by blast+
  qed
qed

lemma mkfs_holds_files:
  assumes fit: "fits_image files" and s: "im_freeinode s = 1" and run: "mkfs files s = Ok () s'"
  shows "holds_files files (im_sect s')"
proof -
  let ?S = "im_sect s'"
  from mkfs_runs [OF fit s] run have sb: "?S 1 = put_words zeros 0 (sb_words mkfs_sb)" and ty: "di_type (nodes ?S ROOTINO) = T_DIR"
    and dir: "take (length (directory files)) (file_of ?S ROOTINO) = directory files"
    and files: "\<And>k. k < length files \<Longrightarrow> di_type (nodes ?S (of_nat (k + 2))) = T_FILE \<and> file_of ?S (of_nat (k + 2)) = concat (snd (files ! k))"
    and T: "tidy ?S (nodes ?S) (im_freeblock s')" and F: "full ?S (nodes ?S ROOTINO) (length (directory files))"
      "\<And>i. i \<noteq> ROOTINO \<Longrightarrow> full ?S (nodes ?S i) (unat (di_size (nodes ?S i)))"
    and nlink: "di_nlink (nodes ?S ROOTINO) = 1"
    by auto
  have len: "length (directory files) \<le> unat (di_size (nodes ?S ROOTINO))"
    using arg_cong [OF dir, of length] length_file_of [of ?S ROOTINO] by simp
  have "map (byte ?S (nodes ?S ROOTINO)) [0..<length (directory files)] = directory files"
    using dir len by (simp add: file_of_def take_map)
  moreover have "has_bytes ?S (nodes ?S ROOTINO) (length (directory files))"
    using fit by (intro full_has_bytes [OF T F(1)]) (simp add: length_directory fits_image_def)
  moreover have "has_bytes ?S (nodes ?S (of_nat (k + 2))) (unat (di_size (nodes ?S (of_nat (k + 2)))))" if k: "k < length files" for k
  proof -
    have "Suc k < 207" using k fit by (simp add: fits_image_def)
    then have root: "(of_nat (k + 2) :: u32) \<noteq> ROOTINO" using inum_eq [of "Suc k" 0] by simp
    have "length (concat (snd (files ! k))) \<le> BSIZE * MAXFILE"
      using fit k by (auto simp: fits_image_def list_all_length split_beta)
    then show ?thesis
      using files [OF k] length_file_of [of ?S "of_nat (k + 2)"] by (intro full_has_bytes [OF T F(2) [OF root]]) simp
  qed
  ultimately show ?thesis unfolding holds_files_def using sb ty len nlink files by simp
qed

section \<open>Looking up a name\<close>

lemma nth_of_map: "map f [0..<length xs] = xs \<Longrightarrow> u < length xs \<Longrightarrow> f u = xs ! u"
  by (metis add_0 diff_zero length_upt nth_map nth_upt)

text \<open>An inode with contents of the directory in the cache.\<close>

lemma read_entry:
  assumes s: "readable s" and q: "q = k_icache s ! dp" "ip_dev q = 1" "node_of q = nodes (view s) ROOTINO"
    and H: "holds_files files (view s)" and j: "j < length files + 2" "length files < 200" and e: "listing files ! j = (i, nm)"
  shows "\<exists>v. readi dp (of_nat (16 * j)) 16 s = Ok (16, entry i nm) v \<and> unmoved s v"
proof -
  let ?n = "nodes (view s) ROOTINO" let ?off = "of_nat (16 * j) :: u32"
  have off: "unat ?off = 16 * j" using j by (simp add: unat_of_nat take_bit_nat_eq_self del: of_nat_mult)
  have size: "ip_size q = di_size ?n" "ip_type q = di_type ?n" unfolding q(3) [symmetric] by (simp_all add: node_of_def)
  from H have b: "has_bytes (view s) (node_of q) (length (directory files))" and long: "length (directory files) \<le> unat (ip_size q)"
    and ty: "ip_type q \<noteq> T_DEV" and dir: "map (byte (view s) (node_of q)) [0..<length (directory files)] = directory files"
    unfolding holds_files_def q(3) size by simp_all
  have fit: "16 * j + 16 \<le> length (directory files)" using j by (simp add: length_directory)
  have le: "?off \<le> ip_size q" using off fit long by (simp add: word_le_nat_alt)
  have add: "?off \<le> ?off + 16" using off j by (simp add: word_le_nat_alt unat_word_ariths)
  have m: "min (unat (16 :: u32)) (unat (ip_size q) - 16 * j) = 16" using fit long by simp
  from readi_runs [OF s q(1,2) ty le add b] fit obtain v
    where v: "readi dp ?off 16 s = Ok (16, map (byte (view s) (node_of q)) [16 * j..<16 * j + 16]) v" "unmoved s v"
    unfolding off m by auto
  have "map (byte (view s) (node_of q)) [16 * j..<16 * j + 16] = map ((!) (directory files)) [16 * j..<16 * j + 16]"
    using fit by (intro map_cong refl nth_of_map [OF dir]) simp
  then show ?thesis using v directory_slice [OF j(1)] e by simp
qed

text \<open>The loop of \<open>dirlookup\<close> stops at the first entry with the name.\<close>

lemma dirlookup_loop_finds:
  assumes "readable s" "q = k_icache s ! dp" "ip_dev q = 1" "node_of q = nodes (view s) ROOTINO"
    "holds_files files (view s)" "length files < 200" "j \<le> K" "K < e" "K < length files + 2"
    "listing files ! K = (i, nm)" "(of_nat i :: u16) \<noteq> 0" "name_ok nm"
    "\<forall>l<K. name_ok (snd (listing files ! l)) \<and> snd (listing files ! l) \<noteq> nm"
  shows "\<exists>t. unmoved s t \<and> dirlookup_loop dp nm (map (\<lambda>i. of_nat (16 * i)) [j..<e]) s =
    kbind (iget 1 (ucast (of_nat i :: u16))) (\<lambda>ip. kret (Some (ip, of_nat (16 * K)))) t"
  using assms
proof (induction "K - j" arbitrary: j s)
  case 0
  note s = 0(2) and q = 0(3-5) and H = 0(6,7)
  have j: "j = K" using 0(1,8) by simp
  from read_entry [OF s q H(1) 0(10) H(2) 0(11)] obtain v
    where v: "readi dp (of_nat (16 * K)) 16 s = Ok (16, entry i nm) v" "unmoved s v" by blast
  have qv: "k_icache v ! dp = q" using v(2) q(1) by (simp add: unmoved_def)
  have "[j..<e] = K # [Suc K..<e]" using 0(9) j by (simp add: upt_conv_Cons)
  moreover have "namecmp nm (strncpy (lview nm) 14) = 0" using namecmp_stored 0(13) by blast
  ultimately have "dirlookup_loop dp nm (map (\<lambda>i. of_nat (16 * i)) [j..<e]) s =
      kbind (iget 1 (ucast (of_nat i :: u16))) (\<lambda>ip. kret (Some (ip, of_nat (16 * K)))) v"
    using v(1) 0(12) qv q(2) by (simp add: krun get_dirent_entry get_inode_def Let_def del: of_nat_mult)
  with v(2) show ?case by blast
next
  case (Suc d)
  note s = Suc(3) and q = Suc(4-6) and H = Suc(7,8)
  have j: "j < K" using Suc(2) by simp
  obtain i' nm' where e: "listing files ! j = (i', nm')" by (cases "listing files ! j")
  have jl: "j < length files + 2" using j Suc(11) by simp
  from read_entry [OF s q H(1) jl H(2) e] obtain v
    where v: "readi dp (of_nat (16 * j)) 16 s = Ok (16, entry i' nm') v" "unmoved s v" by blast
  have nm': "name_ok nm'" "nm' \<noteq> nm" using Suc(15) j e by auto
  note r = unmoved_readable [OF s v(2)] and vw = unmoved_view [OF v(2)]
  have qv: "q = k_icache v ! dp" using v(2) q(1) by (simp add: unmoved_def)
  have d: "d = K - Suc j" using Suc(2) by simp
  from Suc(1) [OF d r qv] Suc.prems j vw
  obtain t where t: "unmoved v t" "dirlookup_loop dp nm (map (\<lambda>i. of_nat (16 * i)) [Suc j..<e]) v =
      kbind (iget 1 (ucast (of_nat i :: u16))) (\<lambda>ip. kret (Some (ip, of_nat (16 * K)))) t" by auto
  have "[j..<e] = j # [Suc j..<e]" using Suc(10) j by (simp add: upt_conv_Cons)
  moreover have "namecmp nm (strncpy (lview nm') 14) \<noteq> 0" using namecmp_stored Suc(14) nm' by blast
  ultimately have "dirlookup_loop dp nm (map (\<lambda>i. of_nat (16 * i)) [j..<e]) s =
      dirlookup_loop dp nm (map (\<lambda>i. of_nat (16 * i)) [Suc j..<e]) v"
    using v(1) by (simp add: krun get_dirent_entry Let_def del: of_nat_mult)
  with t unmoved_trans [OF v(2) t(1)] show ?case by auto
qed

section \<open>The inode cache\<close>

lemma iget_miss:
  assumes "k_held s = []" "\<forall>q\<in>set (k_icache s). ip_ref q > 0 \<longrightarrow> ip_inum q \<noteq> inum"
    "find_slot (\<lambda>q. ip_ref q = 0) (k_icache s) = Some ip"
  shows "iget dev inum s = Ok ip (s\<lparr>k_icache := (k_icache s)[ip := (k_icache s ! ip)\<lparr>ip_dev := dev, ip_inum := inum, ip_ref := 1, ip_valid := False\<rparr>]\<rparr>)"
proof -
  have "find_slot (\<lambda>q. ip_ref q > 0 \<and> ip_dev q = dev \<and> ip_inum q = inum) (k_icache s) = None"
    using assms(2) by (auto simp: find_from_None)
  then show ?thesis using assms(1,3) by (simp add: iget_def upd_inode_def krun)
qed

text \<open>The state of the table of processes does not matter to the cache.\<close>

lemma ptable_blind [simp]:
  "view (s\<lparr>k_ptable := p\<rparr>) = view s" "dirty_blocks (s\<lparr>k_ptable := p\<rparr>) = dirty_blocks s"
  "ready (s\<lparr>k_ptable := p\<rparr>) \<longleftrightarrow> ready s" "calm (s\<lparr>k_ptable := p\<rparr>) \<longleftrightarrow> calm s"
  "readable (s\<lparr>k_ptable := p\<rparr>) \<longleftrightarrow> readable s"
  by (auto simp: view_def dirty_blocks_def ready_def cache_ok_def calm_def readable_def fun_eq_iff cong: option.case_cong)

lemma iunlockput_runs:
  assumes s: "ready s" and ip: "ip < length (k_icache s)" and q: "q = k_icache s ! ip" "sl_locked (ip_lock q)" "1 \<le> ip_ref q" "ip_nlink q \<noteq> 0"
  shows "\<exists>p l. iunlockput ip s = Ok () (s\<lparr>k_icache := (k_icache s)[ip := q\<lparr>ip_lock := l, ip_ref := ip_ref q - 1\<rparr>], k_ptable := p\<rparr>) \<and>
    \<not> sl_locked l"
proof -
  from s obtain p where p: "k_curproc s = Some p" "k_held s = []" by (auto simp: ready_def)
  let ?l = "\<lparr>sl_locked = False, sl_pid = 0\<rparr>"
  show ?thesis
    using p ip q
    by (intro exI [of _ "map (wake (Some (ChanSleep (InodeSleep ip)))) (map (wake (Some (ChanSleep (InodeSleep ip)))) (k_ptable s))"] exI [of _ ?l])
      (simp add: iunlockput_def iunlock_def iput_def holdingsleep_def releasesleep_def acquiresleep_def acquiresleep_loop_def
        get_slock_def set_slock_def wakeup_def wakeup1_def curproc_def get_inode_def upd_inode_def krun)
qed

definition fresh_icache :: "kernel \<Rightarrow> bool" where
  "fresh_icache s \<longleftrightarrow> length (k_icache s) = NINODE \<and> (\<forall>q\<in>set (k_icache s). ip_ref q = 0 \<and> \<not> sl_locked (ip_lock q))"

definition names_ok :: "(u8 list \<times> u8 list list) list \<Rightarrow> bool" where
  "names_ok files \<longleftrightarrow> distinct (map (\<lambda>f. stored_name (fst f)) files) \<and>
     list_all (\<lambda>f. name_ok (stored_name (fst f)) \<and> stored_name (fst f) \<noteq> [46] \<and> stored_name (fst f) \<noteq> [46, 46]) files"

lemma u16_of_nat: "n < 65536 \<Longrightarrow> unat (of_nat n :: u16) = n" "n < 65536 \<Longrightarrow> ucast (of_nat n :: u16) = (of_nat n :: u32)"
  by (simp_all add: unat_of_nat unsigned_of_nat take_bit_nat_eq_self)

lemma path_of_name: "name_ok nm \<Longrightarrow> path_elems (47 # nm) = [(nm, [])]"
proof -
  assume nm: "name_ok nm"
  then have a: "dropWhile (\<lambda>c. c = 47) nm = nm" by (cases nm) (auto simp: name_ok_def)
  have b: "takeWhile (\<lambda>c. c \<noteq> 47) nm = nm" "dropWhile (\<lambda>c. c \<noteq> 47) nm = []"
    using nm by (auto simp: name_ok_def takeWhile_eq_all_conv)
  have "skipelem (47 # nm) = Some (nm, [])" using nm by (simp add: skipelem_def Let_def a b) (simp add: name_ok_def)
  moreover have "skipelem [] = None" by (simp add: skipelem_def)
  ultimately show ?thesis by (simp add: path_elems.simps)
qed

lemma listing_names:
  assumes "names_ok files" "k < length files" "nm = stored_name (fst (files ! k))"
  shows "name_ok nm" "\<forall>l<k + 2. name_ok (snd (listing files ! l)) \<and> snd (listing files ! l) \<noteq> nm"
proof -
  have N: "name_ok (stored_name (fst (files ! l)))" "stored_name (fst (files ! l)) \<noteq> [46]" "stored_name (fst (files ! l)) \<noteq> [46, 46]"
    if "l < length files" for l using assms(1) that by (auto simp: names_ok_def list_all_length)
  show "name_ok nm" using N assms(2,3) by simp
  show "\<forall>l<k + 2. name_ok (snd (listing files ! l)) \<and> snd (listing files ! l) \<noteq> nm"
  proof (intro allI impI)
    fix l
    assume l: "l < k + 2"
    consider "l = 0" | "l = 1" | l' where "l = l' + 2" "l' < k" using l by (metis One_nat_def add_2_eq_Suc' less_Suc_eq_0_disj Suc_less_eq)
    then show "name_ok (snd (listing files ! l)) \<and> snd (listing files ! l) \<noteq> nm"
    proof cases
      case 3
      then have "stored_name (fst (files ! l')) \<noteq> nm"
        using assms nth_eq_iff_index_eq [of "map (\<lambda>f. stored_name (fst f)) files" l' k] by (simp add: names_ok_def)
      then show ?thesis using 3 assms(2) listing_file [of l' files] N(1) [of l'] by simp
    qed (use N(2,3) [OF assms(2)] assms(3) in \<open>auto simp: listing_def name_ok_def\<close>)
  qed
qed

lemma namei_finds:
  assumes s: "readable s" and sb: "k_sb s = mkfs_sb" and fr: "fresh_icache s"
    and H: "holds_files files (view s)" and n: "length files < 200" and ok: "names_ok files"
    and k: "k < length files" "nm = stored_name (fst (files ! k))"
  shows "\<exists>v q. namei (47 # nm) s = Ok (Some 1) v \<and> readable v \<and> view v = view s \<and> k_sb v = mkfs_sb \<and> 1 < length (k_icache v) \<and>
    q = k_icache v ! 1 \<and> ip_dev q = 1 \<and> ip_inum q = of_nat (k + 2) \<and> ip_ref q = 1 \<and> \<not> ip_valid q \<and> \<not> sl_locked (ip_lock q)"
proof -
  from fr obtain a b cs where C: "k_icache s = a # b # cs" unfolding fresh_icache_def
    by (cases "k_icache s"; cases "tl (k_icache s)") auto
  have zero: "ip_ref a = 0" "ip_ref b = 0" "\<forall>q\<in>set cs. ip_ref q = 0" "\<not> sl_locked (ip_lock a)" "\<not> sl_locked (ip_lock b)"
    using fr unfolding fresh_icache_def C by simp_all
  let ?S = "view s"
  have held: "k_held s = []" using s by (simp add: readable_def calm_def ready_def)
  let ?r = "a\<lparr>ip_dev := 1, ip_inum := 1, ip_ref := 1, ip_valid := False\<rparr>"
  define s1 where "s1 = s\<lparr>k_icache := ?r # b # cs\<rparr>"
  have get: "iget ROOTDEV ROOTINO s = Ok 0 s1"
    using iget_miss [OF held, of 1 0 1] zero by (auto simp: C s1_def)
  have s1: "readable s1" "view s1 = ?S" "k_sb s1 = mkfs_sb" "k_icache s1 = ?r # b # cs" using s sb by (simp_all add: s1_def)
  define r where "r = loaded ?S mkfs_sb ?r"
  have "get_dinode (?S (IBLOCK 1 mkfs_sb)) (ioffset 1) = nodes ?S ROOTINO" by (simp add: nodes_def)
  then have root: "node_of r = nodes ?S ROOTINO" "ip_dev r = 1" "ip_inum r = 1" "ip_ref r = 1" "ip_valid r"
    unfolding r_def by (simp_all add: loaded_def node_of_def Let_def)
  then have rt: "ip_type r = T_DIR" "ip_nlink r \<noteq> 0" "ip_size r = di_size (nodes ?S ROOTINO)"
    using H unfolding holds_files_def root(1) [symmetric] by (simp_all add: node_of_def)
  let ?K = "k + 2" let ?i = "of_nat (k + 2) :: u32"
  have "\<exists>v l. ilock 0 s1 = Ok () v \<and> sl_locked l \<and> unmoved (s1\<lparr>k_icache := (k_icache s1)[0 := r\<lparr>ip_lock := l\<rparr>]\<rparr>) v"
    unfolding r_def s1(2,3) [symmetric]
  proof (rule ilock_runs [OF s1(1)])
    show "IBLOCK (ip_inum ?r) (k_sb s1) < FSSIZE" unfolding s1(3) by (simp add: IBLOCK_def mkfs_sb_def nlog_def)
    show "ip_type (loaded (view s1) (k_sb s1) ?r) \<noteq> 0 \<or> ip_valid ?r" using rt(1) unfolding s1(2,3) r_def by simp
  qed (use zero in \<open>simp_all add: s1(4)\<close>)
  then obtain v1 l where lock: "ilock 0 s1 = Ok () v1" "sl_locked l" and v1': "unmoved (s1\<lparr>k_icache := r\<lparr>ip_lock := l\<rparr> # b # cs\<rparr>) v1"
    by (auto simp: s1(4))
  have v1: "readable v1" "view v1 = ?S" "k_sb v1 = mkfs_sb" "k_icache v1 = r\<lparr>ip_lock := l\<rparr> # b # cs"
    using unmoved_readable [OF _ v1'] unmoved_view [OF v1'] v1' s1 by (auto simp: unmoved_def)
  let ?e = "(unat (ip_size r) + 15) div 16"
  have e: "?K < ?e" using H k(1) unfolding holds_files_def rt(3) by (auto simp: length_directory less_eq_div_iff_mult_less_eq Suc_le_eq [symmetric])
  have K: "?K < length files + 2" "listing files ! ?K = (?K, nm)" "(of_nat ?K :: u16) \<noteq> 0"
  proof -
    have "unat (of_nat ?K :: u16) = ?K" using k n by (intro u16_of_nat(1)) simp
    then show "(of_nat ?K :: u16) \<noteq> 0" by (metis add_is_0 unat_0 zero_neq_numeral)
  qed (use k listing_file [of k files] in simp_all)
  obtain t where t': "unmoved v1 t" and loop: "dirlookup_loop 0 nm (map (\<lambda>i. of_nat (16 * i)) [0..<?e]) v1 =
      kbind (iget 1 (ucast (of_nat ?K :: u16))) (\<lambda>ip. kret (Some (ip, of_nat (16 * ?K)))) t"
    using dirlookup_loop_finds [OF v1(1), of "r\<lparr>ip_lock := l\<rparr>" 0 files 0 ?K ?e ?K nm] v1 H n e K root listing_names [OF ok k]
    by (auto simp: node_of_def)
  have t: "readable t" "view t = ?S" "k_sb t = mkfs_sb" "k_icache t = r\<lparr>ip_lock := l\<rparr> # b # cs"
    using unmoved_readable [OF v1(1) t'] unmoved_view [OF t'] t' v1 by (auto simp: unmoved_def)
  have cast: "ucast (of_nat ?K :: u16) = ?i" using k n by (intro u16_of_nat(2)) simp
  let ?q = "b\<lparr>ip_dev := 1, ip_inum := ?i, ip_ref := 1, ip_valid := False\<rparr>"
  define t2 where "t2 = t\<lparr>k_icache := r\<lparr>ip_lock := l\<rparr> # ?q # cs\<rparr>"
  have ne: "?i \<noteq> 1" using inum_eq [of "Suc k" 0] k n by simp
  have held_t: "k_held t = []" using t(1) by (simp add: readable_def calm_def ready_def)
  have get2: "iget 1 ?i t = Ok 1 t2"
    using iget_miss [OF held_t, of ?i 1 1] zero root ne by (auto simp: t(4) t2_def)
  have t2: "readable t2" "view t2 = ?S" "k_sb t2 = mkfs_sb" using t by (simp_all add: t2_def)
  have rdy: "ready t2" using t2(1) unfolding readable_def calm_def by blast
  have ic2: "k_icache t2 = r\<lparr>ip_lock := l\<rparr> # ?q # cs" by (simp add: t2_def)
  have "\<exists>p l'. iunlockput 0 t2 = Ok () (t2\<lparr>k_icache := (k_icache t2)[0 := (r\<lparr>ip_lock := l\<rparr>)\<lparr>ip_lock := l', ip_ref := ip_ref (r\<lparr>ip_lock := l\<rparr>) - 1\<rparr>], k_ptable := p\<rparr>) \<and> \<not> sl_locked l'"
    by (rule iunlockput_runs [OF rdy]) (use lock(2) root(4) rt(2) in \<open>simp_all add: ic2\<close>)
  then obtain p q0 where put: "iunlockput 0 t2 = Ok () (t2\<lparr>k_icache := q0 # ?q # cs, k_ptable := p\<rparr>)"
    unfolding ic2 by auto
  let ?v = "t2\<lparr>k_icache := q0 # ?q # cs, k_ptable := p\<rparr>"
  have look: "dirlookup 0 nm v1 = Ok (Some (1, of_nat (16 * ?K))) t2"
    using v1(4) rt(1) loop get2 cast by (simp add: dirlookup_def get_inode_def dir_offsets_def krun del: of_nat_mult)
  have "namei (47 # nm) s = Ok (Some 1) ?v"
    using get lock(1) look put v1(4) rt(1) path_of_name [OF listing_names(1) [OF ok k]]
    by (simp add: namei_def namex_def krun get_inode_def)
  then show ?thesis using t2 zero by (intro exI [of _ ?v] exI [of _ ?q]) simp
qed

section \<open>Mounting the image\<close>

lemma initsleeplocks_run:
  "n \<le> length (k_icache s) \<Longrightarrow> \<exists>C. kfor [0..<n] (\<lambda>i. initsleeplock (InodeSleep i)) s = Ok () (s\<lparr>k_icache := C\<rparr>) \<and>
     length C = length (k_icache s) \<and> (\<forall>i<length C. ip_ref (C ! i) = ip_ref (k_icache s ! i)) \<and>
     (\<forall>i<n. \<not> sl_locked (ip_lock (C ! i)))"
proof (induction n)
  case 0
  then show ?case by (intro exI [of _ "k_icache s"]) (simp add: krun)
next
  case (Suc n)
  then obtain C where C: "kfor [0..<n] (\<lambda>i. initsleeplock (InodeSleep i)) s = Ok () (s\<lparr>k_icache := C\<rparr>)"
    "length C = length (k_icache s)" "\<forall>i<length C. ip_ref (C ! i) = ip_ref (k_icache s ! i)" "\<forall>i<n. \<not> sl_locked (ip_lock (C ! i))"
    by auto
  let ?C = "C[n := (C ! n)\<lparr>ip_lock := \<lparr>sl_locked = False, sl_pid = 0\<rparr>\<rparr>]"
  have "kfor [0..<Suc n] (\<lambda>i. initsleeplock (InodeSleep i)) s = Ok () (s\<lparr>k_icache := ?C\<rparr>)"
    using C(1) by (simp add: kfor_append krun initsleeplock_def set_slock_def)
  then show ?case using C Suc.prems by (intro exI [of _ ?C]) (auto simp: nth_list_update less_Suc_eq)
qed

lemma superblock_read:
  assumes "d = put_words zeros 0 (sb_words mkfs_sb)"
  shows "\<lparr>sb_size = get32 d 0, sb_nblocks = get32 d 4, sb_ninodes = get32 d 8, sb_nlog = get32 d 12,
    sb_logstart = get32 d 16, sb_inodestart = get32 d 20, sb_bmapstart = get32 d 24\<rparr> = mkfs_sb"
proof -
  have "get32 d (4 * k) = sb_words mkfs_sb ! k" if "k < 7" for k
    using get32_put_words [of k "sb_words mkfs_sb" 0 zeros] that by (simp add: assms sb_words_def)
  from this [of 0] this [of 1] this [of 2] this [of 3] this [of 4] this [of 5] this [of 6] show ?thesis
    by (simp add: sb_words_def)
qed

lemma sb_message:
  "\<exists>out. cprintf_out (bytes (''sb: size %d nblocks %d ninodes %d nlog %d logstart %d inodestart %d bmap start %d'' @ [CHR 0x0A]))
    [ArgInt a, ArgInt b, ArgInt c, ArgInt d, ArgInt e, ArgInt f, ArgInt g] = Some out"
  by (simp add: bytes_def)

lemma cons_sb_blind [simp]:
  "view (s\<lparr>k_cons := c\<rparr>) = view s" "readable (s\<lparr>k_cons := c\<rparr>) \<longleftrightarrow> readable s"
  "view (s\<lparr>k_sb := sb\<rparr>) = view s" "readable (s\<lparr>k_sb := sb\<rparr>) \<longleftrightarrow> readable s"
  by (auto simp: view_def dirty_blocks_def ready_def cache_ok_def calm_def readable_def fun_eq_iff cong: option.case_cong)

lemma iinit_runs:
  assumes s: "readable s" and ic: "length (k_icache s) = NINODE" "\<forall>q\<in>set (k_icache s). ip_ref q = 0"
    and sb: "view s 1 = put_words zeros 0 (sb_words mkfs_sb)"
  shows "\<exists>v. iinit ROOTDEV s = Ok () v \<and> readable v \<and> view v = view s \<and> k_sb v = mkfs_sb \<and> fresh_icache v"
proof -
  obtain C where C: "kfor [0..<NINODE] (\<lambda>i. initsleeplock (InodeSleep i)) s = Ok () (s\<lparr>k_icache := C\<rparr>)"
    "length C = length (k_icache s)" "\<forall>i<length C. ip_ref (C ! i) = ip_ref (k_icache s ! i)" "\<forall>i<NINODE. \<not> sl_locked (ip_lock (C ! i))"
    using initsleeplocks_run [of NINODE s] ic by auto
  let ?s = "s\<lparr>k_icache := C\<rparr>"
  have n1: "(1 :: u32) < FSSIZE" by simp
  obtain x t v where t: "bread 1 1 ?s = Ok x t" "b_data (k_bcache t ! x) = view ?s 1" "brelse x t = Ok () v" and v: "unmoved ?s v"
    by (rule read_release [of ?s, OF _ n1]) (use s in auto)
  have rb: "readsb 1 ?s = Ok mkfs_sb v"
    using t superblock_read [OF sb] by (simp add: readsb_def buf_data_def krun)
  have r: "readable v" "view v = view s" "k_icache v = C"
    using unmoved_readable [OF _ v] unmoved_view [OF v] v s by (simp_all add: unmoved_def)
  have held: "k_held v = []" using r(1) by (simp add: readable_def calm_def ready_def)
  obtain out where out: "cprintf_out (bytes (''sb: size %d nblocks %d ninodes %d nlog %d logstart %d inodestart %d bmap start %d'' @ [CHR 0x0A]))
      [ArgInt (sb_size mkfs_sb), ArgInt (sb_nblocks mkfs_sb), ArgInt (sb_ninodes mkfs_sb), ArgInt (sb_nlog mkfs_sb),
        ArgInt (sb_logstart mkfs_sb), ArgInt (sb_inodestart mkfs_sb), ArgInt (sb_bmapstart mkfs_sb)] = Some out"
    using sb_message by blast
  let ?v = "v\<lparr>k_sb := mkfs_sb, k_cons := k_cons v @ out\<rparr>"
  have "iinit ROOTDEV s = Ok () ?v"
    unfolding iinit_def using C(1) rb held out by (simp add: krun del: append.simps)
  moreover have "fresh_icache ?v"
    using C ic by (auto simp: fresh_icache_def r(3) all_set_conv_all_nth)
  ultimately show ?thesis using r by (intro exI [of _ ?v]) simp
qed

section \<open>Reading a file by its name\<close>

text \<open>Mount the file system, look a path up, lock the inode and read from its start.\<close>

definition read_path :: "u8 list \<Rightarrow> u32 \<Rightarrow> (int \<times> u8 list) K" where
  "read_path path n =
     kseq (iinit ROOTDEV) (
     kbind (namei path) (\<lambda>r.
     case r of None \<Rightarrow> kret (-1, []) | Some ip \<Rightarrow> kseq (ilock ip) (readi ip 0 n)))"

lemma take_map_upt: "take n (map f [0..<m]) = map f [0..<min n m]"
  by (cases "n \<le> m") (simp_all add: take_map)

lemma read_inode:
  assumes s: "readable s" and sb: "k_sb s = mkfs_sb" and H: "holds_files files (view s)"
    and k: "k < length files" "length files < 200" and ip: "ip < length (k_icache s)" "q = k_icache s ! ip"
    and q: "ip_dev q = 1" "ip_inum q = of_nat (k + 2)" "ip_ref q = 1" "\<not> ip_valid q" "\<not> sl_locked (ip_lock q)"
  defines "c \<equiv> concat (snd (files ! k))"
  shows "\<exists>v. kseq (ilock ip) (readi ip 0 n) s = Ok (int (min (unat n) (length c)), take (unat n) c) v"
proof -
  let ?S = "view s" let ?i = "of_nat (k + 2) :: u32" let ?di = "nodes ?S ?i"
  have i: "unat ?i < 208" using unat_inum [of "k + 2"] k by linarith
  from H k(1) have ty: "di_type ?di = T_FILE" and b: "has_bytes ?S ?di (unat (di_size ?di))" and fl: "file_of ?S ?i = c"
    unfolding holds_files_def c_def by blast+
  have di: "get_dinode (?S (IBLOCK (ip_inum q) mkfs_sb)) (ioffset (ip_inum q)) = ?di" using i by (simp add: nodes_def q(2) del: of_nat_add)
  let ?r = "loaded ?S mkfs_sb q"
  have r: "node_of ?r = ?di" "ip_dev ?r = 1" using q(1,4) by (simp_all add: loaded_def di Let_def node_of_def del: of_nat_add)
  have rt: "ip_type ?r = T_FILE" "ip_size ?r = di_size ?di" using ty unfolding r(1) [symmetric] by (simp_all add: node_of_def)
  have "IBLOCK (ip_inum q) mkfs_sb < FSSIZE" using IBLOCK_low [OF i] unfolding q(2) by (simp add: word_less_nat_alt del: of_nat_add)
  then obtain v l where v: "ilock ip s = Ok () v" "unmoved (s\<lparr>k_icache := (k_icache s)[ip := ?r\<lparr>ip_lock := l\<rparr>]\<rparr>) v"
    using ilock_runs [OF s ip q(1) _ q(5)] q(3) rt(1) unfolding sb by auto
  let ?q = "?r\<lparr>ip_lock := l\<rparr>"
  have V: "readable v" "view v = ?S" "?q = k_icache v ! ip"
    using unmoved_readable [OF _ v(2)] unmoved_view [OF v(2)] v(2) s ip(1) by (simp_all add: unmoved_def)
  have node: "node_of ?q = ?di" "ip_dev ?q = 1" "ip_type ?q \<noteq> T_DEV" "ip_size ?q = di_size ?di"
    using r rt by (simp_all add: node_of_def)
  have b': "has_bytes (view v) (node_of ?q) (unat (di_size ?di))" using b unfolding V(2) node(1) .
  have len: "length c = unat (di_size ?di)" using length_file_of [of ?S ?i] fl by simp
  have "\<exists>w. readi ip 0 n v = Ok (int (min (unat n) (unat (ip_size ?q) - unat (0 :: u32))),
      map (byte (view v) (node_of ?q)) [unat (0 :: u32)..<unat (0 :: u32) + min (unat n) (unat (ip_size ?q) - unat (0 :: u32))]) w \<and> unmoved v w"
    by (rule readi_runs [OF V(1,3) node(2,3) _ _ b']) (unfold node(4), simp, simp, unfold unat_0 add_0 diff_zero, rule min.cobounded2)
  then obtain w where w: "readi ip 0 n v = Ok (int (min (unat n) (length c)), map (byte ?S ?di) [0..<min (unat n) (length c)]) w"
    unfolding node(1,4) V(2) len by auto
  have "map (byte ?S ?di) [0..<min (unat n) (length c)] = take (unat n) c"
    using len unfolding fl [symmetric] file_of_def by (simp add: take_map_upt)
  with w v(1) show ?thesis by (auto simp: krun)
qed

text \<open>C3 (fs.c, bio.c, mkfs.c): The kernel reads back what \<open>mkfs\<close> stored. Start it, with the
  memory disk, an empty inode cache and no block modified in memory, on the disk that \<open>mkfs\<close> has made from
  a list of files. Mounting the disk, looking up the path of a file of the list (its name
  without a leading underscore, in the root directory), locking the inode that was found
  and reading \<open>n\<close> bytes from its start returns the first \<open>n\<close> bytes of that file, or
  the whole file if it is shorter, with their number. The names are assumed to be
  distinct, not empty, not longer than \<open>DIRSIZ\<close> and other than \<open>.\<close> and \<open>..\<close>.\<close>

theorem kernel_reads_mkfs_image:
  assumes image: "fits_image files" "names_ok files" "im_freeinode i = 1" "mkfs files i = Ok () im"
    and kernel: "calm s" "k_disksize s = FSSIZE" "k_disk s = im_sect im" "\<forall>j<NBUF. \<not> dirty (k_bcache s ! j)"
      "length (k_icache s) = NINODE" "\<forall>q\<in>set (k_icache s). ip_ref q = 0"
    and k: "k < length files" "files ! k = (name, reads)"
  shows "\<exists>v. read_path (47 # stored_name name) n s =
    Ok (int (min (unat n) (length (concat reads))), take (unat n) (concat reads)) v"
proof -
  have n: "length files < 200" using image(1) by (simp add: fits_image_def)
  have "cache_ok s" using kernel(1) by (simp add: calm_def ready_def)
  then have view: "view s = k_disk s" using view_undirty [of s] kernel(4) by blast
  have H: "holds_files files (view s)" unfolding view kernel(3) by (rule mkfs_holds_files [OF image(1,3,4)])
  have "dirty_blocks s = {}" using kernel(4) by (auto simp: dirty_blocks_def)
  then have "readable s" using kernel(1,2) by (simp add: readable_def)
  moreover have "view s 1 = put_words zeros 0 (sb_words mkfs_sb)" using H unfolding holds_files_def by blast
  ultimately obtain s1 where s1: "iinit ROOTDEV s = Ok () s1" "readable s1" "view s1 = view s" "k_sb s1 = mkfs_sb" "fresh_icache s1"
    using iinit_runs [OF _ kernel(5,6)] by blast
  from namei_finds [OF s1(2,4,5) _ n image(2) k(1) refl] H s1(3) obtain s2 q
    where s2: "namei (47 # stored_name name) s1 = Ok (Some 1) s2" "readable s2" "view s2 = view s" "k_sb s2 = mkfs_sb" "1 < length (k_icache s2)"
      and q: "q = k_icache s2 ! 1" "ip_dev q = 1" "ip_inum q = of_nat (k + 2)" "ip_ref q = 1" "\<not> ip_valid q" "\<not> sl_locked (ip_lock q)"
    unfolding k(2) fst_conv by auto
  from read_inode [OF s2(2,4) _ k(1) n s2(5) q, of n] H s2(3) k(2)
  obtain v where "kseq (ilock 1) (readi 1 0 n) s2 = Ok (int (min (unat n) (length (concat reads))), take (unat n) (concat reads)) v"
    by auto
  then show ?thesis using s1(1) s2(1) by (auto simp: read_path_def krun)
qed

theorem kernel_reads_mkfs_image_witness:
  "\<exists>im s v. mkfs [([95, 115, 104], [[1, 2, 3], [4]])] \<lparr>im_sect = \<lambda>_. [], im_freeinode = 1, im_freeblock = 0\<rparr> = Ok () im \<and>
    k_disk s = im_sect im \<and> read_path [47, 115, 104] 3 s = Ok (3, [1, 2, 3]) v"
proof -
  let ?files = "[([95, 115, 104], [[1, 2, 3], [4]])] :: (u8 list \<times> u8 list list) list"
  let ?i = "\<lparr>im_sect = \<lambda>_. [], im_freeinode = 1, im_freeblock = 0\<rparr>" and ?reads = "[[1, 2, 3], [4]] :: u8 list list"
  have fit: "fits_image ?files"
    by (simp add: fits_image_def image_files_def length_directory blocks_def nmeta_value)
  have names: "names_ok ?files" by (simp add: names_ok_def name_ok_def stored_name_def)
  obtain im where im: "mkfs ?files ?i = Ok () im" using mkfs_runs [OF fit, of ?i] by auto
  let ?k = "(kernel0 (\<lambda>_. 0) 0 0 (im_sect im))\<lparr>k_curproc := Some 0\<rparr>"
  obtain B where B: "cache_ok (?k\<lparr>k_bcache := B\<rparr>)" "\<forall>j<NBUF. \<not> blocked (B ! j) \<and> \<not> dirty (B ! j)"
    using binit_cache_ok [of ?k] by (auto simp: kernel0_def buf0_def nth_append)
  let ?s = "?k\<lparr>k_bcache := B\<rparr>"
  have "calm ?s" using B by (simp add: calm_def ready_def kernel0_def)
  then have "\<exists>v. read_path (47 # stored_name [95, 115, 104]) 3 ?s =
      Ok (int (min (unat (3 :: u32)) (length (concat ?reads))), take (unat (3 :: u32)) (concat ?reads)) v"
    using B(2) by (intro kernel_reads_mkfs_image [OF fit names _ im, where k = 0]) (simp_all add: kernel0_def inode0_def)
  then obtain v where "read_path [47, 115, 104] 3 ?s = Ok (3, [1, 2, 3]) v" by (auto simp: stored_name_def)
  moreover have "k_disk ?s = im_sect im" by (simp add: kernel0_def)
  ultimately show ?thesis using im by blast
qed

end
