(* ===== verification/Umalloc.thy ===== *)
theory Umalloc
  imports Kernel_State
begin

text \<open>
  The memory allocator of user programs (\<open>umalloc.c\<close>). Headers are in the memory of the
  process: the pointer at the address of the header, the size, in units of 8 bytes, in
  the next word. The address of the variable \<open>base\<close>, chosen by the linker, is a parameter.
  Whether the kernel finds
  the pages for a process that grows from \<open>sz\<close> to \<open>newsz\<close> bytes is a parameter, too:
  \<open>grow sz newsz\<close>. Memory beyond the break holds what the process finds there when it
  gets it. The loops around the circular list return \<open>None\<close>
  if they never end.
\<close>

record uheap =
  u_mem :: mem
  u_freep :: u32
  u_brk :: u32

section \<open>The code\<close>










text \<open>What a call of \<open>sbrk\<close> does to the process: \<open>sys_sbrk\<close> and \<open>growproc\<close>, with the tests
  of \<open>allocuvm\<close> and \<open>deallocuvm\<close> that decide the new size.\<close>

definition sbrk :: "(u32 \<Rightarrow> u32 \<Rightarrow> bool) \<Rightarrow> u32 \<Rightarrow> uheap \<Rightarrow> u32 \<times> uheap" where
  "sbrk grow n s =
     (let sz = u_brk s;
          newsz = sz + n;
          sz' = (if 0 <s n then
                   (if newsz \<ge> KERNBASE then 0
                    else if newsz < sz then sz
                    else if grow sz newsz then newsz
                    else 0)
                 else if n <s 0 then (if newsz \<ge> sz then sz else newsz)
                 else sz) in
      if n \<noteq> 0 \<and> sz' = 0 then (-1, s) else (sz, s\<lparr>u_brk := sz'\<rparr>))"





section \<open>Headers in memory\<close>

definition hdr_sep :: "u32 \<Rightarrow> u32 \<Rightarrow> bool" where
  "hdr_sep x y \<longleftrightarrow> unat x + 8 \<le> unat y \<or> unat y + 8 \<le> unat x"

text \<open>Addresses where headers can be written independently of each other.\<close>

definition headers :: "u32 set \<Rightarrow> bool" where
  "headers H \<longleftrightarrow> (\<forall>x\<in>H. aligned4 x \<and> unat x + 8 \<le> 2 ^ 31) \<and> pairwise hdr_sep H"

lemma headers_mono: "headers H \<Longrightarrow> G \<subseteq> H \<Longrightarrow> headers G"
  by (auto simp: headers_def intro: pairwise_mono)






section \<open>The circular list\<close>












section \<open>Blocks\<close>

text \<open>A block is the address of its header and its size in units.\<close>

type_synonym ublock = "u32 \<times> u32"

definition bstart :: "ublock \<Rightarrow> nat" where
  "bstart b = unat (fst b)"

definition bend :: "ublock \<Rightarrow> nat" where
  "bend b = unat (fst b) + 8 * unat (snd b)"





text \<open>The bytes of blocks.\<close>

definition space :: "ublock set \<Rightarrow> nat set" where
  "space B = (\<Union>b\<in>B. {bstart b..<bend b})"










lemma space_simps [simp]:
  "space {} = {}" "space (insert b B) = {bstart b..<bend b} \<union> space B" "space (B \<union> C) = space B \<union> space C"
  by (auto simp: space_def)












section \<open>The heap\<close>













section \<open>\<open>free\<close>\<close>




section \<open>\<open>malloc\<close>\<close>












text \<open>The argument of \<open>sbrk\<close> is a signed integer: a request for 2^31 bytes or more is a
  negative one. It is granted, but the process does not grow.\<close>

lemma sbrk_huge:
  assumes "2 ^ 31 \<le> unat n" "unat (u_brk s) + unat n < 2 ^ 32" "u_brk s \<noteq> 0"
  shows "sbrk grow n s = (u_brk s, s)"
proof -
  have "unat n < 2 ^ 32" by (rule unat_u32_less)
  then have "unat n div 2 ^ 31 = 1" using assms(1) by simp
  then have "bit (unat n) 31" by (simp add: bit_iff_odd)
  then have "bit n 31" by (simp add: bit_unsigned_iff)
  then have "sint n < 0" using bit_last_iff [of n] by simp
  then have "n <s 0" "\<not> 0 <s n" by (simp_all add: word_sless_alt)
  moreover have "u_brk s \<le> u_brk s + n" using assms(2) by (simp add: word_le_nat_alt unat_word_ariths)
  ultimately show ?thesis using assms(3) by (simp add: sbrk_def Let_def)
qed









section \<open>A program that uses the allocator\<close>















end
